(* ===== verification/Prelude.thy ===== *)
theory Prelude
  imports Main "HOL-Library.Word" "HOL-Library.Monad_Syntax"
begin

unbundle bit_operations_syntax

text \<open>
  Shared vocabulary of the development: fixed-width integer types, the byte memory in which
  the packed data structures live, little endian encodings of integers, and the generic
  lemmas the component theories use.

  A computation of type \<open>'a option\<close> that reads or writes memory is \<open>None\<close> exactly where the
  C program would access memory outside its allocation, read bytes that were never written,
  or not return.  Theorems that such a computation is \<open>Some\<close> are therefore memory safety
  and termination results.
\<close>

section \<open>Fixed-width integers\<close>

type_synonym u8 = "8 word"
type_synonym u16 = "16 word"
type_synonym u32 = "32 word"
type_synonym u64 = "64 word"
type_synonym i64 = "64 word"
type_synonym bytes = "u8 list"

text \<open>\<^emph>\<open>i64\<close> is the type of C \<open>int64_t\<close> and \<open>long long\<close>; its values are read with \<^const>\<open>sint\<close>.\<close>

named_theorems mem_simps \<open>evaluation of the byte memory\<close>
named_theorems codec_simps \<open>little endian encodings\<close>

section \<open>Loops\<close>

text \<open>A \<open>for\<close> loop over the elements of a list whose body may fail.\<close>

fun foldM :: "('a \<Rightarrow> 's \<Rightarrow> 's option) \<Rightarrow> 'a list \<Rightarrow> 's \<Rightarrow> 's option" where
  "foldM f [] s = Some s"
| "foldM f (x # xs) s = do { s \<leftarrow> f x s; foldM f xs s }"

lemma foldM_append: "foldM f (xs @ ys) s = do { s \<leftarrow> foldM f xs s; foldM f ys s }"
proof (induction xs arbitrary: s)
  case (Cons x xs)
  show ?case by (cases "f x s") (simp_all add: Cons)
qed simp

text \<open>A loop that cannot fail, and an invariant of a loop that may.\<close>

lemma foldM_Some: "(\<And>x s. x \<in> set xs \<Longrightarrow> f x s = Some (g x s)) \<Longrightarrow> foldM f xs s = Some (fold g xs s)"
  by (induction xs arbitrary: s) auto

lemma foldM_invariant:
  assumes "foldM f xs s = Some t" "P s"
    and "\<And>x s s'. x \<in> set xs \<Longrightarrow> P s \<Longrightarrow> f x s = Some s' \<Longrightarrow> P s'"
  shows "P t"
  using assms
proof (induction xs arbitrary: s)
  case (Cons x xs)
  from Cons.prems(1) obtain u where u: "f x s = Some u" "foldM f xs u = Some t"
    by (auto simp: bind_eq_Some_conv)
  then show ?case using Cons.prems by (intro Cons.IH [of u]) auto
qed auto

lemma foldM_total:
  assumes "P s" and "\<And>x s. x \<in> set xs \<Longrightarrow> P s \<Longrightarrow> \<exists>s'. f x s = Some s' \<and> P s'"
  shows "\<exists>t. foldM f xs s = Some t \<and> P t"
  using assms
proof (induction xs arbitrary: s)
  case (Cons x xs)
  obtain u where u: "f x s = Some u" "P u" using Cons.prems(2) [of x s] Cons.prems(1) by auto
  obtain t where "foldM f xs u = Some t" "P t" using Cons.IH [of u] u Cons.prems(2) by auto
  then show ?case using u by simp
qed auto

section \<open>Byte memory\<close>

text \<open>
  An allocation is a list of cells; a cell holds a byte or \<open>None\<close> when it was never written
  (\<open>malloc\<close> and \<open>realloc\<close> give no promise about fresh bytes).
\<close>

type_synonym mem = "u8 option list"

definition mem_load :: "mem \<Rightarrow> nat \<Rightarrow> nat \<Rightarrow> u8 list option" where
  "mem_load m off n = (if off + n \<le> length m then those (take n (drop off m)) else None)"

definition mem_store :: "mem \<Rightarrow> nat \<Rightarrow> u8 list \<Rightarrow> mem option" where
  "mem_store m off bs =
     (if off + length bs \<le> length m
      then Some (take off m @ map Some bs @ drop (off + length bs) m) else None)"

definition mem_move :: "mem \<Rightarrow> nat \<Rightarrow> nat \<Rightarrow> nat \<Rightarrow> mem option" where
  "mem_move m dst src n =
     (if src + n \<le> length m \<and> dst + n \<le> length m
      then Some (take dst m @ take n (drop src m) @ drop (dst + n) m) else None)"

definition mem_realloc :: "mem \<Rightarrow> nat \<Rightarrow> mem" where
  "mem_realloc m n = take n m @ replicate (n - length m) None"

section \<open>Little endian integers\<close>

primrec le_bytes :: "nat \<Rightarrow> int \<Rightarrow> u8 list" where
  "le_bytes 0 v = []"
| "le_bytes (Suc n) v = word_of_int v # le_bytes n (v div 256)"

primrec le_val :: "u8 list \<Rightarrow> int" where
  "le_val [] = 0"
| "le_val (b # bs) = uint b + 256 * le_val bs"

lemma length_le_bytes [simp]: "length (le_bytes n v) = n"
  by (induction n arbitrary: v) auto

lemma le_val_nonneg [simp]: "0 \<le> le_val bs"
  by (induction bs) auto

lemma le_val_le_bytes [codec_simps]: "le_val (le_bytes n v) = v mod 256 ^ n"
proof (induction n arbitrary: v)
  case (Suc n)
  have "le_val (le_bytes (Suc n) v) = v mod 256 + 256 * ((v div 256) mod 256 ^ n)"
    by (simp add: Suc uint_word_of_int)
  also have "\<dots> = v mod (256 * 256 ^ n)"
    by (simp add: zmod_zmult2_eq)
  finally show ?case by simp
qed simp

lemma le_val_bound: "le_val bs < 256 ^ length bs"
proof (induction bs)
  case (Cons b bs)
  have "uint b < 256" using uint_lt2p [of b] by simp
  moreover have "256 * le_val bs + 256 \<le> 256 * 256 ^ length bs" using Cons by linarith
  ultimately show ?case by simp
qed simp

lemma le_bytes_le_val [codec_simps]: "le_bytes (length bs) (le_val bs) = bs"
proof (induction bs)
  case (Cons b bs)
  have ub: "0 \<le> uint b" "uint b < 256" using uint_lt2p [of b] by simp_all
  have "take_bit 8 (uint b + 256 * le_val bs) = uint b"
    using ub by (simp add: take_bit_eq_mod)
  then have "word_of_int (uint b + 256 * le_val bs) = b"
    by (intro word_uint_eqI) (simp only: uint_word_of_int_eq, simp)
  moreover have "(uint b + 256 * le_val bs) div 256 = le_val bs" using ub by simp
  ultimately show ?case using Cons by (simp del: of_int_add)
qed simp

section \<open>Loads and stores\<close>

lemma those_map_Some [simp]: "those (map Some xs) = Some xs"
  by (induction xs) auto

lemma length_mem_realloc [simp]: "length (mem_realloc m n) = n"
  by (simp add: mem_realloc_def)

lemma mem_store_length: "mem_store m off bs = Some m' \<Longrightarrow> length m' = length m"
  by (auto simp: mem_store_def split: if_splits)

lemma mem_move_length: "mem_move m d s n = Some m' \<Longrightarrow> length m' = length m"
  by (auto simp: mem_move_def split: if_splits)

lemma mem_load_split: "mem_load (xs @ map Some bs @ ys) (length xs) (length bs) = Some bs"
  by (simp add: mem_load_def)

lemma mem_store_split:
  "length cs = length bs \<Longrightarrow> mem_store (xs @ cs @ ys) (length xs) bs = Some (xs @ map Some bs @ ys)"
  by (simp add: mem_store_def)

section \<open>Arrays of equally sized cells\<close>

text \<open>
  A packed array with \<open>e\<close>-byte elements is the concatenation of its blocks; loads, stores and
  moves at multiples of \<open>e\<close> act on whole blocks.
\<close>

definition cells :: "nat \<Rightarrow> 'a list list \<Rightarrow> bool" where
  "cells e bl \<longleftrightarrow> (\<forall>b \<in> set bl. length b = e)"

lemma cells_simps [simp]:
  "cells e []" "cells e (b # bl) \<longleftrightarrow> length b = e \<and> cells e bl"
  "cells e (bl @ cl) \<longleftrightarrow> cells e bl \<and> cells e cl"
  "cells e (replicate n b) \<longleftrightarrow> n = 0 \<or> length b = e"
  by (auto simp: cells_def)

lemma cells_take [simp]: "cells e bl \<Longrightarrow> cells e (take n bl)"
  by (auto simp: cells_def dest: in_set_takeD)

lemma cells_drop [simp]: "cells e bl \<Longrightarrow> cells e (drop n bl)"
  by (auto simp: cells_def dest: in_set_dropD)

lemma length_cells: "cells e bl \<Longrightarrow> length (concat bl) = e * length bl"
  by (induction bl) auto

lemma take_cells: "cells e bl \<Longrightarrow> take (e * n) (concat bl) = concat (take n bl)"
proof (induction bl arbitrary: n)
  case (Cons b bl)
  then show ?case by (cases n) auto
qed simp

lemma drop_cells: "cells e bl \<Longrightarrow> drop (e * n) (concat bl) = concat (drop n bl)"
proof (induction bl arbitrary: n)
  case (Cons b bl)
  then show ?case by (cases n) auto
qed simp

lemma cell_at: "cells e bl \<Longrightarrow> i < length bl \<Longrightarrow> take e (drop (e * i) (concat bl)) = bl ! i"
proof -
  assume c: "cells e bl" and i: "i < length bl"
  have "drop i bl = bl ! i # drop (Suc i) bl" using i by (simp add: Cons_nth_drop_Suc)
  moreover have "length (bl ! i) = e" using c i by (simp add: cells_def)
  ultimately show ?thesis using c by (simp add: drop_cells)
qed

lemma cell_load [mem_simps]:
  "cells e bl \<Longrightarrow> i < length bl \<Longrightarrow> mem_load (concat bl) (e * i) e = those (bl ! i)"
proof -
  assume c: "cells e bl" and i: "i < length bl"
  have "e * i + e = e * Suc i" by simp
  also have "\<dots> \<le> e * length bl" using i by (intro mult_le_mono2) simp
  finally show ?thesis using c i by (simp add: mem_load_def length_cells cell_at)
qed

lemma cell_store [mem_simps]:
  assumes "cells e bl" "i < length bl" "length bs = e"
  shows "mem_store (concat bl) (e * i) bs = Some (concat (bl[i := map Some bs]))"
proof -
  have eq: "e * i + e = e * Suc i" by simp
  have "e * Suc i \<le> e * length bl" using assms(2) by (intro mult_le_mono2) simp
  moreover have "drop (e * Suc i) (concat bl) = concat (drop (Suc i) bl)"
    using assms(1) by (rule drop_cells)
  ultimately show ?thesis using assms
    by (simp only: mem_store_def eq length_cells)
       (simp add: take_cells upd_conv_take_nth_drop)
qed

lemma cell_move [mem_simps]:
  assumes "cells e bl" "s + n \<le> length bl" "d + n \<le> length bl"
  shows "mem_move (concat bl) (e * d) (e * s) (e * n)
       = Some (concat (take d bl @ take n (drop s bl) @ drop (d + n) bl))"
proof -
  have "e * (s + n) \<le> e * length bl" "e * (d + n) \<le> e * length bl"
    using assms(2,3) by (auto intro: mult_le_mono2)
  then show ?thesis using assms(1)
    by (simp add: mem_move_def length_cells take_cells drop_cells flip: add_mult_distrib2)
qed

lemma cell_realloc [mem_simps]:
  assumes "cells e bl"
  shows "mem_realloc (concat bl) (e * n)
       = concat (take n bl @ replicate (n - length bl) (replicate e None))"
proof -
  have "concat (replicate k (replicate e x)) = replicate (e * k) x" for k and x :: "u8 option"
    by (induction k) (auto simp: replicate_add)
  then show ?thesis using assms
    by (simp add: mem_realloc_def take_cells length_cells flip: diff_mult_distrib2)
qed

section \<open>Signed and unsigned readings of 64 bit words\<close>

lemma sint_unat_64:
  "sint (v :: i64) = (if unat v < 9223372036854775808 then int (unat v) else int (unat v) - 18446744073709551616)"
proof -
  have u: "uint v < 18446744073709551616" "0 \<le> uint v" using uint_lt2p [of v] by simp_all
  have "sint v = (uint v + 9223372036854775808) mod 18446744073709551616 - 9223372036854775808"
    using int_word_sint [of "uint v", where 'a = 64] by simp
  also have "\<dots> = (if uint v < 9223372036854775808 then uint v else uint v - 18446744073709551616)"
  proof (cases "uint v < 9223372036854775808")
    case True
    then show ?thesis using u by (simp add: mod_pos_pos_trivial)
  next
    case False
    have "(uint v + 9223372036854775808) mod 18446744073709551616
        = (uint v - 9223372036854775808 + 18446744073709551616) mod 18446744073709551616"
      by (simp add: algebra_simps)
    also have "\<dots> = uint v - 9223372036854775808"
      using False u by (simp only: mod_add_self2) (simp add: mod_pos_pos_trivial)
    finally show ?thesis using False by simp
  qed
  also have "uint v = int (unat v)" by simp
  finally show ?thesis by (simp only: of_nat_less_numeral_iff)
qed

lemma unat_lt_64: "unat (v :: u64) < 18446744073709551616"
  using unsigned_less [of v] by simp

lemma unat_minus_64: "v \<noteq> 0 \<Longrightarrow> unat (- v :: i64) = 18446744073709551616 - unat v"
proof -
  assume "v \<noteq> 0"
  then have "0 < unat v" by (simp add: unat_gt_0)
  have "(unat (- v) + unat v) mod 18446744073709551616 = unat (- v + v)"
    by (simp only: unat_word_ariths) simp
  then have "18446744073709551616 dvd unat (- v) + unat v" by auto
  then obtain k where "unat (- v) + unat v = 18446744073709551616 * k" ..
  note k = this
  have "k < 2" using k unat_lt_64 [of v] unat_lt_64 [of "- v"] by linarith
  moreover have "k \<noteq> 0" using k \<open>0 < unat v\<close> by auto
  ultimately have "k = 1" by linarith
  with k show ?thesis by simp
qed

text \<open>Signed arithmetic without overflow.\<close>

lemma sint_add_64: "- (2 ^ 63) \<le> sint a + sint b \<Longrightarrow> sint a + sint b < 2 ^ 63 \<Longrightarrow> sint (a + b :: i64) = sint a + sint b"
  by (simp add: sint_word_ariths signed_take_bit_int_eq_self)

lemma sint_sub_64: "- (2 ^ 63) \<le> sint a - sint b \<Longrightarrow> sint a - sint b < 2 ^ 63 \<Longrightarrow> sint (a - b :: i64) = sint a - sint b"
  by (simp add: sint_word_ariths signed_take_bit_int_eq_self)

lemma sint_mul_64: "- (2 ^ 63) \<le> sint a * sint b \<Longrightarrow> sint a * sint b < 2 ^ 63 \<Longrightarrow> sint (a * b :: i64) = sint a * sint b"
  by (simp add: sint_word_ariths signed_take_bit_int_eq_self)

lemma sint_of_int_64: "- (2 ^ 63) \<le> i \<Longrightarrow> i < 2 ^ 63 \<Longrightarrow> sint (of_int i :: i64) = i"
  by (simp add: signed_of_int signed_take_bit_int_eq_self)

end
