(* ===== verification/Endianconv.thy ===== *)
theory Endianconv
  imports Prelude
begin

text \<open>
  Byte order conversion, after \<open>src/src/endianconv.c\<close> and the \<open>ifbe\<close> macros of
  \<open>src/src/endianconv.h\<close>.  The host byte order is a parameter \<open>be\<close> (true on a big endian
  host): an integer object is the list of its bytes in host order, and the macros reverse
  them on big endian hosts only.  The lemmas show that what the data structures store is the
  little endian encoding on every host.
\<close>

section \<open>Integer objects as bytes\<close>

definition word_bytes :: "bool \<Rightarrow> nat \<Rightarrow> 'a::len word \<Rightarrow> u8 list" where
  "word_bytes be n w = (if be then rev (le_bytes n (uint w)) else le_bytes n (uint w))"

definition bytes_word :: "bool \<Rightarrow> u8 list \<Rightarrow> 'a::len word" where
  "bytes_word be bs = word_of_int (le_val (if be then rev bs else bs))"

section \<open>The conversion functions\<close>

definition swap_at :: "nat \<Rightarrow> nat \<Rightarrow> 'a list \<Rightarrow> 'a list" where
  "swap_at i j x = (let t = x ! i; x = x[i := x ! j] in x[j := t])"

definition memrev16 :: "u8 list \<Rightarrow> u8 list" where
  "memrev16 x = swap_at 0 1 x"

definition memrev32 :: "u8 list \<Rightarrow> u8 list" where
  "memrev32 x = (let x = swap_at 0 3 x in swap_at 1 2 x)"

definition memrev64 :: "u8 list \<Rightarrow> u8 list" where
  "memrev64 x =
     (let x = swap_at 0 7 x; x = swap_at 1 6 x; x = swap_at 2 5 x in swap_at 3 4 x)"

definition intrev16 :: "bool \<Rightarrow> u16 \<Rightarrow> u16" where
  "intrev16 be v = bytes_word be (memrev16 (word_bytes be 2 v))"

definition intrev32 :: "bool \<Rightarrow> u32 \<Rightarrow> u32" where
  "intrev32 be v = bytes_word be (memrev32 (word_bytes be 4 v))"

definition intrev64 :: "bool \<Rightarrow> u64 \<Rightarrow> u64" where
  "intrev64 be v = bytes_word be (memrev64 (word_bytes be 8 v))"

definition memrev16ifbe :: "bool \<Rightarrow> u8 list \<Rightarrow> u8 list" where
  "memrev16ifbe be x = (if be then memrev16 x else x)"

definition memrev32ifbe :: "bool \<Rightarrow> u8 list \<Rightarrow> u8 list" where
  "memrev32ifbe be x = (if be then memrev32 x else x)"

definition memrev64ifbe :: "bool \<Rightarrow> u8 list \<Rightarrow> u8 list" where
  "memrev64ifbe be x = (if be then memrev64 x else x)"

definition intrev32ifbe :: "bool \<Rightarrow> u32 \<Rightarrow> u32" where
  "intrev32ifbe be v = (if be then intrev32 be v else v)"

definition htonu64 :: "bool \<Rightarrow> u64 \<Rightarrow> u64" where
  "htonu64 be v = (if be then v else intrev64 be v)"

section \<open>The reversals reverse\<close>

lemma list_2_cases: "length x = 2 \<Longrightarrow> \<exists>a b. x = [a, b]"
  by (auto simp: length_Suc_conv numeral_2_eq_2)

lemma memrev16_rev: "length x = 2 \<Longrightarrow> memrev16 x = rev x"
  by (auto simp: memrev16_def swap_at_def length_Suc_conv numeral_eq_Suc)

lemma memrev32_rev: "length x = 4 \<Longrightarrow> memrev32 x = rev x"
  by (auto simp: memrev32_def swap_at_def length_Suc_conv numeral_eq_Suc)

lemma memrev64_rev: "length x = 8 \<Longrightarrow> memrev64 x = rev x"
  by (auto simp: memrev64_def swap_at_def length_Suc_conv numeral_eq_Suc)

lemmas memrev_rev = memrev16_rev memrev32_rev memrev64_rev

lemma length_word_bytes [simp]: "length (word_bytes be n w) = n"
  by (simp add: word_bytes_def)

text \<open>What is stored after the conversion is little endian on either host.\<close>

lemma stored_le [codec_simps]:
  "memrev16ifbe be (word_bytes be 2 w) = le_bytes 2 (uint w)"
  "memrev32ifbe be (word_bytes be 4 w) = le_bytes 4 (uint w)"
  "memrev64ifbe be (word_bytes be 8 w) = le_bytes 8 (uint w)"
  by (simp_all add: memrev16ifbe_def memrev32ifbe_def memrev64ifbe_def memrev_rev word_bytes_def)

lemma loaded_le:
  "length bs = 2 \<Longrightarrow> bytes_word be (memrev16ifbe be bs) = word_of_int (le_val bs)"
  "length bs = 4 \<Longrightarrow> bytes_word be (memrev32ifbe be bs) = word_of_int (le_val bs)"
  "length bs = 8 \<Longrightarrow> bytes_word be (memrev64ifbe be bs) = word_of_int (le_val bs)"
  by (simp_all add: memrev16ifbe_def memrev32ifbe_def memrev64ifbe_def memrev_rev bytes_word_def)

lemma le_bytes_cong: "a mod 256 ^ n = b mod 256 ^ n \<Longrightarrow> le_bytes n a = le_bytes n b"
proof -
  assume "a mod 256 ^ n = b mod 256 ^ n"
  then have "le_val (le_bytes n a) = le_val (le_bytes n b)" by (simp add: codec_simps)
  then have "le_bytes n (le_val (le_bytes n a)) = le_bytes n (le_val (le_bytes n b))" by simp
  then show ?thesis using le_bytes_le_val [of "le_bytes n a"] le_bytes_le_val [of "le_bytes n b"]
    by simp
qed

lemma bytes_word_word_bytes:
  "256 ^ n = (2::int) ^ LENGTH('a::len) \<Longrightarrow> bytes_word be (word_bytes be n (w :: 'a word)) = w"
  by (simp add: bytes_word_def word_bytes_def codec_simps)

lemma word_bytes_bytes_word:
  assumes "length bs = n" and "256 ^ n = (2::int) ^ LENGTH('a::len)"
  shows "word_bytes be n (bytes_word be bs :: 'a word) = bs"
proof -
  have *: "le_bytes n (uint (word_of_int (le_val cs) :: 'a word)) = cs" if "length cs = n" for cs
  proof -
    have "le_val cs < 2 ^ LENGTH('a)" using le_val_bound [of cs, unfolded that assms(2)] .
    then have "uint (word_of_int (le_val cs) :: 'a word) = le_val cs"
      by (simp add: uint_word_of_int)
    then show ?thesis using le_bytes_le_val [of cs] that by simp
  qed
  show ?thesis using * [of bs] * [of "rev bs"] assms(1)
    by (cases be) (simp_all add: word_bytes_def bytes_word_def)
qed

lemma intrev32_twice: "intrev32 be (intrev32 be v) = v"
  by (simp add: intrev32_def word_bytes_bytes_word bytes_word_word_bytes memrev32_rev)

lemma intrev64_twice: "intrev64 be (intrev64 be v) = v"
  by (simp add: intrev64_def word_bytes_bytes_word bytes_word_word_bytes memrev64_rev)

lemma intrev32ifbe_twice [simp]: "intrev32ifbe be (intrev32ifbe be v) = v"
  by (simp add: intrev32ifbe_def intrev32_twice)

end
