(* ===== verification/SetInterface.thy ===== *)
theory SetInterface
  imports Prelude
begin

text \<open>
  The contract of a set container, as the set commands use it: a container is created empty,
  a member is added or removed with a flag telling whether anything changed, and membership is
  tested.  Operations return \<open>None\<close> where the C code would leave its memory or not return, so the
  laws include memory safety and termination.  The capacity \<open>cap\<close> bounds the number of members.
\<close>

datatype 'v set_op = SAdd 'v | SRem 'v

fun run_set_ops ::
  "('s \<Rightarrow> 'v \<Rightarrow> ('s \<times> bool) option) \<Rightarrow> ('s \<Rightarrow> 'v \<Rightarrow> ('s \<times> bool) option) \<Rightarrow>
   's \<Rightarrow> 'v set_op list \<Rightarrow> ('s \<times> bool list) option" where
  "run_set_ops add rm s [] = Some (s, [])"
| "run_set_ops add rm s (SAdd v # ops) =
     do { (s, b) \<leftarrow> add s v; (s, bs) \<leftarrow> run_set_ops add rm s ops; Some (s, b # bs) }"
| "run_set_ops add rm s (SRem v # ops) =
     do { (s, b) \<leftarrow> rm s v; (s, bs) \<leftarrow> run_set_ops add rm s ops; Some (s, b # bs) }"

text \<open>The same operations on a mathematical set.\<close>

fun spec_set_ops :: "'a set \<Rightarrow> 'a set_op list \<Rightarrow> 'a set \<times> bool list" where
  "spec_set_ops A [] = (A, [])"
| "spec_set_ops A (SAdd x # ops) =
     (let (B, bs) = spec_set_ops (insert x A) ops in (B, (x \<notin> A) # bs))"
| "spec_set_ops A (SRem x # ops) =
     (let (B, bs) = spec_set_ops (A - {x}) ops in (B, (x \<in> A) # bs))"

locale set_impl =
  fixes new :: 's
    and add :: "'s \<Rightarrow> 'v \<Rightarrow> ('s \<times> bool) option"
    and rm :: "'s \<Rightarrow> 'v \<Rightarrow> ('s \<times> bool) option"
    and isin :: "'s \<Rightarrow> 'v \<Rightarrow> bool option"
    and rep :: "'s \<Rightarrow> 'a set \<Rightarrow> bool"
    and val :: "'v \<Rightarrow> 'a"
    and cap :: nat
  assumes rep_new: "rep new {}"
    and rep_finite: "rep s A \<Longrightarrow> finite A"
    and add_spec: "rep s A \<Longrightarrow> card A < cap \<Longrightarrow>
          \<exists>s'. add s v = Some (s', val v \<notin> A) \<and> rep s' (insert (val v) A)"
    and rm_spec: "rep s A \<Longrightarrow> \<exists>s'. rm s v = Some (s', val v \<in> A) \<and> rep s' (A - {val v})"
    and isin_spec: "rep s A \<Longrightarrow> isin s v = Some (val v \<in> A)"
begin

lemma run_refines:
  "rep s A \<Longrightarrow> card A + length ops \<le> cap \<Longrightarrow>
   \<exists>s'. run_set_ops add rm s ops = Some (s', snd (spec_set_ops A (map (map_set_op val) ops))) \<and>
        rep s' (fst (spec_set_ops A (map (map_set_op val) ops)))"
proof (induction ops arbitrary: s A)
  case (Cons op ops)
  show ?case
  proof (cases op)
    case (SAdd v)
    obtain s1 where s1: "add s v = Some (s1, val v \<notin> A)" "rep s1 (insert (val v) A)"
      using add_spec [OF Cons.prems(1), of v] Cons.prems(2) by auto
    have "card (insert (val v) A) + length ops \<le> cap"
      using Cons.prems(2) card_insert_le_m1 [of "Suc (card A)" A "val v"] by simp
    from Cons.IH [OF s1(2) this] s1(1) SAdd show ?thesis by (auto simp: split_def Let_def)
  next
    case (SRem v)
    obtain s1 where s1: "rm s v = Some (s1, val v \<in> A)" "rep s1 (A - {val v})"
      using rm_spec [OF Cons.prems(1), of v] by auto
    have "card (A - {val v}) + length ops \<le> cap"
      using Cons.prems(2) card_Diff1_le [of A "val v"] by simp
    from Cons.IH [OF s1(2) this] s1(1) SRem show ?thesis by (auto simp: split_def Let_def)
  qed
qed simp

lemma run_new_isin:
  "length ops \<le> cap \<Longrightarrow>
   \<exists>s. run_set_ops add rm new ops = Some (s, snd (spec_set_ops {} (map (map_set_op val) ops))) \<and>
       (\<forall>v. isin s v = Some (val v \<in> fst (spec_set_ops {} (map (map_set_op val) ops))))"
  using run_refines [OF rep_new, of ops] isin_spec by fastforce

end

end
