(* ===== verification/Intset.thy ===== *)
theory Intset
  imports Endianconv SetInterface
begin

text \<open>
  The sorted integer array of \<open>src/src/intset.c\<close>.  The structure is kept at byte level: the
  element array is a \<^typ>\<open>mem\<close>, elements are loaded and stored with the current encoding, and
  the header fields are the in-memory values that the code converts with \<open>intrev32ifbe\<close>.  Sizes
  are 32 bit and wrap, as in \<open>intsetResize\<close>.
\<close>

record intset =
  encoding :: u32
  is_length :: u32
  contents :: mem

definition INTSET_ENC_INT16 :: nat where "INTSET_ENC_INT16 = 2"
definition INTSET_ENC_INT32 :: nat where "INTSET_ENC_INT32 = 4"
definition INTSET_ENC_INT64 :: nat where "INTSET_ENC_INT64 = 8"

lemmas intset_enc_defs = INTSET_ENC_INT16_def INTSET_ENC_INT32_def INTSET_ENC_INT64_def

definition u_intsetValueEncoding :: "i64 \<Rightarrow> u8" where
  "u_intsetValueEncoding v =
     (if sint v < - 2147483648 \<or> sint v > 2147483647 then of_nat INTSET_ENC_INT64
      else if sint v < - 32768 \<or> sint v > 32767 then of_nat INTSET_ENC_INT32
      else of_nat INTSET_ENC_INT16)"

text \<open>A pointer before the start of the array is an invalid access.\<close>

definition u_intsetGetEncoded :: "bool \<Rightarrow> intset \<Rightarrow> int \<Rightarrow> u8 \<Rightarrow> i64 option" where
  "u_intsetGetEncoded be is pos enc =
     (if pos < 0 then None
      else if unat enc = INTSET_ENC_INT64 then
        do { bs \<leftarrow> mem_load (contents is) (8 * nat pos) 8;
             Some (bytes_word be (memrev64ifbe be bs)) }
      else if unat enc = INTSET_ENC_INT32 then
        do { bs \<leftarrow> mem_load (contents is) (4 * nat pos) 4;
             Some (scast (bytes_word be (memrev32ifbe be bs) :: u32)) }
      else
        do { bs \<leftarrow> mem_load (contents is) (2 * nat pos) 2;
             Some (scast (bytes_word be (memrev16ifbe be bs) :: u16)) })"

definition u_intsetGet :: "bool \<Rightarrow> intset \<Rightarrow> int \<Rightarrow> i64 option" where
  "u_intsetGet be is pos = u_intsetGetEncoded be is pos (ucast (intrev32ifbe be (encoding is)))"

definition u_intsetSet :: "bool \<Rightarrow> intset \<Rightarrow> int \<Rightarrow> i64 \<Rightarrow> intset option" where
  "u_intsetSet be is pos v =
     (let enc = intrev32ifbe be (encoding is) in
      if pos < 0 then None
      else if unat enc = INTSET_ENC_INT64 then
        do { m \<leftarrow> mem_store (contents is) (8 * nat pos) (memrev64ifbe be (word_bytes be 8 v));
             Some (is\<lparr>contents := m\<rparr>) }
      else if unat enc = INTSET_ENC_INT32 then
        do { m \<leftarrow> mem_store (contents is) (4 * nat pos)
                    (memrev32ifbe be (word_bytes be 4 (ucast v :: u32)));
             Some (is\<lparr>contents := m\<rparr>) }
      else
        do { m \<leftarrow> mem_store (contents is) (2 * nat pos)
                    (memrev16ifbe be (word_bytes be 2 (ucast v :: u16)));
             Some (is\<lparr>contents := m\<rparr>) })"

definition intsetNew :: "bool \<Rightarrow> intset" where
  "intsetNew be =
     \<lparr>encoding = intrev32ifbe be (of_nat INTSET_ENC_INT16), is_length = 0, contents = []\<rparr>"

definition intsetResize :: "bool \<Rightarrow> intset \<Rightarrow> u32 \<Rightarrow> intset" where
  "intsetResize be is len =
     (let size = len * intrev32ifbe be (encoding is)
      in is\<lparr>contents := mem_realloc (contents is) (unat size)\<rparr>)"

text \<open>
  The binary search loop returns \<open>min\<close>, \<open>mid\<close> and \<open>cur\<close> at its exit.  The midpoint is computed
  on unsigned 32 bit values.
\<close>

partial_function (option) intsetSearch_loop ::
  "bool \<Rightarrow> intset \<Rightarrow> i64 \<Rightarrow> int \<Rightarrow> int \<Rightarrow> int \<Rightarrow> i64 \<Rightarrow> (int \<times> int \<times> i64) option" where
  "intsetSearch_loop be is v mn mx mid cur =
     (if mx \<ge> mn then
        let mid = uint (drop_bit 1 (word_of_int mn + word_of_int mx :: u32)) in
        do { cur \<leftarrow> u_intsetGet be is mid;
             if sint v > sint cur then intsetSearch_loop be is v (mid + 1) mx mid cur
             else if sint v < sint cur then intsetSearch_loop be is v mn (mid - 1) mid cur
             else Some (mn, mid, cur) }
      else Some (mn, mid, cur))"

definition intsetSearch :: "bool \<Rightarrow> intset \<Rightarrow> i64 \<Rightarrow> (bool \<times> u32) option" where
  "intsetSearch be is v =
     (let len = intrev32ifbe be (is_length is); mx = sint (len - 1) in
      if len = 0 then Some (False, 0)
      else do { l \<leftarrow> u_intsetGet be is mx;
                if sint v > sint l then Some (False, len)
                else do { f \<leftarrow> u_intsetGet be is 0;
                          if sint v < sint f then Some (False, 0)
                          else do { (mn, mid, cur) \<leftarrow> intsetSearch_loop be is v 0 mx (- 1) (- 1);
                                    if v = cur then Some (True, word_of_int mid)
                                    else Some (False, word_of_int mn) } } })"

primrec intsetUpgrade_loop :: "bool \<Rightarrow> nat \<Rightarrow> int \<Rightarrow> u8 \<Rightarrow> intset \<Rightarrow> intset option" where
  "intsetUpgrade_loop be 0 prepend curenc is = Some is"
| "intsetUpgrade_loop be (Suc k) prepend curenc is =
     do { v \<leftarrow> u_intsetGetEncoded be is (int k) curenc;
          is \<leftarrow> u_intsetSet be is (int k + prepend) v;
          intsetUpgrade_loop be k prepend curenc is }"

text \<open>
  A length of \<open>2^31\<close> or more is a negative \<open>int\<close> and the loop would start below the array.
\<close>

definition intsetUpgradeAndAdd :: "bool \<Rightarrow> intset \<Rightarrow> i64 \<Rightarrow> intset option" where
  "intsetUpgradeAndAdd be is v =
     (let curenc = ucast (intrev32ifbe be (encoding is)) :: u8;
          newenc = u_intsetValueEncoding v;
          len = sint (intrev32ifbe be (is_length is));
          prepend = (if sint v < 0 then 1 else 0);
          is = is\<lparr>encoding := intrev32ifbe be (ucast newenc)\<rparr>;
          is = intsetResize be is (intrev32ifbe be (is_length is) + 1)
      in if len < 0 then None
         else do { is \<leftarrow> intsetUpgrade_loop be (nat len) prepend curenc is;
                   is \<leftarrow> (if prepend \<noteq> 0 then u_intsetSet be is 0 v
                          else u_intsetSet be is (sint (intrev32ifbe be (is_length is))) v);
                   Some (is\<lparr>is_length := intrev32ifbe be (intrev32ifbe be (is_length is) + 1)\<rparr>) })"

definition intsetMoveTail :: "bool \<Rightarrow> intset \<Rightarrow> u32 \<Rightarrow> u32 \<Rightarrow> intset option" where
  "intsetMoveTail be is from to =
     (let bytes = intrev32ifbe be (is_length is) - from;
          enc = intrev32ifbe be (encoding is);
          sz = (if unat enc = INTSET_ENC_INT64 then 8
                else if unat enc = INTSET_ENC_INT32 then 4 else 2) :: nat
      in do { m \<leftarrow> mem_move (contents is) (sz * unat to) (sz * unat from)
                     (unat (bytes * of_nat sz));
              Some (is\<lparr>contents := m\<rparr>) })"

definition intsetAdd :: "bool \<Rightarrow> intset \<Rightarrow> i64 \<Rightarrow> (intset \<times> bool) option" where
  "intsetAdd be is v =
     (let valenc = u_intsetValueEncoding v in
      if ucast valenc > intrev32ifbe be (encoding is)
      then do { is \<leftarrow> intsetUpgradeAndAdd be is v; Some (is, True) }
      else do { (found, pos) \<leftarrow> intsetSearch be is v;
                if found then Some (is, False)
                else let is = intsetResize be is (intrev32ifbe be (is_length is) + 1) in
                  do { is \<leftarrow> (if pos < intrev32ifbe be (is_length is)
                              then intsetMoveTail be is pos (pos + 1) else Some is);
                       is \<leftarrow> u_intsetSet be is (sint pos) v;
                       Some (is\<lparr>is_length :=
                               intrev32ifbe be (intrev32ifbe be (is_length is) + 1)\<rparr>, True) } })"

definition intsetRemove :: "bool \<Rightarrow> intset \<Rightarrow> i64 \<Rightarrow> (intset \<times> bool) option" where
  "intsetRemove be is v =
     (let valenc = u_intsetValueEncoding v in
      if ucast valenc \<le> intrev32ifbe be (encoding is)
      then do { (found, pos) \<leftarrow> intsetSearch be is v;
                if found then
                  let len = intrev32ifbe be (is_length is) in
                  do { is \<leftarrow> (if pos < len - 1 then intsetMoveTail be is (pos + 1) pos else Some is);
                       let is = intsetResize be is (len - 1);
                       Some (is\<lparr>is_length := intrev32ifbe be (len - 1)\<rparr>, True) }
                else Some (is, False) }
      else Some (is, False))"

definition intsetFind :: "bool \<Rightarrow> intset \<Rightarrow> i64 \<Rightarrow> bool option" where
  "intsetFind be is v =
     (let valenc = u_intsetValueEncoding v in
      if ucast valenc \<le> intrev32ifbe be (encoding is)
      then map_option fst (intsetSearch be is v) else Some False)"

text \<open>\<open>r\<close> is what \<open>rand()\<close> returned; an empty set is a division by zero.\<close>

definition intsetRandom :: "bool \<Rightarrow> intset \<Rightarrow> u32 \<Rightarrow> i64 option" where
  "intsetRandom be is r =
     (let len = intrev32ifbe be (is_length is) in
      if len = 0 then None else u_intsetGet be is (sint (r mod len)))"

definition intsetGet :: "bool \<Rightarrow> intset \<Rightarrow> u32 \<Rightarrow> i64 option option" where
  "intsetGet be is pos =
     (if pos < intrev32ifbe be (is_length is)
      then map_option Some (u_intsetGet be is (sint pos)) else Some None)"

definition intsetLen :: "bool \<Rightarrow> intset \<Rightarrow> u32" where
  "intsetLen be is = intrev32ifbe be (is_length is)"

definition intsetBlobLen :: "bool \<Rightarrow> intset \<Rightarrow> u64" where
  "intsetBlobLen be is =
     8 + ucast (intrev32ifbe be (is_length is) * intrev32ifbe be (encoding is))"

section \<open>Representation\<close>

text \<open>
  \<open>intset_rep be is xs\<close>: the structure holds exactly the integers \<open>xs\<close>, strictly increasing, each
  in the signed range of the current encoding, in a buffer of exactly the needed size.
\<close>

definition in_enc :: "nat \<Rightarrow> int \<Rightarrow> bool" where
  "in_enc e x \<longleftrightarrow> - (2 ^ (8 * e - 1)) \<le> x \<and> x < 2 ^ (8 * e - 1)"

definition blk :: "nat \<Rightarrow> int \<Rightarrow> mem" where
  "blk e x = map Some (le_bytes e x)"

definition intset_enc :: "bool \<Rightarrow> intset \<Rightarrow> nat" where
  "intset_enc be is = unat (intrev32ifbe be (encoding is))"

definition intset_rep :: "bool \<Rightarrow> intset \<Rightarrow> int list \<Rightarrow> bool" where
  "intset_rep be is xs \<longleftrightarrow>
     intset_enc be is \<in> {2, 4, 8} \<and> length xs < 2 ^ 29 \<and>
     is_length is = intrev32ifbe be (of_nat (length xs)) \<and>
     contents is = concat (map (blk (intset_enc be is)) xs) \<and>
     sorted_wrt (<) xs \<and> (\<forall>x \<in> set xs. in_enc (intset_enc be is) x)"

lemma length_blk [simp]: "length (blk e x) = e"
  by (simp add: blk_def)

lemma cells_blk [simp]: "cells e (map (blk e) xs)"
  by (auto simp: cells_def)

lemma those_blk [simp]: "those (blk e x) = Some (le_bytes e x)"
  by (simp add: blk_def)

lemma in_enc_mono: "in_enc e x \<Longrightarrow> e \<in> {2, 4, 8} \<Longrightarrow> f \<in> {2, 4, 8} \<Longrightarrow> e \<le> f \<Longrightarrow> in_enc f x"
  by (auto simp: in_enc_def)

lemma in_enc_8 [simp]: "in_enc 8 (sint (v :: i64))"
  using sint_range_size [of v] by (simp add: in_enc_def wsst_TYs word_size)

lemma valueEncoding:
  "unat (u_intsetValueEncoding v) \<in> {2, 4, 8}"
  "e \<in> {2, 4, 8} \<Longrightarrow> unat (u_intsetValueEncoding v) \<le> e \<longleftrightarrow> in_enc e (sint v)"
  using in_enc_8 [of v]
  by (auto simp: u_intsetValueEncoding_def intset_enc_defs in_enc_def)

lemma sint_word_of_int_in_enc: "in_enc 8 x \<Longrightarrow> sint (word_of_int x :: i64) = x"
  by (simp add: in_enc_def signed_of_int signed_take_bit_int_eq_self)

lemma word_of_le_bytes:
  "256 ^ n = (2::int) ^ LENGTH('a::len) \<Longrightarrow> word_of_int (le_val (le_bytes n x)) = (word_of_int x :: 'a word)"
  by (rule word_uint_eqI) (simp add: codec_simps uint_word_of_int)

lemma load_enc:
  "word_of_int (le_val (le_bytes 8 x)) = (word_of_int x :: i64)"
  "in_enc 4 x \<Longrightarrow> scast (word_of_int (le_val (le_bytes 4 x)) :: u32) = (word_of_int x :: i64)"
  "in_enc 2 x \<Longrightarrow> scast (word_of_int (le_val (le_bytes 2 x)) :: u16) = (word_of_int x :: i64)"
  by (simp_all add: word_of_le_bytes scast_eq in_enc_def signed_of_int signed_take_bit_int_eq_self)

lemma store_enc:
  "le_bytes 8 (uint (v :: i64)) = le_bytes 8 (sint v)"
  "le_bytes 4 (uint (ucast v :: u32)) = le_bytes 4 (sint v)"
  "le_bytes 2 (uint (ucast v :: u16)) = le_bytes 2 (sint v)"
  by (rule le_bytes_cong,
      simp add: uint_sint [of v] unsigned_ucast_eq take_bit_eq_mod mod_mod_cancel)+

lemma getEncoded_rep:
  assumes "contents is = concat bl" "cells e bl" "i < length bl" "bl ! i = blk e x"
    and e: "e \<in> {2, 4, 8}" and x: "in_enc e x"
  shows "u_intsetGetEncoded be is (int i) (of_nat e) = Some (word_of_int x)"
proof -
  have ld: "mem_load (contents is) (e * i) e = Some (le_bytes e x)"
    using assms by (simp add: cell_load)
  show ?thesis using ld e x
    by (auto simp: u_intsetGetEncoded_def intset_enc_defs loaded_le load_enc)
qed

lemma set_raw:
  assumes "intset_enc be is = e" "e \<in> {2, 4, 8}" "e * i + e \<le> length (contents is)"
  shows "u_intsetSet be is (int i) v = Some (is\<lparr>contents :=
     take (e * i) (contents is) @ blk e (sint v) @ drop (e * i + e) (contents is)\<rparr>)"
  using assms
  by (auto simp: u_intsetSet_def intset_enc_defs codec_simps store_enc intset_enc_def
      mem_store_def blk_def)

lemma set_rep:
  assumes "contents is = concat bl" "cells e bl" "i < length bl"
    and e: "e \<in> {2, 4, 8}" "intset_enc be is = e"
  shows "u_intsetSet be is (int i) v = Some (is\<lparr>contents := concat (bl[i := blk e (sint v)])\<rparr>)"
proof -
  have st: "mem_store (contents is) (e * i) (le_bytes e (sint v))
      = Some (concat (bl[i := blk e (sint v)]))"
    using assms by (simp add: cell_store blk_def)
  show ?thesis using st e
    by (auto simp: u_intsetSet_def intset_enc_defs codec_simps store_enc intset_enc_def)
qed

section \<open>Search\<close>

lemma ucast_enc: "ucast (intrev32ifbe be (encoding is)) = (of_nat (intset_enc be is) :: u8)"
  by (simp add: intset_enc_def)

lemma get_rep:
  assumes "intset_rep be is xs" "i < length xs"
  shows "u_intsetGet be is (int i) = Some (word_of_int (xs ! i))"
    and "sint (word_of_int (xs ! i) :: i64) = xs ! i"
proof -
  let ?e = "intset_enc be is"
  have e: "?e \<in> {2, 4, 8}" and x: "in_enc ?e (xs ! i)" and c: "contents is = concat (map (blk ?e) xs)"
    using assms by (auto simp: intset_rep_def)
  show "u_intsetGet be is (int i) = Some (word_of_int (xs ! i))"
    unfolding u_intsetGet_def ucast_enc
    by (rule getEncoded_rep [OF c]) (use e x assms in auto)
  show "sint (word_of_int (xs ! i) :: i64) = xs ! i"
    by (rule sint_word_of_int_in_enc, rule in_enc_mono [OF x e]) (use e in auto)
qed

lemma midpoint:
  assumes "0 \<le> mn" "mn \<le> mx" "mx < 2 ^ 31"
  shows "uint (drop_bit 1 (word_of_int mn + word_of_int mx :: u32)) = (mn + mx) div 2"
proof -
  have "uint (word_of_int mn + word_of_int mx :: u32) = mn + mx"
    using assms by (simp add: uint_word_of_int flip: of_int_add)
  then show ?thesis unfolding unsigned_drop_bit_eq using assms
    by (simp add: drop_bit_eq_div take_bit_int_eq_self)
qed

definition split_at :: "int \<Rightarrow> int list \<Rightarrow> nat \<Rightarrow> bool" where
  "split_at v xs p \<longleftrightarrow> p \<le> length xs \<and> (\<forall>x \<in> set (take p xs). x < v) \<and> (\<forall>x \<in> set (drop p xs). v < x)"

lemma search_loop:
  assumes rep: "intset_rep be is xs"
    and "0 \<le> mn" "mx < int (length xs)" "mn \<le> mx \<or> cur \<noteq> v \<and> mn = mx + 1"
    and "\<forall>i < nat mn. xs ! i < sint v" "\<forall>i. mx < int i \<longrightarrow> i < length xs \<longrightarrow> sint v < xs ! i"
  shows "\<exists>mn' mid' cur'. intsetSearch_loop be is v mn mx mid cur = Some (mn', mid', cur') \<and>
     (if v = cur' then 0 \<le> mid' \<and> mid' < int (length xs) \<and> xs ! nat mid' = sint v
      else 0 \<le> mn' \<and> mn' \<le> int (length xs) \<and> (\<forall>i < nat mn'. xs ! i < sint v) \<and>
           (\<forall>i. nat mn' \<le> i \<longrightarrow> i < length xs \<longrightarrow> sint v < xs ! i))"
  using assms(2-)
proof (induction "nat (mx - mn + 1)" arbitrary: mn mx mid cur rule: less_induct)
  case less
  show ?case
  proof (cases "mn \<le> mx")
    case False
    then have "cur \<noteq> v" "mn = mx + 1" using less.prems by auto
    then show ?thesis using less.prems False
      by (subst intsetSearch_loop.simps) auto
  next
    case True
    define M where "M = (mn + mx) div 2"
    have len: "length xs < 2 ^ 29" using rep by (simp add: intset_rep_def)
    have m: "0 \<le> M" "mn \<le> M" "M \<le> mx" using less.prems True by (auto simp: M_def)
    then have i: "nat M < length xs" using less.prems by auto
    have g: "u_intsetGet be is M = Some (word_of_int (xs ! nat M))"
      "sint (word_of_int (xs ! nat M) :: i64) = xs ! nat M"
      using get_rep [OF rep i] m by simp_all
    have mid: "uint (drop_bit 1 (word_of_int mn + word_of_int mx :: u32)) = M"
      using midpoint [of mn mx] less.prems len True by (simp add: M_def)
    have step: "intsetSearch_loop be is v mn mx mid cur =
      (if sint v > xs ! nat M
       then intsetSearch_loop be is v (M + 1) mx M (word_of_int (xs ! nat M))
       else if sint v < xs ! nat M
       then intsetSearch_loop be is v mn (M - 1) M (word_of_int (xs ! nat M))
       else Some (mn, M, word_of_int (xs ! nat M)))"
      by (subst intsetSearch_loop.simps) (simp only: Let_def mid, simp add: True g)
    have srt: "i \<le> j \<Longrightarrow> j < length xs \<Longrightarrow> xs ! i \<le> xs ! j" for i j
      using rep by (cases "i = j") (auto simp: intset_rep_def sorted_wrt_iff_nth_less
          intro!: less_imp_le)
    consider (gt) "sint v > xs ! nat M" | (lt) "sint v < xs ! nat M" | (eq) "sint v = xs ! nat M"
      by linarith
    then show ?thesis
    proof cases
      case gt
      have "\<forall>i < nat (M + 1). xs ! i < sint v"
      proof (intro allI impI)
        fix j assume "j < nat (M + 1)"
        then have "j \<le> nat M" using m by simp
        from srt [OF this i] gt show "xs ! j < sint v" by simp
      qed
      moreover have "word_of_int (xs ! nat M) \<noteq> v" using gt g by auto
      ultimately show ?thesis unfolding step if_P [OF gt]
        by (intro less.hyps) (use less.prems m True in auto)
    next
      case lt
      have "\<forall>i. M - 1 < int i \<longrightarrow> i < length xs \<longrightarrow> sint v < xs ! i"
      proof (intro allI impI)
        fix j assume "M - 1 < int j" "j < length xs"
        then have "nat M \<le> j" by simp
        from srt [OF this \<open>j < length xs\<close>] lt show "sint v < xs ! j" by simp
      qed
      moreover have "word_of_int (xs ! nat M) \<noteq> v" using lt g by auto
      moreover have ng: "\<not> sint v > xs ! nat M" using lt by simp
      ultimately show ?thesis unfolding step if_not_P [OF ng] if_P [OF lt]
        by (intro less.hyps) (use less.prems m True in auto)
    next
      case eq
      then have "word_of_int (xs ! nat M) = v" by (simp flip: eq)
      then show ?thesis unfolding step using eq m i by auto
    qed
  qed
qed

lemma strict_sorted_nth: "sorted_wrt (<) xs \<Longrightarrow> i < j \<Longrightarrow> j < length xs \<Longrightarrow> xs ! i < (xs ! j :: int)"
  by (simp add: sorted_wrt_iff_nth_less)

lemma len_rep: "intset_rep be is xs \<Longrightarrow> unat (intrev32ifbe be (is_length is)) = length xs"
  by (auto simp: intset_rep_def unat_of_nat)

lemma sint_len_rep:
  assumes "intset_rep be is xs" "k \<le> length xs"
  shows "sint (of_nat k :: u32) = int k" "unat (of_nat k :: u32) = k"
proof -
  have "k < 2 ^ 29" using assms by (auto simp: intset_rep_def)
  then show "sint (of_nat k :: u32) = int k" "unat (of_nat k :: u32) = k"
    by (simp_all add: signed_of_nat signed_take_bit_int_eq_self unat_of_nat)
qed

lemma search_rep:
  assumes rep: "intset_rep be is xs"
  shows "\<exists>p. intsetSearch be is v = Some (sint v \<in> set xs, of_nat p) \<and>
     (if sint v \<in> set xs then p < length xs \<and> xs ! p = sint v else split_at (sint v) xs p)"
proof (cases "xs = []")
  case True
  then show ?thesis using rep
    by (auto simp: intsetSearch_def Let_def intset_rep_def split_at_def)
next
  case False
  let ?n = "length xs"
  have n: "0 < ?n" "?n - 1 < ?n" using False by auto
  have srt: "sorted_wrt (<) xs" and len: "intrev32ifbe be (is_length is) = of_nat ?n"
    using rep by (auto simp: intset_rep_def)
  have nz: "(of_nat ?n :: u32) \<noteq> 0" using sint_len_rep [OF rep, of ?n] n by force
  have mx: "sint (of_nat ?n - 1 :: u32) = int (?n - 1)"
    using sint_len_rep [OF rep, of "?n - 1"] n by (simp add: of_nat_diff Suc_le_eq)
  note l = get_rep [OF rep n(2)] and f = get_rep [OF rep n(1)]
  have le: "xs ! i \<le> xs ! j" if "i \<le> j" "j < ?n" for i j
    using that strict_sorted_nth [OF srt, of i j] by (cases "i = j") auto
  have last: "x \<le> xs ! (?n - 1)" and first: "xs ! 0 \<le> x" if x: "x \<in> set xs" for x
  proof -
    obtain i where "i < ?n" "x = xs ! i" using x by (auto simp: in_set_conv_nth)
    then show "x \<le> xs ! (?n - 1)" "xs ! 0 \<le> x" using le [of i "?n - 1"] le [of 0 i] n by auto
  qed
  consider (gt) "xs ! (?n - 1) < sint v" | (lt) "\<not> xs ! (?n - 1) < sint v" "sint v < xs ! 0"
    | (mid) "\<not> xs ! (?n - 1) < sint v" "\<not> sint v < xs ! 0" by blast
  then show ?thesis
  proof cases
    case gt
    then have "intsetSearch be is v = Some (False, of_nat ?n)"
      using l by (simp add: intsetSearch_def Let_def len nz mx)
    moreover have "\<forall>x \<in> set xs. x < sint v" using last gt by fastforce
    ultimately show ?thesis by (auto simp: split_at_def intro!: exI [of _ ?n])
  next
    case lt
    then have "intsetSearch be is v = Some (False, 0)"
      using l f by (simp add: intsetSearch_def Let_def len nz mx)
    moreover have "\<forall>x \<in> set xs. sint v < x" using first lt by fastforce
    ultimately show ?thesis by (auto simp: split_at_def intro!: exI [of _ 0])
  next
    case mid
    obtain mn' mid' cur' where
      lp: "intsetSearch_loop be is v 0 (int (?n - 1)) (- 1) (- 1) = Some (mn', mid', cur')" and
      res: "if v = cur' then 0 \<le> mid' \<and> mid' < int ?n \<and> xs ! nat mid' = sint v
      else 0 \<le> mn' \<and> mn' \<le> int ?n \<and> (\<forall>i < nat mn'. xs ! i < sint v) \<and>
           (\<forall>i. nat mn' \<le> i \<longrightarrow> i < ?n \<longrightarrow> sint v < xs ! i)"
      using search_loop [OF rep, of 0 "int (?n - 1)" "- 1" v "- 1"] n by auto
    have s: "intsetSearch be is v =
        (if v = cur' then Some (True, word_of_int mid') else Some (False, word_of_int mn'))"
      using l f mid lp by (simp add: intsetSearch_def Let_def len nz mx)
    show ?thesis
    proof (cases "v = cur'")
      case True
      then have m: "0 \<le> mid'" "nat mid' < ?n" "xs ! nat mid' = sint v" using res by auto
      then have "sint v \<in> set xs" by (metis nth_mem)
      then show ?thesis using s True m by (intro exI [of _ "nat mid'"]) auto
    next
      case False
      then have m: "0 \<le> mn'" "nat mn' \<le> ?n" "\<forall>i < nat mn'. xs ! i < sint v"
        "\<forall>i. nat mn' \<le> i \<longrightarrow> i < ?n \<longrightarrow> sint v < xs ! i" using res by auto
      have "sint v \<notin> set xs"
      proof
        assume "sint v \<in> set xs"
        then obtain i where "i < ?n" "xs ! i = sint v" by (auto simp: in_set_conv_nth)
        then show False using m(3) [rule_format, of i] m(4) [rule_format, of i] by linarith
      qed
      moreover have "split_at (sint v) xs (nat mn')"
        using m by (auto simp: split_at_def in_set_conv_nth)
      ultimately show ?thesis using s False m by (intro exI [of _ "nat mn'"]) auto
    qed
  qed
qed

section \<open>Insertion and removal\<close>

lemma u32_size:
  assumes "k < 2 ^ 29" "e \<in> {2, 4, 8}"
  shows "unat (of_nat k * of_nat e :: u32) = e * k"
proof -
  have "k * e < 2 ^ 32" using assms by auto
  then show ?thesis by (simp add: unat_of_nat mult.commute flip: of_nat_mult)
qed

lemma intset_enc_upd [simp]:
  "intset_enc be (is\<lparr>contents := c\<rparr>) = intset_enc be is"
  "intset_enc be (is\<lparr>is_length := l\<rparr>) = intset_enc be is"
  "intset_enc be (is\<lparr>encoding := intrev32ifbe be w\<rparr>) = unat w"
  by (simp_all add: intset_enc_def)

lemma enc_of_nat: "intrev32ifbe be (encoding is) = of_nat (intset_enc be is)"
  by (simp add: intset_enc_def)

lemma resize_cells:
  assumes "contents is = concat bl" "cells e bl" "intset_enc be is = e" "e \<in> {2, 4, 8}" "k < 2 ^ 29"
  shows "intsetResize be is (of_nat k) =
     is\<lparr>contents := concat (take k bl @ replicate (k - length bl) (replicate e None))\<rparr>"
  using assms by (simp add: intsetResize_def Let_def enc_of_nat u32_size cell_realloc)

lemma moveTail_cells:
  assumes "contents is = concat bl" "cells e bl" "intset_enc be is = e" "e \<in> {2, 4, 8}"
    and "intrev32ifbe be (is_length is) = of_nat n" "n < 2 ^ 29" "f \<le> n" "t < 2 ^ 29"
    and "n \<le> length bl" "t + (n - f) \<le> length bl"
  shows "intsetMoveTail be is (of_nat f) (of_nat t) =
     Some (is\<lparr>contents := concat (take t bl @ take (n - f) (drop f bl) @ drop (t + (n - f)) bl)\<rparr>)"
proof -
  have sz: "(if unat (intrev32ifbe be (encoding is)) = INTSET_ENC_INT64 then 8
      else if unat (intrev32ifbe be (encoding is)) = INTSET_ENC_INT32 then 4 else 2) = e"
    using assms(3,4) by (auto simp: intset_enc_defs intset_enc_def)
  have u: "unat (of_nat f :: u32) = f" "unat (of_nat t :: u32) = t"
    using assms(6,7,8) by (simp_all add: unat_of_nat)
  have b: "unat ((of_nat n - of_nat f :: u32) * of_nat e) = e * (n - f)"
    using assms(4,6,7) u32_size [of "n - f" e] by (simp add: of_nat_diff)
  have mv: "mem_move (concat bl) (e * t) (e * f) (e * (n - f))
      = Some (concat (take t bl @ take (n - f) (drop f bl) @ drop (t + (n - f)) bl))"
    using assms by (intro cell_move) auto
  show ?thesis
    by (simp only: intsetMoveTail_def Let_def sz u assms(1,5) b mv bind.bind_lunit)
qed

text \<open>Insertion of an absent value at its position, and removal of the element at a position.\<close>

lemma add_cells:
  assumes "p \<le> length bl"
  shows "(take (Suc p) (bl @ [x]) @ take (length bl - p) (drop p (bl @ [x])) @
      drop (Suc p + (length bl - p)) (bl @ [x]))[p := y] = take p bl @ y # drop p bl"
proof -
  have "take (length bl - p) (drop p (bl @ [x])) = drop p bl" using assms by simp
  moreover have "take (Suc p) (bl @ [x]) = take p bl @ [(bl @ [x]) ! p]"
    using assms by (cases "p = length bl") (simp_all add: take_Suc_conv_app_nth nth_append)
  ultimately show ?thesis using assms by (simp add: list_update_append)
qed

lemma unat_ucast_u8 [simp]: "unat (ucast (w :: u8) :: u32) = unat w"
proof -
  have "unat w < 256" using unsigned_less [of w] by simp
  then show ?thesis by (simp add: unsigned_ucast_eq take_bit_nat_eq_self)
qed

lemma split_at_insert:
  assumes "sorted_wrt (<) xs" "split_at v xs p"
  shows "sorted_wrt (<) (take p xs @ v # drop p xs)" "set (take p xs @ v # drop p xs) = insert v (set xs)"
    "length (take p xs @ v # drop p xs) = Suc (length xs)"
proof -
  have "sorted_wrt (<) (take p xs @ drop p xs)" using assms by simp
  then show "sorted_wrt (<) (take p xs @ v # drop p xs)"
    using assms(2) unfolding sorted_wrt_append by (auto simp: split_at_def)
  show "set (take p xs @ v # drop p xs) = insert v (set xs)"
    by (metis append_take_drop_id set_append set_simps(2) Un_insert_right)
  show "length (take p xs @ v # drop p xs) = Suc (length xs)"
    using assms(2) by (simp add: split_at_def)
qed

lemma add_no_upgrade:
  assumes rep: "intset_rep be is xs" and enc: "in_enc (intset_enc be is) (sint v)"
    and len: "Suc (length xs) < 2 ^ 29" and new: "sint v \<notin> set xs" "split_at (sint v) xs p"
    and found: "intsetSearch be is v = Some (False, of_nat p)"
  shows "\<exists>is'. intsetAdd be is v = Some (is', True) \<and> intset_rep be is' (take p xs @ sint v # drop p xs)"
proof -
  let ?e = "intset_enc be is" and ?n = "length xs"
  let ?bl = "map (blk ?e) xs" and ?v = "sint v"
  have e: "?e \<in> {2, 4, 8}" and c: "contents is = concat ?bl"
    and l: "intrev32ifbe be (is_length is) = of_nat ?n" using rep by (auto simp: intset_rep_def)
  have p: "p \<le> ?n" using new by (simp add: split_at_def)
  have noup: "\<not> ucast (u_intsetValueEncoding v) > intrev32ifbe be (encoding is)"
    using valueEncoding(2) [OF e, of v] enc
    by (simp add: word_less_nat_alt intset_enc_def)
  have len32: "is_length is = intrev32ifbe be (of_nat ?n)" using rep by (simp add: intset_rep_def)
  let ?cl = "?bl @ [replicate ?e None]"
  let ?is1 = "is\<lparr>contents := concat ?cl\<rparr>"
  have rs: "intsetResize be is (of_nat ?n + 1) = ?is1"
    using resize_cells [OF c _ refl e, of "Suc ?n"] len by (simp add: add.commute)
  let ?dl = "take (Suc p) ?cl @ take (?n - p) (drop p ?cl) @ drop (Suc p + (?n - p)) ?cl"
  define fl where "fl = (if p < ?n then ?dl else ?cl)"
  let ?is2 = "is\<lparr>contents := concat fl\<rparr>"
  have mv: "(if of_nat p < (of_nat ?n :: u32) then intsetMoveTail be ?is1 (of_nat p) (of_nat p + 1)
      else Some ?is1) = Some ?is2"
  proof (cases "p < ?n")
    case True
    have "intsetMoveTail be ?is1 (of_nat p) (of_nat (Suc p)) = Some (?is1\<lparr>contents := concat ?dl\<rparr>)"
      using True e l len by (intro moveTail_cells [where e = ?e and bl = ?cl]) auto
    moreover have "of_nat p < (of_nat ?n :: u32)"
      using True len by (simp add: word_less_nat_alt unat_of_nat)
    ultimately show ?thesis using True by (simp add: add.commute fl_def)
  next
    case False
    then show ?thesis using p by (simp add: fl_def)
  qed
  have fin: "fl[p := blk ?e ?v] = map (blk ?e) (take p xs @ ?v # drop p xs)"
    using add_cells [of p ?bl "replicate ?e None" "blk ?e ?v"] p
    by (auto simp: take_map drop_map fl_def)
  have fl: "cells ?e fl" "p < length fl" using p by (auto simp: fl_def)
  have st: "u_intsetSet be ?is2 (sint (of_nat p :: u32)) v
     = Some (is\<lparr>contents := concat (map (blk ?e) (take p xs @ ?v # drop p xs))\<rparr>)"
    using set_rep [of ?is2 fl ?e p be v] e fl fin sint_len_rep [OF rep, of p] p by simp
  have add: "intsetAdd be is v =
     do { is \<leftarrow> u_intsetSet be ?is2 (sint (of_nat p :: u32)) v;
          Some (is\<lparr>is_length := intrev32ifbe be (intrev32ifbe be (is_length is) + 1)\<rparr>, True) }"
  proof -
    have l1: "intrev32ifbe be (is_length ?is1) = of_nat ?n" using l by simp
    show ?thesis
      by (simp only: intsetAdd_def Let_def noup if_False found bind.bind_lunit prod.case l rs l1 mv)
  qed
  then have add: "intsetAdd be is v =
     Some (is\<lparr>contents := concat (map (blk ?e) (take p xs @ ?v # drop p xs)),
             is_length := intrev32ifbe be (of_nat ?n + 1)\<rparr>, True)"
    by (simp add: st l)
  note ins = split_at_insert [OF _ new(2)]
  show ?thesis unfolding add
    using rep ins len enc by (fastforce simp: intset_rep_def intset_enc_upd add.commute)
qed

text \<open>
  Upgrading back to front: when the \<open>k\<close> first elements are left, the first \<open>k\<close> cells of the old
  width are intact and the cells of the new width from \<open>k + prepend\<close> on are done.
\<close>

lemma upgrade_step_load:
  assumes "c \<in> {2, 4, 8}" "take (c * Suc k) m = concat (map (blk c) ys)" "length ys = Suc k"
    and "in_enc c (ys ! k)" "contents is = m"
  shows "u_intsetGetEncoded be is (int k) (of_nat c) = Some (word_of_int (ys ! k))"
proof -
  have l: "c * Suc k \<le> length m"
  proof (rule ccontr)
    assume "\<not> c * Suc k \<le> length m"
    then have "length (take (c * Suc k) m) < c * Suc k" by simp
    then show False using assms(2,3) length_cells [of c "map (blk c) ys"] by simp
  qed
  have "drop (c * k) (take (c * Suc k) m) = take c (drop (c * k) m)" by (simp add: drop_take)
  then have "take c (drop (c * k) m) = concat (drop k (map (blk c) ys))"
    unfolding assms(2) by (simp add: drop_cells)
  moreover have "drop k ys = [ys ! k]" using assms(3) by (simp flip: Cons_nth_drop_Suc)
  ultimately have "take c (drop (c * k) m) = blk c (ys ! k)" by (simp add: drop_map)
  then have "mem_load m (c * k) c = Some (le_bytes c (ys ! k))"
    using l by (simp add: mem_load_def add.commute)
  then show ?thesis using assms(1,4,5)
    by (auto simp: u_intsetGetEncoded_def intset_enc_defs loaded_le load_enc)
qed

lemma upgrade_loop:
  assumes "c \<in> {2, 4, 8}" "n \<in> {2, 4, 8}" "c \<le> n" "intset_enc be is = n" "pr \<in> {0, 1 :: nat}"
    and "length (contents is) = n * Suc L" "k \<le> L" "length ys = k"
    and "take (c * k) (contents is) = concat (map (blk c) ys)" "\<forall>y \<in> set ys. in_enc c y"
  shows "\<exists>m. intsetUpgrade_loop be k (int pr) (of_nat c) is = Some (is\<lparr>contents := m\<rparr>) \<and>
     length m = n * Suc L \<and> take (n * k) (drop (n * pr) m) = concat (map (blk n) ys) \<and>
     drop (n * (k + pr)) m = drop (n * (k + pr)) (contents is)"
  using assms(4,6-)
proof (induction k arbitrary: "is" ys)
  case 0
  then show ?case by (auto intro!: exI [of _ "contents is"])
next
  case (Suc k)
  have k: "k < length ys" using Suc.prems by simp
  let ?y = "ys ! k" and ?m = "contents is"
  have y: "in_enc c ?y" using Suc.prems k by simp
  have ld: "u_intsetGetEncoded be is (int k) (of_nat c) = Some (word_of_int ?y)"
    using upgrade_step_load [OF assms(1) Suc.prems(5,4) y refl] .
  have sy: "sint (word_of_int ?y :: i64) = ?y"
    using in_enc_mono [OF y assms(1), of 8] assms(1) by (intro sint_word_of_int_in_enc) auto
  define p where "p = n * (k + pr)"
  have pn: "n * (Suc k + pr) = p + n" by (simp add: p_def)
  have "p + n \<le> n * Suc L"
  proof -
    have "Suc k + pr \<le> Suc L" using Suc.prems assms(5) by auto
    from mult_le_mono2 [OF this, of n] show ?thesis by (simp only: pn)
  qed
  then have pl: "p + n \<le> length ?m" using Suc.prems by simp
  let ?m' = "take p ?m @ blk n ?y @ drop (p + n) ?m" and ?ys = "take k ys"
  have st: "u_intsetSet be is (int k + int pr) (word_of_int ?y) = Some (is\<lparr>contents := ?m'\<rparr>)"
    using set_raw [OF Suc.prems(1) assms(2), of "k + pr" "word_of_int ?y"] pl sy
    by (simp add: p_def)
  have ckp: "c * k \<le> p" unfolding p_def using assms(3) by (intro mult_le_mono) auto
  have "take (c * k) ?m' = take (c * k) (take (c * Suc k) ?m)"
    using ckp pl by (simp add: min_def)
  also have "\<dots> = concat (map (blk c) ?ys)"
    using take_cells [of c "map (blk c) ys" k] Suc.prems by (simp add: take_map)
  finally have old: "take (c * k) ?m' = concat (map (blk c) ?ys)" .
  define is1 where "is1 = is\<lparr>contents := ?m'\<rparr>"
  have "intset_enc be is1 = n" "length (contents is1) = n * Suc L" "k \<le> L" "length ?ys = k"
    "take (c * k) (contents is1) = concat (map (blk c) ?ys)" "\<forall>y \<in> set ?ys. in_enc c y"
    using Suc.prems pl old k by (auto simp: is1_def dest: in_set_takeD simp del: take_append)
  from Suc.IH [OF this] obtain m where
    "intsetUpgrade_loop be k (int pr) (of_nat c) is1 = Some (is1\<lparr>contents := m\<rparr>)"
    and lm: "length m = n * Suc L" and new: "take (n * k) (drop (n * pr) m) = concat (map (blk n) ?ys)"
    and "drop p m = drop p (contents is1)" unfolding p_def by blast
  then have m: "intsetUpgrade_loop be k (int pr) (of_nat c) (is\<lparr>contents := ?m'\<rparr>)
      = Some (is\<lparr>contents := m\<rparr>)" and rest: "drop p m = drop p ?m'"
    by (simp_all add: is1_def)
  have rest': "drop p m = blk n ?y @ drop (p + n) ?m" using rest pl by simp
  have "take (n * Suc k) (drop (n * pr) m)
      = take (n * k) (drop (n * pr) m) @ take n (drop (n * k) (drop (n * pr) m))"
    using take_add [of "n * k" n "drop (n * pr) m"] by (simp add: add.commute [of n])
  also have "drop (n * k) (drop (n * pr) m) = drop p m" by (simp add: p_def algebra_simps)
  also have "take n (drop p m) = blk n ?y" by (simp add: rest')
  also have "take (n * k) (drop (n * pr) m) @ blk n ?y = concat (map (blk n) (?ys @ [?y]))"
    by (simp add: new)
  also have "?ys @ [?y] = ys" using Suc.prems k by (simp flip: take_Suc_conv_app_nth)
  finally have "take (n * Suc k) (drop (n * pr) m) = concat (map (blk n) ys)" .
  moreover have "drop (p + n) m = drop (p + n) ?m"
    by (metis rest' add.commute drop_drop append_eq_conv_conj length_blk)
  ultimately show ?case using ld st m lm unfolding pn by auto
qed

lemma upgrade_rep:
  assumes rep: "intset_rep be is xs" and up: "\<not> in_enc (intset_enc be is) (sint v)"
    and len: "Suc (length xs) < 2 ^ 29"
  shows "\<exists>is'. intsetUpgradeAndAdd be is v = Some is' \<and>
     intset_rep be is' (if sint v < 0 then sint v # xs else xs @ [sint v])"
proof -
  let ?c = "intset_enc be is" and ?L = "length xs" and ?v = "sint v"
  define n where "n = unat (u_intsetValueEncoding v)"
  have c: "?c \<in> {2, 4, 8}" and con: "contents is = concat (map (blk ?c) xs)"
    and xe: "\<forall>x \<in> set xs. in_enc ?c x" and l: "intrev32ifbe be (is_length is) = of_nat ?L"
    and srt: "sorted_wrt (<) xs" using rep by (auto simp: intset_rep_def)
  have n: "n \<in> {2, 4, 8}" "in_enc n ?v" using valueEncoding(1) [of v] valueEncoding(2) [of n v]
    by (auto simp: n_def)
  have cn: "?c < n" using valueEncoding(2) [OF c, of v] up by (simp add: n_def)
  let ?is0 = "is\<lparr>encoding := intrev32ifbe be (ucast (u_intsetValueEncoding v))\<rparr>"
  have e0: "intset_enc be ?is0 = n" by (simp add: n_def)
  define m0 where "m0 = mem_realloc (contents is) (n * Suc ?L)"
  let ?is1 = "?is0\<lparr>contents := m0\<rparr>"
  have rs: "intsetResize be ?is0 (of_nat ?L + 1) = ?is1"
  proof -
    have "of_nat ?L + 1 = (of_nat (Suc ?L) :: u32)" by simp
    moreover have "unat (of_nat (Suc ?L) * intrev32ifbe be (encoding ?is0)) = n * Suc ?L"
      using u32_size [OF len n(1)] by (simp only: enc_of_nat e0)
    ultimately show ?thesis by (simp only: intsetResize_def Let_def) (simp add: m0_def)
  qed
  have lm0: "length m0 = n * Suc ?L" by (simp add: m0_def)
  have tk: "take (?c * ?L) m0 = concat (map (blk ?c) xs)"
  proof -
    have "length (contents is) = ?c * ?L" using con length_cells [of ?c "map (blk ?c) xs"] by simp
    moreover have "?c * ?L \<le> n * Suc ?L" using cn by (intro mult_le_mono) auto
    ultimately show ?thesis using con by (simp add: m0_def mem_realloc_def)
  qed
  define pr where "pr = (if ?v < 0 then 1 else 0 :: nat)"
  obtain m where m: "intsetUpgrade_loop be ?L (int pr) (of_nat ?c) ?is1 = Some (?is1\<lparr>contents := m\<rparr>)"
    and lm: "length m = n * Suc ?L" and new: "take (n * ?L) (drop (n * pr) m) = concat (map (blk n) xs)"
  proof -
    have "intset_enc be ?is1 = n" "length (contents ?is1) = n * Suc ?L" "pr \<in> {0, 1}"
      "take (?c * ?L) (contents ?is1) = concat (map (blk ?c) xs)"
      using e0 lm0 tk by (simp_all add: pr_def)
    from upgrade_loop [OF c n(1) less_imp_le [OF cn] this(1,3,2) le_refl refl this(4) xe] that
    show ?thesis by blast
  qed
  let ?is2 = "?is0\<lparr>contents := m\<rparr>"
  let ?i = "if ?v < 0 then 0 else ?L" and ?ys = "if ?v < 0 then ?v # xs else xs @ [?v]"
  have e2: "intset_enc be ?is2 = n" by (simp add: n_def)
  have "n * ?i + n \<le> length (contents ?is2)" using lm by simp
  from set_raw [OF e2 n(1) this, of v]
  have "u_intsetSet be ?is2 (int ?i) v = Some (?is0\<lparr>contents :=
      take (n * ?i) m @ blk n ?v @ drop (n * ?i + n) m\<rparr>)" by simp
  also have "take (n * ?i) m @ blk n ?v @ drop (n * ?i + n) m = concat (map (blk n) ?ys)"
    using new lm by (auto simp: pr_def)
  finally have st: "u_intsetSet be ?is2 (int ?i) v
      = Some (?is0\<lparr>contents := concat (map (blk n) ?ys)\<rparr>)" .
  have sl: "sint (of_nat ?L :: u32) = int ?L" using sint_len_rep [OF rep] by simp
  let ?is3 = "?is0\<lparr>contents := concat (map (blk n) ?ys), is_length := intrev32ifbe be (of_nat (Suc ?L))\<rparr>"
  have "intsetUpgradeAndAdd be is v = Some ?is3"
  proof -
    have l0: "intrev32ifbe be (is_length ?is0) = of_nat ?L" "intrev32ifbe be (is_length ?is2) = of_nat ?L"
      using l by simp_all
    have pr: "(if ?v < 0 then 1 else 0 :: int) = int pr" by (simp add: pr_def)
    have m': "intsetUpgrade_loop be ?L (int pr) (of_nat ?c) ?is1 = Some ?is2" using m by simp
    have st': "(if int pr \<noteq> 0 then u_intsetSet be ?is2 0 v else u_intsetSet be ?is2 (int ?L) v)
        = Some (?is0\<lparr>contents := concat (map (blk n) ?ys)\<rparr>)"
      using st by (cases "?v < 0") (simp_all add: pr_def)
    show ?thesis
      by (simp only: intsetUpgradeAndAdd_def Let_def l l0 sl rs pr ucast_enc nat_int m'
          bind.bind_lunit st' of_nat_less_0_iff if_False) (simp add: l add.commute)
  qed
  moreover have "intset_rep be ?is3 ?ys"
  proof -
    have "\<forall>x \<in> set xs. in_enc n x" using xe in_enc_mono [OF _ c n(1)] cn by auto
    moreover have "if ?v < 0 then \<forall>x \<in> set xs. ?v < x else \<forall>x \<in> set xs. x < ?v"
      using xe up c by (auto simp: in_enc_def)
    ultimately show ?thesis using srt n len
      by (auto simp: intset_rep_def n_def sorted_wrt_append)
  qed
  ultimately show ?thesis by blast
qed

lemma remove_rep:
  assumes rep: "intset_rep be is xs" and v: "sint v \<in> set xs"
  shows "\<exists>is'. intsetRemove be is v = Some (is', True) \<and> intset_rep be is' (remove1 (sint v) xs)"
proof -
  let ?e = "intset_enc be is" and ?n = "length xs" and ?v = "sint v"
  let ?bl = "map (blk ?e) xs"
  have e: "?e \<in> {2, 4, 8}" and c: "contents is = concat ?bl" and xe: "\<forall>x \<in> set xs. in_enc ?e x"
    and l: "intrev32ifbe be (is_length is) = of_nat ?n" and len: "?n < 2 ^ 29"
    and srt: "sorted_wrt (<) xs" using rep by (auto simp: intset_rep_def)
  obtain p where sr: "intsetSearch be is v = Some (True, of_nat p)" and p: "p < ?n" "xs ! p = ?v"
    using search_rep [OF rep, of v] v by auto
  have enc: "ucast (u_intsetValueEncoding v) \<le> intrev32ifbe be (encoding is)"
    using valueEncoding(2) [OF e, of v] xe v by (simp add: word_le_nat_alt intset_enc_def)
  have n1: "of_nat ?n - 1 = (of_nat (?n - 1) :: u32)" using p by (simp add: of_nat_diff)
  define ml where "ml = take p ?bl @ drop (Suc p) ?bl @ drop (?n - 1) ?bl"
  define fl where "fl = (if p < ?n - 1 then ml else ?bl)"
  have mv: "(if of_nat p < (of_nat (?n - 1) :: u32) then intsetMoveTail be is (of_nat p + 1) (of_nat p)
      else Some is) = Some (is\<lparr>contents := concat fl\<rparr>)"
  proof (cases "p < ?n - 1")
    case True
    have "intsetMoveTail be is (of_nat (Suc p)) (of_nat p) = Some (is\<lparr>contents := concat ml\<rparr>)"
      using moveTail_cells [OF c _ refl e l len, of "Suc p" p] True len by (simp add: ml_def)
    moreover have "of_nat p < (of_nat (?n - 1) :: u32)"
      using True len by (simp add: word_less_nat_alt unat_of_nat del: of_nat_diff)
    ultimately show ?thesis using True by (simp add: add.commute fl_def)
  next
    case False
    then have "p = ?n - 1" using p by linarith
    then have "\<not> of_nat p < (of_nat (?n - 1) :: u32)" by simp
    then show ?thesis using False c by (simp add: fl_def del: of_nat_diff)
  qed
  have tk: "take (?n - 1) fl = take p ?bl @ drop (Suc p) ?bl"
  proof (cases "p < ?n - 1")
    case True
    then show ?thesis by (simp add: fl_def ml_def)
  next
    case False
    then have "?n - 1 = p" using p by linarith
    then show ?thesis using p by (simp add: fl_def)
  qed
  let ?ys = "take p xs @ drop (Suc p) xs"
  let ?is' = "is\<lparr>contents := concat (map (blk ?e) ?ys), is_length := intrev32ifbe be (of_nat (?n - 1))\<rparr>"
  have rs: "intsetResize be (is\<lparr>contents := concat fl\<rparr>) (of_nat (?n - 1))
      = is\<lparr>contents := concat (map (blk ?e) ?ys)\<rparr>"
  proof -
    have fl: "cells ?e fl" "?n - 1 \<le> length fl" using p by (auto simp: fl_def ml_def)
    show ?thesis using resize_cells [of "is\<lparr>contents := concat fl\<rparr>" fl ?e be "?n - 1"] fl e len
      by (simp add: tk [simplified] take_map drop_map del: of_nat_diff)
  qed
  have "intsetRemove be is v = Some (?is', True)"
    by (simp only: intsetRemove_def Let_def enc if_True sr bind.bind_lunit prod.case l n1 mv rs)
  moreover have "remove1 ?v xs = ?ys"
  proof -
    have d: "distinct xs" using srt strict_sorted_iff by auto
    have "xs = take p xs @ ?v # drop (Suc p) xs" using p by (metis id_take_nth_drop)
    moreover have "?v \<notin> set (take p xs)" using d p by (metis calculation disjoint_insert(1) distinct_append list.simps(15))
    ultimately show ?thesis by (metis remove1_append remove1.simps(2))
  qed
  moreover have "intset_rep be ?is' ?ys"
  proof -
    have "sorted_wrt (<) ?ys" using srt p
      by (metis \<open>remove1 ?v xs = ?ys\<close> sorted_wrt_filter distinct_remove1_removeAll removeAll_filter_not_eq strict_sorted_iff)
    then show ?thesis using e xe len p
      by (auto simp: intset_rep_def min_def dest: in_set_takeD in_set_dropD)
  qed
  ultimately show ?thesis by auto
qed

section \<open>Operations on well-formed sets\<close>

lemma intrev32ifbe_0 [simp]: "intrev32ifbe be 0 = 0"
  by (simp add: intrev32ifbe_def intrev32_def bytes_word_def word_bytes_def memrev32_rev numeral_eq_Suc)

lemma rep_new: "intset_rep be (intsetNew be) []"
  by (simp add: intset_rep_def intsetNew_def intset_enc_def intset_enc_defs)

lemma rep_enc_iff:
  assumes "intset_rep be is xs"
  shows "ucast (u_intsetValueEncoding v) \<le> intrev32ifbe be (encoding is)
     \<longleftrightarrow> in_enc (intset_enc be is) (sint v)"
  using assms valueEncoding(2) [of "intset_enc be is" v]
  by (auto simp: intset_rep_def word_le_nat_alt intset_enc_def)

lemma rep_not_enc: "intset_rep be is xs \<Longrightarrow> \<not> in_enc (intset_enc be is) x \<Longrightarrow> x \<notin> set xs"
  by (auto simp: intset_rep_def)

lemma find_rep:
  assumes "intset_rep be is xs"
  shows "intsetFind be is v = Some (sint v \<in> set xs)"
  using search_rep [OF assms, of v] rep_not_enc [OF assms, of "sint v"]
  by (auto simp: intsetFind_def Let_def rep_enc_iff [OF assms])

lemma strict_sorted_list_eqI:
  "sorted_wrt (<) (ys :: int list) \<Longrightarrow> set ys = S \<Longrightarrow> sorted_list_of_set S = ys"
  by (metis strict_sorted_iff sorted_list_of_set.idem_if_sorted_distinct)

lemma add_rep:
  assumes rep: "intset_rep be is xs" and len: "Suc (length xs) < 2 ^ 29"
  shows "\<exists>is' ys. intsetAdd be is v = Some (is', sint v \<notin> set xs) \<and>
     intset_rep be is' ys \<and> set ys = insert (sint v) (set xs)"
proof (cases "in_enc (intset_enc be is) (sint v)")
  case True
  obtain p where s: "intsetSearch be is v = Some (sint v \<in> set xs, of_nat p)"
    and p: "if sint v \<in> set xs then p < length xs \<and> xs ! p = sint v else split_at (sint v) xs p"
    using search_rep [OF rep] by blast
  show ?thesis
  proof (cases "sint v \<in> set xs")
    case in_: True
    have "\<not> intrev32ifbe be (encoding is) < ucast (u_intsetValueEncoding v)"
      using rep_enc_iff [OF rep, of v] True by (simp add: not_less)
    then have "intsetAdd be is v = Some (is, False)"
      using s in_ by (simp add: intsetAdd_def Let_def)
    then show ?thesis using rep in_ by (intro exI [of _ "is"] exI [of _ xs]) auto
  next
    case False
    with p have sp: "split_at (sint v) xs p" by simp
    have srt: "sorted_wrt (<) xs" using rep by (simp add: intset_rep_def)
    from add_no_upgrade [OF rep True len False sp] s False obtain is' where
      "intsetAdd be is v = Some (is', True)" "intset_rep be is' (take p xs @ sint v # drop p xs)"
      by auto
    then show ?thesis using split_at_insert(2) [OF srt sp] False
      by (intro exI [of _ is'] exI [of _ "take p xs @ sint v # drop p xs"]) simp
  qed
next
  case False
  then have "intrev32ifbe be (encoding is) < ucast (u_intsetValueEncoding v)"
    using rep_enc_iff [OF rep, of v] by (simp add: not_le [symmetric])
  moreover obtain is' where "intsetUpgradeAndAdd be is v = Some is'"
    "intset_rep be is' (if sint v < 0 then sint v # xs else xs @ [sint v])"
    using upgrade_rep [OF rep False len] by blast
  ultimately show ?thesis using rep_not_enc [OF rep False]
    by (intro exI [of _ is'] exI [of _ "if sint v < 0 then sint v # xs else xs @ [sint v]"])
       (simp add: intsetAdd_def Let_def)
qed

section \<open>Byte order independence\<close>

text \<open>
  \<open>host_swap\<close> turns the in-memory header of a little endian host into that of a big endian host
  holding the same bytes.
\<close>

definition host_swap :: "intset \<Rightarrow> intset" where
  "host_swap is = is\<lparr>encoding := intrev32 True (encoding is), is_length := intrev32 True (is_length is)\<rparr>"

lemma host_swap_fields [simp]:
  "contents (host_swap is) = contents is"
  "intrev32ifbe True (encoding (host_swap is)) = intrev32ifbe False (encoding is)"
  "intrev32ifbe True (is_length (host_swap is)) = intrev32ifbe False (is_length is)"
  "host_swap (is\<lparr>contents := c\<rparr>) = (host_swap is)\<lparr>contents := c\<rparr>"
  "(host_swap is)\<lparr>is_length := intrev32ifbe True l\<rparr> = host_swap (is\<lparr>is_length := intrev32ifbe False l\<rparr>)"
  "(host_swap is)\<lparr>encoding := intrev32ifbe True l\<rparr> = host_swap (is\<lparr>encoding := intrev32ifbe False l\<rparr>)"
  by (simp_all add: host_swap_def intrev32ifbe_def intrev32_twice)

lemma those_length: "those xs = Some ys \<Longrightarrow> length ys = length xs"
  by (induction xs arbitrary: ys) (auto split: option.splits)

lemma mem_load_length: "mem_load m off n = Some bs \<Longrightarrow> length bs = n"
  by (auto simp: mem_load_def split: if_splits dest: those_length)

lemma swap_getEncoded: "u_intsetGetEncoded True (host_swap is) pos enc = u_intsetGetEncoded False is pos enc"
  by (auto simp: u_intsetGetEncoded_def loaded_le dest!: mem_load_length intro!: Option.bind_cong)

lemma swap_get: "u_intsetGet True (host_swap is) pos = u_intsetGet False is pos"
  by (simp add: u_intsetGet_def swap_getEncoded)

lemma map_option_bind: "map_option f (Option.bind x g) = Option.bind x (\<lambda>a. map_option f (g a))"
  by (cases x) auto

lemma swap_set: "u_intsetSet True (host_swap is) pos v = map_option host_swap (u_intsetSet False is pos v)"
  by (simp add: u_intsetSet_def Let_def codec_simps map_option_bind)

lemma option_eqI: "(\<And>r. x = Some r \<longleftrightarrow> y = Some r) \<Longrightarrow> x = y"
  by (cases x; cases y) auto

lemma search_loop_cong:
  assumes "intsetSearch_loop be is v mn mx mid cur = Some r"
    and "\<And>pos. u_intsetGet be is pos = u_intsetGet be' is' pos"
  shows "intsetSearch_loop be' is' v mn mx mid cur = Some r"
proof -
  have "(\<forall>pos. u_intsetGet be is pos = u_intsetGet be' is' pos) \<longrightarrow>
      intsetSearch_loop be' is' v mn mx mid cur = Some r"
  proof (rule intsetSearch_loop.raw_induct [where P = "\<lambda>be is v mn mx mid cur r.
      (\<forall>pos. u_intsetGet be is pos = u_intsetGet be' is' pos) \<longrightarrow>
      intsetSearch_loop be' is' v mn mx mid cur = Some r", OF _ assms(1)], intro impI)
    fix f be "is" v mn mx mid cur r
    assume IH: "\<And>be is v mn mx mid cur r. f be is v mn mx mid cur = Some r \<Longrightarrow>
        (\<forall>pos. u_intsetGet be is pos = u_intsetGet be' is' pos) \<longrightarrow>
        intsetSearch_loop be' is' v mn mx mid cur = Some r"
      and eq: "(if mx \<ge> mn then
        let mid = uint (drop_bit 1 (word_of_int mn + word_of_int mx :: u32)) in
        do { cur \<leftarrow> u_intsetGet be is mid;
             if sint v > sint cur then f be is v (mid + 1) mx mid cur
             else if sint v < sint cur then f be is v mn (mid - 1) mid cur
             else Some (mn, mid, cur) }
      else Some (mn, mid, cur)) = Some r"
      and get: "\<forall>pos. u_intsetGet be is pos = u_intsetGet be' is' pos"
    show "intsetSearch_loop be' is' v mn mx mid cur = Some r"
    proof (cases "mn \<le> mx")
      case True
      define M where "M = uint (drop_bit 1 (word_of_int mn + word_of_int mx :: u32))"
      from eq True obtain c where c: "u_intsetGet be is M = Some c" and
        e: "(if sint v > sint c then f be is v (M + 1) mx M c
             else if sint v < sint c then f be is v mn (M - 1) M c else Some (mn, M, c)) = Some r"
        by (auto simp only: Let_def M_def [symmetric] if_True bind_eq_Some_conv)
      have c': "u_intsetGet be' is' M = Some c" using c get by simp
      have "(if sint v > sint c then intsetSearch_loop be' is' v (M + 1) mx M c
             else if sint v < sint c then intsetSearch_loop be' is' v mn (M - 1) M c
             else Some (mn, M, c)) = Some r"
        using e IH [of be "is" v "M + 1" mx M c r] IH [of be "is" v mn "M - 1" M c r] get
        by (simp split: if_splits)
      then show ?thesis using True
        by (subst intsetSearch_loop.simps)
           (simp only: Let_def M_def [symmetric] if_True c' bind.bind_lunit)
    next
      case False
      then show ?thesis using eq by (subst intsetSearch_loop.simps) simp
    qed
  qed
  then show ?thesis using assms(2) by blast
qed

lemma swap_search: "intsetSearch True (host_swap is) v = intsetSearch False is v"
proof -
  have "intsetSearch_loop True (host_swap is) v mn mx mid cur = intsetSearch_loop False is v mn mx mid cur"
    (is "?x = ?y") for mn mx mid cur
  proof (rule option_eqI)
    fix r
    show "?x = Some r \<longleftrightarrow> ?y = Some r"
      using search_loop_cong [of True "host_swap is" v mn mx mid cur r False "is"]
        search_loop_cong [of False "is" v mn mx mid cur r True "host_swap is"]
      by (auto simp: swap_get)
  qed
  then show ?thesis by (simp add: intsetSearch_def Let_def swap_get cong: if_cong)
qed

lemma swap_resize: "intsetResize True (host_swap is) len = host_swap (intsetResize False is len)"
  by (simp add: intsetResize_def Let_def)

lemma swap_moveTail:
  "intsetMoveTail True (host_swap is) f t = map_option host_swap (intsetMoveTail False is f t)"
  by (simp add: intsetMoveTail_def Let_def map_option_bind)

lemma swap_upgrade_loop:
  "intsetUpgrade_loop True k pr c (host_swap is) = map_option host_swap (intsetUpgrade_loop False k pr c is)"
proof (induction k arbitrary: "is")
  case (Suc k)
  have "Option.bind (map_option host_swap x) (intsetUpgrade_loop True k pr c)
      = map_option host_swap (Option.bind x (intsetUpgrade_loop False k pr c))" for x
    using Suc by (cases x) auto
  then show ?case by (simp add: swap_getEncoded swap_set map_option_bind)
qed simp

lemma swap_upgrade:
  "intsetUpgradeAndAdd True (host_swap is) v = map_option host_swap (intsetUpgradeAndAdd False is v)"
  by (simp add: intsetUpgradeAndAdd_def Let_def swap_resize swap_upgrade_loop swap_set
      map_option_bind bind_map_option comp_def cong: if_cong)

lemmas swap_simps = swap_search swap_resize swap_moveTail swap_upgrade swap_set
  map_option_bind bind_map_option comp_def

lemma swap_add:
  "intsetAdd True (host_swap is) v = map_option (map_prod host_swap id) (intsetAdd False is v)"
proof -
  have tail: "(do { is \<leftarrow> (if c then intsetMoveTail True (host_swap i) p q else Some (host_swap i));
         is \<leftarrow> u_intsetSet True is pos v;
         Some (is\<lparr>is_length := intrev32ifbe True (intrev32ifbe True (is_length is) + 1)\<rparr>, True) })
    = map_option (map_prod host_swap id)
      (do { is \<leftarrow> (if c then intsetMoveTail False i p q else Some i);
            is \<leftarrow> u_intsetSet False is pos v;
            Some (is\<lparr>is_length := intrev32ifbe False (intrev32ifbe False (is_length is) + 1)\<rparr>, True) })"
    for c i p q pos by (cases c) (simp_all add: swap_simps)
  show ?thesis
  proof (cases "ucast (u_intsetValueEncoding v) > intrev32ifbe False (encoding is)")
    case True
    then show ?thesis by (simp add: intsetAdd_def Let_def swap_simps)
  next
    case False
    show ?thesis
    proof (cases "intsetSearch False is v")
      case None
      then show ?thesis using False by (simp add: intsetAdd_def Let_def swap_search)
    next
      case (Some r)
      obtain found pos where r: "r = (found, pos)" by (cases r)
      show ?thesis
      proof (cases found)
        case True
        then show ?thesis using False Some r by (simp add: intsetAdd_def Let_def swap_search)
      next
        case nf: False
        show ?thesis
          by (simp only: intsetAdd_def Let_def host_swap_fields False if_False swap_search Some r nf
              bind.bind_lunit prod.case swap_resize tail)
      qed
    qed
  qed
qed

section \<open>The set contract\<close>

definition intset_set :: "bool \<Rightarrow> intset \<Rightarrow> int set \<Rightarrow> bool" where
  "intset_set be is A \<longleftrightarrow> (\<exists>xs. intset_rep be is xs \<and> set xs = A)"

lemma rep_length: "intset_rep be is xs \<Longrightarrow> length xs = card (set xs)"
  by (auto simp: intset_rep_def strict_sorted_iff distinct_card)

interpretation iset: set_impl "intsetNew be" "intsetAdd be" "intsetRemove be" "intsetFind be"
  "intset_set be" sint "2 ^ 29 - 1"
proof (unfold_locales, goal_cases)
  case 1
  then show ?case using rep_new by (force simp: intset_set_def)
next
  case (2 s A)
  then show ?case by (auto simp: intset_set_def)
next
  case (3 s A v)
  then obtain xs where xs: "intset_rep be s xs" "set xs = A" by (auto simp: intset_set_def)
  with 3 rep_length [OF xs(1)] have "Suc (length xs) < 2 ^ 29" by simp
  from add_rep [OF xs(1) this, of v] xs(2) show ?case by (auto simp: intset_set_def)
next
  case (4 s A v)
  then obtain xs where xs: "intset_rep be s xs" "set xs = A" by (auto simp: intset_set_def)
  show ?case
  proof (cases "sint v \<in> set xs")
    case True
    have "distinct xs" using xs(1) by (auto simp: intset_rep_def strict_sorted_iff)
    then have "set (remove1 (sint v) xs) = A - {sint v}" using xs(2) by simp
    then have "intset_set be is' (A - {sint v})" if "intset_rep be is' (remove1 (sint v) xs)" for is'
      using that by (auto simp: intset_set_def)
    with remove_rep [OF xs(1) True] True xs(2) show ?thesis by auto
  next
    case False
    from search_rep [OF xs(1), of v] False
    have "intsetRemove be s v = Some (s, False)" by (auto simp: intsetRemove_def Let_def)
    with False xs show ?thesis by (auto simp: intset_set_def)
  qed
next
  case (5 s A v)
  then show ?case using find_rep by (auto simp: intset_set_def)
qed

section \<open>The 32 bit size computation\<close>

text \<open>With \<open>2^29\<close> eight byte elements the byte size wraps to zero.\<close>

lemma resize_wraps:
  assumes "intset_enc be is = 8" "n = 2 ^ 29 - 1"
  shows "intsetResize be is (of_nat n + 1) = is\<lparr>contents := []\<rparr>"
proof -
  have "intrev32ifbe be (encoding is) = 8" using assms(1) enc_of_nat [of be "is"] by simp
  then have "(of_nat n + 1) * intrev32ifbe be (encoding is) = (0 :: u32)" by (simp add: assms(2))
  then show ?thesis by (simp add: intsetResize_def Let_def mem_realloc_def)
qed

lemma add_wraps:
  assumes rep: "intset_rep be is xs" and enc: "intset_enc be is = 8"
    and n: "length xs = 2 ^ 29 - 1" and new: "sint v \<notin> set xs"
  shows "intsetAdd be is v = None"
proof -
  let ?n = "length xs"
  have l: "intrev32ifbe be (is_length is) = of_nat ?n" using rep by (auto simp: intset_rep_def)
  have noup: "\<not> ucast (u_intsetValueEncoding v) > intrev32ifbe be (encoding is)"
    using rep_enc_iff [OF rep, of v] enc by (simp add: not_less)
  obtain p where s: "intsetSearch be is v = Some (False, of_nat p)" and p: "p \<le> ?n"
    using search_rep [OF rep, of v] new by (auto simp: split_at_def)
  let ?is1 = "is\<lparr>contents := []\<rparr>"
  note rs = resize_wraps [OF enc n]
  have u: "sint (of_nat p :: u32) = int p" "unat (of_nat p :: u32) = p"
    using sint_len_rep [OF rep p] by auto
  have "intsetMoveTail be ?is1 (of_nat p) (of_nat p + 1) = None" if "of_nat p < (of_nat ?n :: u32)"
  proof -
    have "p < ?n" using that p u n by (simp add: word_less_nat_alt unat_of_nat)
    moreover have "unat ((of_nat ?n - of_nat p :: u32) * of_nat 8) = 8 * (?n - p)"
      using u32_size [of "?n - p" 8] p n by (simp add: of_nat_diff)
    ultimately show ?thesis using enc l
      by (simp add: intsetMoveTail_def Let_def intset_enc_def [symmetric] intset_enc_defs mem_move_def)
  qed
  moreover have "u_intsetSet be ?is1 (sint (of_nat p :: u32)) v = None"
    using u enc by (simp add: u_intsetSet_def Let_def intset_enc_def [symmetric] intset_enc_defs mem_store_def
        codec_simps)
  moreover have "intrev32ifbe be (is_length ?is1) = of_nat ?n" using l by simp
  ultimately show ?thesis
    by (simp only: intsetAdd_def Let_def noup if_False s bind.bind_lunit prod.case l rs)
       (simp split: if_splits)
qed

lemma ex_rep_of_length:
  assumes "n < 2 ^ 29"
  shows "\<exists>is xs. intset_rep be is xs \<and> intset_enc be is = 8 \<and> length xs = n \<and> sint (- 1 :: i64) \<notin> set xs"
proof -
  let ?xs = "map int [0..<n]"
  let ?is = "\<lparr>encoding = intrev32ifbe be 8, is_length = intrev32ifbe be (of_nat n),
     contents = concat (map (blk 8) ?xs)\<rparr>"
  have "in_enc 8 x" if "x \<in> set ?xs" for x using that assms by (auto simp: in_enc_def)
  then have "intset_rep be ?is ?xs" using assms
    by (auto simp: intset_rep_def intset_enc_def sorted_wrt_map simp del: map_map)
  moreover have "intset_enc be ?is = 8" by (simp add: intset_enc_def)
  moreover have "length ?xs = n" "sint (- 1 :: i64) \<notin> set ?xs" by auto
  ultimately show ?thesis by blast
qed

section \<open>Properties\<close>

lemma rep_unique_list:
  "intset_rep be is xs \<Longrightarrow> set xs = A \<Longrightarrow> intset_rep be is (sorted_list_of_set A)"
  using strict_sorted_list_eqI [of xs A] by (simp add: intset_rep_def)

text \<open>C23: adding a value to a well-formed intset with room for one more element neither leaves the
  buffer nor fails to return; the flag tells whether the value was absent, and the result is the
  well-formed intset of the old elements and the value, encoded wide enough for all of them.\<close>

theorem intsetAdd_correct:
  assumes "intset_rep be is xs" and "Suc (length xs) < 2 ^ 29"
  shows "\<exists>is'. intsetAdd be is v = Some (is', sint v \<notin> set xs) \<and>
     intset_rep be is' (sorted_list_of_set (insert (sint v) (set xs)))"
proof -
  obtain is' ys where "intsetAdd be is v = Some (is', sint v \<notin> set xs)" "intset_rep be is' ys"
    "set ys = insert (sint v) (set xs)" using add_rep [OF assms] by blast
  then show ?thesis using rep_unique_list by blast
qed

theorem intsetAdd_correct_witness:
  "\<exists>is'. intsetAdd True (intsetNew True) (- 70000) = Some (is', True) \<and> intset_rep True is' [- 70000]"
  using intsetAdd_correct [OF rep_new, of True "- 70000"] by simp

text \<open>C24: any sequence of additions and removals starting from the empty intset returns, stays in
  bounds, reports for each step whether the set changed, and leaves an intset whose membership test
  agrees with the mathematical set, as long as there are fewer than \<open>2^29\<close> steps.\<close>

theorem intset_ops_refine_set:
  assumes "length ops < 2 ^ 29"
  shows "\<exists>is. run_set_ops (intsetAdd be) (intsetRemove be) (intsetNew be) ops
        = Some (is, snd (spec_set_ops {} (map (map_set_op sint) ops))) \<and>
     (\<forall>v. intsetFind be is v = Some (sint v \<in> fst (spec_set_ops {} (map (map_set_op sint) ops))))"
  by (rule iset.run_new_isin) (use assms in simp)

theorem intset_ops_refine_set_witness:
  "\<exists>is. run_set_ops (intsetAdd False) (intsetRemove False) (intsetNew False)
        [SAdd 5, SAdd 70000, SAdd 5, SRem 5, SAdd (- 1)] = Some (is, [True, True, False, True, True]) \<and>
     (\<forall>v. intsetFind False is v = Some (sint v \<in> {70000, - 1}))"
  using intset_ops_refine_set
    [of "[SAdd 5, SAdd 70000, SAdd 5, SRem 5, SAdd (- 1)] :: i64 set_op list" False]
  by (simp add: insert_commute)

text \<open>C25: the intset is independent of the host byte order: on a big endian host \<open>intsetAdd\<close> applied
  to the same stored bytes produces the same stored bytes, element for element, as on a little
  endian host, or fails in both.\<close>

theorem intsetAdd_host_independent:
  "intsetAdd True (host_swap is) v = map_option (map_prod host_swap id) (intsetAdd False is v)"
  by (rule swap_add)

text \<open>C26: the element count is not bounded by \<open>intsetAdd\<close> and \<open>intsetResize\<close> computes the byte size in
  32 bits: adding the \<open>2^29\<close>-th element to an intset of eight byte elements allocates an empty array
  and then accesses memory outside of it.\<close>

theorem intsetAdd_size_overflow:
  assumes "intset_rep be is xs" and "intset_enc be is = 8" and "length xs = 2 ^ 29 - 1"
    and "sint v \<notin> set xs"
  shows "intsetAdd be is v = None"
  using assms by (rule add_wraps)

theorem intsetAdd_size_overflow_witness:
  "\<exists>is xs. intset_rep False is xs \<and> length xs = 2 ^ 29 - 1 \<and> intsetAdd False is (- 1) = None"
proof -
  have "(2 :: nat) ^ 29 - 1 < 2 ^ 29" by simp
  from ex_rep_of_length [OF this, of False] obtain "is" xs where
    r: "intset_rep False is xs" "intset_enc False is = 8" "length xs = 2 ^ 29 - 1"
      "sint (- 1 :: i64) \<notin> set xs" by blast
  from intsetAdd_size_overflow [OF r] r(1,3) show ?thesis by blast
qed

end
