(* ===== verification/State.thy ===== *)
theory State
  imports Intset
begin

text \<open>The data of the server: objects, databases, clients, the command table entry and the server
  structure (\<open>server.h\<close>).  A pointer to a client is its number in \<open>clients\<close>, a pointer to a database
  its index in \<open>dbs\<close>, an absent pointer \<open>None\<close>.  Flag words are sets of flags.  A hash table is a
  map; the order in which an iterator visits its keys is the field \<open>iter_order\<close>.  What the process
  reads from its environment (the clocks, \<open>rand()\<close>, the allocator's usable sizes) are fields too.
  Statistics and reference counts that no reply and no branch depends on are left out; counters
  are unbounded.\<close>

section \<open>Strings and objects\<close>

definition lit :: "string \<Rightarrow> bytes" where
  "lit s = map of_char s"

definition crlf :: bytes where "crlf = [13, 10]"

text \<open>Type and encoding of an object are given by the constructor of what \<open>ptr\<close> points to.\<close>

datatype optr =
    Str_RAW bytes | Str_EMBSTR bytes | Str_INT i64
  | List_QUICKLIST "bytes list"
  | Set_INTSET intset | Set_HT "bytes set"
  | Zset_ZIPLIST "(bytes \<times> u64) list" | Zset_SKIPLIST "(bytes \<times> u64) list"
  | Hash_ZIPLIST "(bytes \<times> bytes) list" | Hash_HT "bytes \<rightharpoonup> bytes"
  | Stream_RAX "(u64 \<times> u64 \<times> (bytes \<times> bytes) list) list"
  | Module_VAL string bytes

record robj =
  ptr :: optr
  lru :: nat

datatype objtype = OBJ_STRING | OBJ_LIST | OBJ_SET | OBJ_ZSET | OBJ_HASH | OBJ_STREAM | OBJ_MODULE

definition otype :: "robj \<Rightarrow> objtype" where
  "otype ob = (case ptr ob of
     Str_RAW s \<Rightarrow> OBJ_STRING | Str_EMBSTR s \<Rightarrow> OBJ_STRING | Str_INT n \<Rightarrow> OBJ_STRING
   | List_QUICKLIST l \<Rightarrow> OBJ_LIST
   | Set_INTSET i \<Rightarrow> OBJ_SET | Set_HT s \<Rightarrow> OBJ_SET
   | Zset_ZIPLIST z \<Rightarrow> OBJ_ZSET | Zset_SKIPLIST z \<Rightarrow> OBJ_ZSET
   | Hash_ZIPLIST z \<Rightarrow> OBJ_HASH | Hash_HT m \<Rightarrow> OBJ_HASH
   | Stream_RAX x \<Rightarrow> OBJ_STREAM | Module_VAL t v \<Rightarrow> OBJ_MODULE)"

section \<open>Flags\<close>

datatype cflag = CLIENT_SLAVE | CLIENT_MASTER | CLIENT_MONITOR | CLIENT_MULTI | CLIENT_BLOCKED
  | CLIENT_DIRTY_CAS | CLIENT_CLOSE_AFTER_REPLY | CLIENT_UNBLOCKED | CLIENT_LUA | CLIENT_ASKING
  | CLIENT_CLOSE_ASAP | CLIENT_UNIX_SOCKET | CLIENT_DIRTY_EXEC | CLIENT_MASTER_FORCE_REPLY
  | CLIENT_FORCE_AOF | CLIENT_FORCE_REPL | CLIENT_PRE_PSYNC | CLIENT_READONLY | CLIENT_PUBSUB
  | CLIENT_PREVENT_AOF_PROP | CLIENT_PREVENT_REPL_PROP | CLIENT_PENDING_WRITE | CLIENT_REPLY_OFF
  | CLIENT_REPLY_SKIP_NEXT | CLIENT_REPLY_SKIP | CLIENT_LUA_DEBUG | CLIENT_LUA_DEBUG_SYNC
  | CLIENT_MODULE | CLIENT_PROTECTED

datatype cmdflag = CMD_WRITE | CMD_READONLY | CMD_DENYOOM | CMD_MODULE | CMD_ADMIN | CMD_PUBSUB
  | CMD_NOSCRIPT | CMD_RANDOM | CMD_SORT_FOR_SCRIPT | CMD_LOADING | CMD_STALE | CMD_SKIP_MONITOR
  | CMD_ASKING | CMD_FAST | CMD_MODULE_GETKEYS | CMD_MODULE_NO_CLUSTER

datatype nflag = NOTIFY_KEYSPACE | NOTIFY_KEYEVENT | NOTIFY_GENERIC | NOTIFY_STRING | NOTIFY_LIST
  | NOTIFY_SET | NOTIFY_HASH | NOTIFY_ZSET | NOTIFY_EXPIRED | NOTIFY_EVICTED | NOTIFY_STREAM

datatype mflag = MAXMEMORY_FLAG_LRU | MAXMEMORY_FLAG_LFU | MAXMEMORY_FLAG_ALLKEYS

datatype pflag = PROPAGATE_AOF | PROPAGATE_REPL

datatype callflag = CMD_CALL_SLOWLOG | CMD_CALL_STATS | CMD_CALL_PROPAGATE_AOF | CMD_CALL_PROPAGATE_REPL

datatype client_type = CLIENT_TYPE_NORMAL | CLIENT_TYPE_SLAVE | CLIENT_TYPE_PUBSUB | CLIENT_TYPE_MASTER

datatype replstate = REPL_STATE_NONE | REPL_STATE_CONNECT | REPL_STATE_CONNECTING | REPL_STATE_RECEIVE_PONG
  | REPL_STATE_SEND_AUTH | REPL_STATE_RECEIVE_AUTH | REPL_STATE_SEND_PORT | REPL_STATE_RECEIVE_PORT
  | REPL_STATE_SEND_IP | REPL_STATE_RECEIVE_IP | REPL_STATE_SEND_CAPA | REPL_STATE_RECEIVE_CAPA
  | REPL_STATE_SEND_PSYNC | REPL_STATE_RECEIVE_PSYNC | REPL_STATE_TRANSFER | REPL_STATE_CONNECTED
  | SLAVE_STATE_WAIT_BGSAVE_START | SLAVE_STATE_WAIT_BGSAVE_END | SLAVE_STATE_SEND_BULK | SLAVE_STATE_ONLINE

datatype reqtype = PROTO_REQ_NONE | PROTO_REQ_INLINE | PROTO_REQ_MULTIBULK

datatype aofstate = AOF_OFF | AOF_ON | AOF_WAIT_REWRITE

datatype disk_error = DISK_ERROR_TYPE_NONE | DISK_ERROR_TYPE_AOF | DISK_ERROR_TYPE_RDB

section \<open>Commands\<close>

text \<open>\<open>proc\<close> is the name of the C function that implements the command.\<close>

record redisCommand =
  cm_name :: bytes
  proc :: string
  arity :: int
  cm_flags :: "cmdflag set"
  getkeys_proc :: "string option"
  firstkey :: int
  lastkey :: int
  keystep :: int

record multiCmd =
  mc_argv :: "bytes list"
  mc_cmd :: redisCommand

record redisOp =
  op_cmd :: redisCommand
  op_dbid :: int
  op_argv :: "bytes list"
  op_target :: "pflag set"

section \<open>Databases, clients, the server\<close>

record redisDb =
  d_dict :: "bytes \<rightharpoonup> robj"
  d_expires :: "bytes \<rightharpoonup> i64"
  d_blocking_keys :: "bytes \<rightharpoonup> nat list"
  d_ready_keys :: "bytes set"
  d_watched_keys :: "bytes \<rightharpoonup> nat list"

record clientReplyBlock =
  rb_size :: nat
  rb_buf :: bytes

text \<open>The client structure without the fields in which its next request is read, which are the record \<open>clientInput\<close> of
  \<open>Protocol\<close>; no command looks at them.  An element of \<open>c_reply\<close> that is \<open>None\<close> is the placeholder of a length that is not known yet.\<close>

record client =
  c_fd :: int
  c_db :: nat
  c_argv :: "bytes list"
  c_cmd :: "redisCommand option"
  c_lastcmd :: "redisCommand option"
  c_flags :: "cflag set"
  c_commands :: "multiCmd list"
  c_mstate_cmd_flags :: "cmdflag set"
  c_watched_keys :: "(nat \<times> bytes) list"
  c_pubsub_channels :: "bytes set"
  c_pubsub_patterns :: "bytes list"
  c_authenticated :: bool
  c_replstate :: replstate
  c_repl_put_online_on_ack :: bool
  c_woff :: int
  c_peerid :: bytes
  c_name :: "bytes option"
  c_buf :: bytes
  c_reply :: "clientReplyBlock option list"
  c_reply_bytes :: nat
  c_obuf_soft_limit_reached_time :: int

record slowlogEntry =
  se_id :: nat
  se_time :: int
  se_duration :: int
  se_argv :: "bytes list"
  se_peerid :: bytes
  se_cname :: bytes

record latencyTimeSeries =
  ts_idx :: nat
  ts_max :: u32
  ts_samples :: "(u32 \<times> u32) list"

record redisServer =
  dbs :: "redisDb list"
  clients :: "nat \<Rightarrow> client"
  client_list :: "nat list"
  slaves :: "nat list"
  monitors :: "nat list"
  clients_pending_write :: "nat list"
  clients_to_close :: "nat list"
  current_client :: "nat option"
  sv_master :: "nat option"
  masterhost :: "bytes option"
  repl_slave_ro :: bool
  repl_state :: replstate
  repl_serve_stale_data :: bool
  repl_min_slaves_to_write :: nat
  repl_min_slaves_max_lag :: nat
  repl_good_slaves_count :: nat
  loading :: bool
  lua_caller :: "nat option"
  lua_time_start :: i64
  lua_timedout :: bool
  mstime :: i64
  unixtime :: int
  timeofday :: "nat \<times> nat"
  cmd_duration :: int
  rand_seq :: "nat \<Rightarrow> nat"
  usable :: "nat \<Rightarrow> nat"
  iter_order :: "bytes set \<Rightarrow> bytes list"
  dirty :: int
  stat_keyspace_hits :: nat
  stat_keyspace_misses :: nat
  stat_expiredkeys :: nat
  stat_numcommands :: nat
  cmd_stats :: "bytes \<Rightarrow> int \<times> nat"
  lazyfree_lazy_expire :: bool
  lazyfree_lazy_server_del :: bool
  cluster_enabled :: bool
  slots_to_keys :: "(nat \<times> bytes) set"
  slots_keys_count :: "nat \<Rightarrow> int"
  maxmemory :: nat
  maxmemory_policy :: "mflag set"
  lfu_log_factor :: nat
  lfu_decay_time :: nat
  hz :: nat
  lruclock :: nat
  set_max_intset_entries :: nat
  hash_max_ziplist_entries :: nat
  hash_max_ziplist_value :: nat
  rdb_child_pid :: int
  aof_child_pid :: int
  pubsub_channels :: "bytes \<rightharpoonup> nat list"
  pubsub_patterns :: "(nat \<times> bytes) list"
  notify_keyspace_events :: "nflag set"
  ready_keys :: "(nat \<times> bytes) list"
  aof_state :: aofstate
  aof_selected_db :: int
  aof_buf :: bytes
  aof_rewrite_buf_blocks :: "bytes list"
  repl_backlog :: "mem option"
  repl_backlog_size :: nat
  repl_backlog_idx :: nat
  repl_backlog_histlen :: nat
  repl_backlog_off :: int
  master_repl_offset :: int
  slaveseldb :: int
  also_propagate :: "redisOp list"
  slaveKeysWithExpire :: "(bytes \<rightharpoonup> u64) option"
  requirepass :: "bytes option"
  saveparamslen :: nat
  lastbgsave_status :: bool
  aof_last_write_err :: bytes
  client_obuf_limits :: "client_type \<Rightarrow> nat \<times> nat \<times> int"
  commands :: "bytes \<rightharpoonup> redisCommand"
  orig_commands :: "bytes \<rightharpoonup> redisCommand"
  slowlog :: "slowlogEntry list"
  slowlog_entry_id :: nat
  slowlog_log_slower_than :: int
  slowlog_max_len :: nat
  latency_monitor_threshold :: int
  latency_events :: "string \<rightharpoonup> latencyTimeSeries"
  stop_writes_on_bgsave_err :: bool
  aof_last_write_status :: bool
  unixsocket :: bytes
  proto_max_bulk_len :: int

text \<open>The state \<open>initServerConfig\<close> and \<open>initServer\<close> set up, for \<open>n\<close> databases and a given command table;
  the clocks stand at \<open>t\<close> seconds.\<close>

definition empty_db :: redisDb where
  "empty_db = \<lparr>d_dict = Map.empty, d_expires = Map.empty, d_blocking_keys = Map.empty, d_ready_keys = {},
     d_watched_keys = Map.empty\<rparr>"

definition init_server :: "nat \<Rightarrow> (nat \<Rightarrow> client) \<Rightarrow> nat list \<Rightarrow> (bytes set \<Rightarrow> bytes list) \<Rightarrow> (bytes \<rightharpoonup> redisCommand) \<Rightarrow> nat \<Rightarrow> redisServer" where
  "init_server n cls cids order cmds t =
   \<lparr>dbs = replicate n empty_db, clients = cls, client_list = cids, slaves = [], monitors = [],
    clients_pending_write = [], clients_to_close = [], current_client = None, sv_master = None,
    masterhost = None, repl_slave_ro = True, repl_state = REPL_STATE_NONE, repl_serve_stale_data = True,
    repl_min_slaves_to_write = 0, repl_min_slaves_max_lag = 10, repl_good_slaves_count = 0, loading = False,
    lua_caller = None, lua_time_start = 0, lua_timedout = False, mstime = of_nat (1000 * t), unixtime = int t,
    timeofday = (t, 0), cmd_duration = 0, rand_seq = (\<lambda>_. 0), usable = id, iter_order = order, dirty = 0,
    stat_keyspace_hits = 0, stat_keyspace_misses = 0, stat_expiredkeys = 0, stat_numcommands = 0,
    cmd_stats = (\<lambda>_. (0, 0)), lazyfree_lazy_expire = False, lazyfree_lazy_server_del = False,
    cluster_enabled = False, slots_to_keys = {}, slots_keys_count = (\<lambda>_. 0), maxmemory = 0,
    maxmemory_policy = {}, lfu_log_factor = 10, lfu_decay_time = 1, hz = 10, lruclock = t,
    set_max_intset_entries = 512, hash_max_ziplist_entries = 512, hash_max_ziplist_value = 64,
    rdb_child_pid = - 1, aof_child_pid = - 1, pubsub_channels = Map.empty, pubsub_patterns = [],
    notify_keyspace_events = {}, ready_keys = [], aof_state = AOF_OFF, aof_selected_db = - 1, aof_buf = [],
    aof_rewrite_buf_blocks = [], repl_backlog = None, repl_backlog_size = 1024 * 1024, repl_backlog_idx = 0,
    repl_backlog_histlen = 0, repl_backlog_off = 0, master_repl_offset = 0, slaveseldb = - 1,
    also_propagate = [], slaveKeysWithExpire = None, requirepass = None, saveparamslen = 3,
    lastbgsave_status = True, aof_last_write_err = [],
    client_obuf_limits = (\<lambda>ty. case ty of CLIENT_TYPE_SLAVE \<Rightarrow> (268435456, 67108864, 60)
      | CLIENT_TYPE_PUBSUB \<Rightarrow> (33554432, 8388608, 60) | _ \<Rightarrow> (0, 0, 0)),
    commands = cmds, orig_commands = cmds, slowlog = [], slowlog_entry_id = 0,
    slowlog_log_slower_than = 10000, slowlog_max_len = 128, latency_monitor_threshold = 0,
    latency_events = Map.empty, stop_writes_on_bgsave_err = True, aof_last_write_status = True,
    unixsocket = [], proto_max_bulk_len = 512 * 1024 * 1024\<rparr>"

text \<open>A client on a connected socket.\<close>

definition plain_client :: client where
  "plain_client = \<lparr>c_fd = 8, c_db = 0, c_argv = [], c_cmd = None, c_lastcmd = None, c_flags = {}, c_commands = [],
     c_mstate_cmd_flags = {}, c_watched_keys = [], c_pubsub_channels = {}, c_pubsub_patterns = [],
     c_authenticated = False, c_replstate = REPL_STATE_NONE, c_repl_put_online_on_ack = False, c_woff = 0,
     c_peerid = [], c_name = None, c_buf = [], c_reply = [], c_reply_bytes = 0, c_obuf_soft_limit_reached_time = 0\<rparr>"

section \<open>Access to the parts of the state\<close>

abbreviation db_of :: "redisServer \<Rightarrow> nat \<Rightarrow> redisDb" where
  "db_of s d \<equiv> dbs s ! d"

definition upd_db :: "nat \<Rightarrow> (redisDb \<Rightarrow> redisDb) \<Rightarrow> redisServer \<Rightarrow> redisServer" where
  "upd_db d f s = s\<lparr>dbs := (dbs s)[d := f (dbs s ! d)]\<rparr>"

definition upd_cl :: "nat \<Rightarrow> (client \<Rightarrow> client) \<Rightarrow> redisServer \<Rightarrow> redisServer" where
  "upd_cl c f s = s\<lparr>clients := (clients s)(c := f (clients s c))\<rparr>"

definition set_flag :: "nat \<Rightarrow> cflag \<Rightarrow> redisServer \<Rightarrow> redisServer" where
  "set_flag c f = upd_cl c (\<lambda>cl. cl\<lparr>c_flags := insert f (c_flags cl)\<rparr>)"

definition clear_flags :: "nat \<Rightarrow> cflag set \<Rightarrow> redisServer \<Rightarrow> redisServer" where
  "clear_flags c fs = upd_cl c (\<lambda>cl. cl\<lparr>c_flags := c_flags cl - fs\<rparr>)"

abbreviation argv :: "redisServer \<Rightarrow> nat \<Rightarrow> bytes list" where
  "argv s c \<equiv> c_argv (clients s c)"

abbreviation flags :: "redisServer \<Rightarrow> nat \<Rightarrow> cflag set" where
  "flags s c \<equiv> c_flags (clients s c)"

text \<open>The bytes a C library function sees of a string (up to the first NUL), \<open>tolower\<close> on a byte, and
  \<open>strcasecmp\<close> against a lower case literal being 0.\<close>

definition cstr :: "bytes \<Rightarrow> bytes" where
  "cstr b = takeWhile (\<lambda>x. x \<noteq> 0) b"

definition lower :: "u8 \<Rightarrow> u8" where
  "lower b = (if 65 \<le> b \<and> b \<le> 90 then b + 32 else b)"

definition strcaseeq :: "bytes \<Rightarrow> string \<Rightarrow> bool" where
  "strcaseeq a s = (map lower (cstr a) = lit s)"

end
