(* ===== verification/Util.thy ===== *)
theory Util
  imports Prelude
begin

text \<open>
  The number conversions of \<open>src/src/util.c\<close>: \<open>digits10\<close>, \<open>sdigits10\<close>, \<open>ll2string\<close>, \<open>string2ll\<close> and
  \<open>string2l\<close>.  Strings are byte lists, the \<open>long long\<close> and \<open>unsigned long long\<close> values are 64 bit
  words, and the destination buffer of \<open>ll2string\<close> is a \<^typ>\<open>mem\<close> of \<open>dstlen\<close> cells.
\<close>

section \<open>Decimal digits\<close>

function digits10 :: "u64 \<Rightarrow> u32" where
  "digits10 v =
     (if v < 10 then 1
      else if v < 100 then 2
      else if v < 1000 then 3
      else if v < 1000000000000 then
        (if v < 100000000 then
           (if v < 1000000 then
              (if v < 10000 then 4 else 5 + (if v \<ge> 100000 then 1 else 0))
            else 7 + (if v \<ge> 10000000 then 1 else 0))
         else if v < 10000000000 then 9 + (if v \<ge> 1000000000 then 1 else 0)
         else 11 + (if v \<ge> 100000000000 then 1 else 0))
      else 12 + digits10 (v div 1000000000000))"
  by pat_completeness auto
termination
proof (relation "measure unat", goal_cases)
  case (2 v)
  then have "1000 \<le> unat v" by (simp add: word_less_nat_alt not_less)
  then show ?case by (simp add: unat_div)
qed simp

declare digits10.simps [simp del]

definition LLONG_MIN :: i64 where "LLONG_MIN = 0x8000000000000000"
definition LLONG_MAX :: u64 where "LLONG_MAX = 0x7FFFFFFFFFFFFFFF"
definition ULLONG_MAX :: u64 where "ULLONG_MAX = 0xFFFFFFFFFFFFFFFF"

definition sdigits10 :: "i64 \<Rightarrow> u32" where
  "sdigits10 v =
     (if sint v < 0
      then (let uv = (if v \<noteq> LLONG_MIN then - v else LLONG_MAX + 1) in digits10 uv + 1)
      else digits10 v)"

section \<open>Printing\<close>

definition digits_table :: "u8 list" where
  "digits_table = map of_char
     (''0001020304050607080910111213141516171819'' @
      ''2021222324252627282930313233343536373839'' @
      ''4041424344454647484950515253545556575859'' @
      ''6061626364656667686970717273747576777879'' @
      ''8081828384858687888990919293949596979899'')"

function ll2string_loop :: "mem \<Rightarrow> u32 \<Rightarrow> u64 \<Rightarrow> (mem \<times> u32 \<times> u64) option" where
  "ll2string_loop dst nxt v =
     (if v \<ge> 100 then
        let i = unat (v mod 100) * 2; v = v div 100 in
        do { dst \<leftarrow> mem_store dst (unat nxt) [digits_table ! (i + 1)];
             dst \<leftarrow> mem_store dst (unat (nxt - 1)) [digits_table ! i];
             ll2string_loop dst (nxt - 2) v }
      else Some (dst, nxt, v))"
  by pat_completeness auto
termination
proof (relation "measure (\<lambda>(dst, nxt, v). unat v)", goal_cases)
  case (2 dst nxt v)
  then have "100 \<le> unat v" by (simp add: word_le_nat_alt)
  then show ?case using 2 by (simp add: unat_div)
qed simp

declare ll2string_loop.simps [simp del]

definition ll2string :: "mem \<Rightarrow> u64 \<Rightarrow> i64 \<Rightarrow> (int \<times> mem) option" where
  "ll2string dst dstlen svalue =
     (let (v, negative) =
        (if sint svalue < 0
         then (if svalue \<noteq> LLONG_MIN then - svalue else LLONG_MAX + 1, 1)
         else (svalue, 0));
        len = digits10 v + negative in
      if ucast len \<ge> dstlen then Some (0, dst)
      else do {
        dst \<leftarrow> mem_store dst (unat len) [0];
        (dst, nxt, v) \<leftarrow> ll2string_loop dst (len - 1) v;
        dst \<leftarrow> (if v < 10 then mem_store dst (unat nxt) [48 + ucast v]
                else do { dst \<leftarrow> mem_store dst (unat nxt) [digits_table ! (unat v * 2 + 1)];
                          mem_store dst (unat (nxt - 1)) [digits_table ! (unat v * 2)] });
        dst \<leftarrow> (if negative \<noteq> 0 then mem_store dst 0 [45] else Some dst);
        Some (sint len, dst) })"

section \<open>Parsing\<close>

fun string2ll_loop :: "u64 \<Rightarrow> u8 list \<Rightarrow> (u64 \<times> u8 list) option" where
  "string2ll_loop v [] = Some (v, [])"
| "string2ll_loop v (c # p) =
     (if 48 \<le> c \<and> c \<le> 57 then
        if v > ULLONG_MAX div 10 then None
        else let v = v * 10 in
          if v > ULLONG_MAX - ucast (c - 48) then None
          else string2ll_loop (v + ucast (c - 48)) p
      else Some (v, c # p))"

definition string2ll :: "u8 list \<Rightarrow> i64 option" where
  "string2ll s =
     (if s = [] then None
      else if length s = 1 \<and> s ! 0 = 48 then Some 0
      else
        let (negative, p) = (if s ! 0 = 45 then (True, tl s) else (False, s)) in
        if p = [] then None
        else if 49 \<le> p ! 0 \<and> p ! 0 \<le> 57 then
          (case string2ll_loop (ucast (p ! 0 - 48)) (tl p) of
             None \<Rightarrow> None
           | Some (v, rest) \<Rightarrow>
               if rest \<noteq> [] then None
               else if negative then
                 if v > LLONG_MAX + 1 then None else Some (- v)
               else if v > LLONG_MAX then None else Some v)
        else None)"

text \<open>\<open>long\<close> has 64 bits: the range check of \<open>string2l\<close> never fails.\<close>

definition string2l :: "u8 list \<Rightarrow> i64 option" where
  "string2l s =
     (case string2ll s of
        None \<Rightarrow> None
      | Some ll \<Rightarrow> if sint ll < - 9223372036854775808 \<or> sint ll > 9223372036854775807 then None
                  else Some ll)"

section \<open>Decimal notation\<close>

fun dec :: "nat \<Rightarrow> u8 list" where
  "dec n = (if n < 10 then [48 + of_nat n] else dec (n div 10) @ [48 + of_nat (n mod 10)])"

declare dec.simps [simp del]

definition decimal :: "i64 \<Rightarrow> u8 list" where
  "decimal v = (if sint v < 0 then 45 # dec (nat (- sint v)) else dec (nat (sint v)))"

section \<open>Facts on decimal notation\<close>

definition dig :: "u8 \<Rightarrow> nat" where "dig c = unat (c - 48)"
definition is_dig :: "u8 \<Rightarrow> bool" where "is_dig c \<longleftrightarrow> 48 \<le> c \<and> c \<le> 57"

definition dec_val :: "nat \<Rightarrow> u8 list \<Rightarrow> nat" where
  "dec_val = foldl (\<lambda>a c. 10 * a + dig c)"

lemma dig_lt: "is_dig c \<Longrightarrow> dig c < 10"
  by (auto simp: is_dig_def dig_def word_le_nat_alt unat_sub)

lemma dig_chr: "is_dig c \<Longrightarrow> 48 + of_nat (dig c) = c"
  by (simp add: dig_def)

lemma chr_dig:
  assumes "d < 10"
  shows "is_dig (48 + of_nat d)" "dig (48 + of_nat d) = d"
proof -
  have "unat (48 + of_nat d :: u8) = 48 + d" using assms by (simp add: unat_word_ariths unat_of_nat)
  then show "is_dig (48 + of_nat d)" using assms by (simp add: is_dig_def word_le_nat_alt)
  show "dig (48 + of_nat d) = d" using assms by (simp add: dig_def unat_of_nat)
qed

lemma dec_small: "n < 10 \<Longrightarrow> dec n = [48 + of_nat n]"
  by (simp add: dec.simps)

lemma dec_snoc: "0 < n \<Longrightarrow> d < 10 \<Longrightarrow> dec (10 * n + d) = dec n @ [48 + of_nat d]"
  by (subst dec.simps) simp

lemma dec_digits: "c \<in> set (dec n) \<Longrightarrow> is_dig c"
proof (induction n rule: dec.induct)
  case (1 n)
  then show ?case by (subst (asm) (2) dec.simps) (auto simp: chr_dig split: if_splits)
qed

lemma dec_not_Nil [simp]: "dec n \<noteq> []"
  by (subst dec.simps) simp

lemma dec_not_Nil' [simp]: "[] \<noteq> dec n"
  using dec_not_Nil [of n] by metis

lemma dec_val_dec [simp]: "dec_val 0 (dec n) = n"
proof (induction n rule: dec.induct)
  case (1 n)
  then show ?case by (subst dec.simps) (auto simp: dec_val_def chr_dig)
qed

lemma dec_inj [simp]: "dec m = dec n \<longleftrightarrow> m = n"
  by (metis dec_val_dec)

lemma dec_val_append: "dec_val a (xs @ ys) = dec_val (dec_val a xs) ys"
  by (simp add: dec_val_def)

lemma dec_val_mono: "a \<le> dec_val a xs"
proof (induction xs arbitrary: a)
  case (Cons x xs)
  from Cons [of "10 * a + dig x"] show ?case by (simp add: dec_val_def)
qed (simp add: dec_val_def)

lemma dec_prefix_val: "dec m = dec n @ c # p \<Longrightarrow> 10 * n + dig c \<le> m"
proof -
  assume "dec m = dec n @ c # p"
  then have "m = dec_val (dec_val 0 (dec n)) (c # p)" by (metis dec_val_append dec_val_dec)
  then have "m = dec_val n (c # p)" by (simp only: dec_val_dec)
  then have "m = dec_val (10 * n + dig c) p" by (simp add: dec_val_def)
  then show ?thesis using dec_val_mono by simp
qed

lemma dec_hd: "hd (dec n) = 48 \<longleftrightarrow> n = 0"
proof (induction n rule: dec.induct)
  case (1 n)
  show ?case
  proof (cases "n < 10")
    case True
    then show ?thesis using chr_dig(2) [OF True] by (subst dec.simps) (auto simp: dig_def)
  next
    case False
    moreover have "hd (dec n) = hd (dec (n div 10))" using False by (subst dec.simps) simp
    ultimately show ?thesis using 1 by simp
  qed
qed

lemma length_dec_le: "0 < k \<Longrightarrow> length (dec n) \<le> k \<longleftrightarrow> n < 10 ^ k"
proof (induction k arbitrary: n)
  case (Suc k)
  show ?case
  proof (cases "n < 10")
    case True
    moreover have "10 * 1 \<le> 10 * (10 :: nat) ^ k" by (intro mult_le_mono2) simp
    ultimately have "n < 10 * 10 ^ k" by linarith
    with True show ?thesis by (simp add: dec_small)
  next
    case False
    then have l: "length (dec n) = Suc (length (dec (n div 10)))" by (subst dec.simps) simp
    show ?thesis
    proof (cases "k = 0")
      case True
      then show ?thesis using False l by simp
    next
      case k: False
      then have "length (dec (n div 10)) \<le> k \<longleftrightarrow> n div 10 < 10 ^ k" using Suc by simp
      also have "\<dots> \<longleftrightarrow> n < 10 ^ Suc k" by (simp add: div_less_iff_less_mult mult.commute)
      finally show ?thesis using l by simp
    qed
  qed
qed simp

lemma length_dec_eq: "n < 10 ^ Suc k \<Longrightarrow> 10 ^ k \<le> n \<or> k = 0 \<Longrightarrow> length (dec n) = Suc k"
  using length_dec_le [of "Suc k" n] length_dec_le [of k n]
  by (cases "k = 0") (auto simp: Suc_le_eq le_Suc_eq)

lemma length_dec_div: "10 ^ k \<le> n \<Longrightarrow> length (dec n) = k + length (dec (n div 10 ^ k))"
proof (induction k arbitrary: n)
  case (Suc k)
  have "10 * 1 \<le> 10 * (10 :: nat) ^ k" by (intro mult_le_mono2) simp
  with Suc.prems have "10 \<le> n" unfolding power_Suc by linarith
  then have "length (dec n) = Suc (length (dec (n div 10)))" by (subst dec.simps) simp
  moreover have "10 ^ k \<le> n div 10" using Suc.prems by (simp add: less_eq_div_iff_mult_less_eq mult.commute)
  ultimately show ?case using Suc.IH [of "n div 10"] by (simp add: div_mult2_eq)
qed simp

section \<open>Parsing is the inverse of printing\<close>

lemma u64_times_10:
  assumes "\<not> v > ULLONG_MAX div 10" "\<not> v * 10 > ULLONG_MAX - ucast (c - 48)" "is_dig c"
  shows "unat (v * 10 + ucast (c - 48)) = 10 * unat v + dig c"
proof -
  have v: "unat v \<le> 1844674407370955161"
    using assms(1) by (simp add: ULLONG_MAX_def word_less_nat_alt not_less unat_div)
  have d: "unat (ucast (c - 48) :: u64) = dig c"
    using dig_lt [OF assms(3)] by (simp add: dig_def unsigned_ucast_eq take_bit_nat_eq_self)
  have v10: "unat (v * 10) = 10 * unat v" using v by (simp add: unat_word_ariths)
  have "unat (ULLONG_MAX - ucast (c - 48)) = 18446744073709551615 - dig c"
    using dig_lt [OF assms(3)] d
    by (simp add: ULLONG_MAX_def unat_sub word_le_nat_alt)
  then have "10 * unat v + dig c \<le> 18446744073709551615"
    using assms(2) v10 dig_lt [OF assms(3)] by (simp add: word_less_nat_alt not_less)
  then show ?thesis using v10 d by (simp add: unat_word_ariths)
qed

lemma u64_times_10_overflow:
  assumes "v > ULLONG_MAX div 10 \<or> v * 10 > ULLONG_MAX - ucast (c - 48)" "is_dig c"
  shows "unat (w :: u64) < 10 * unat v + dig c"
proof -
  have "unat w < 18446744073709551616" using unsigned_less [of w] by simp
  then have w: "unat w \<le> 18446744073709551615" by simp
  have d: "unat (ucast (c - 48) :: u64) = dig c"
    using dig_lt [OF assms(2)] by (simp add: dig_def unsigned_ucast_eq take_bit_nat_eq_self)
  have m: "unat (ULLONG_MAX - ucast (c - 48)) = 18446744073709551615 - dig c"
    using dig_lt [OF assms(2)] d by (simp add: ULLONG_MAX_def unat_sub word_le_nat_alt)
  show ?thesis
  proof (cases "v > ULLONG_MAX div 10")
    case True
    then show ?thesis using w by (simp add: ULLONG_MAX_def word_less_nat_alt unat_div)
  next
    case False
    then have "unat v \<le> 1844674407370955161"
      by (simp add: ULLONG_MAX_def word_less_nat_alt not_less unat_div)
    then have "unat (v * 10) = 10 * unat v" by (simp add: unat_word_ariths)
    then show ?thesis using False assms(1) m w by (simp add: word_less_nat_alt)
  qed
qed

lemma string2ll_loop_iff:
  "0 < unat v \<Longrightarrow> string2ll_loop v s = Some (w, []) \<longleftrightarrow> dec (unat w) = dec (unat v) @ s"
proof (induction s arbitrary: v)
  case Nil
  then show ?case by (auto simp: word_unat_eq_iff)
next
  case (Cons c p)
  show ?case
  proof (cases "is_dig c")
    case False
    then have "string2ll_loop v (c # p) = Some (v, c # p)" by (auto simp: is_dig_def)
    moreover have "dec (unat w) \<noteq> dec (unat v) @ c # p"
      using False dec_digits [of c "unat w"] by auto
    ultimately show ?thesis by simp
  next
    case True
    then have c: "48 \<le> c" "c \<le> 57" by (auto simp: is_dig_def)
    show ?thesis
    proof (cases "v > ULLONG_MAX div 10 \<or> v * 10 > ULLONG_MAX - ucast (c - 48)")
      case ov: True
      then have "string2ll_loop v (c # p) = None" using c by (auto simp: Let_def)
      moreover have "dec (unat w) \<noteq> dec (unat v) @ c # p"
        using dec_prefix_val [of "unat w" "unat v" c p] u64_times_10_overflow [OF ov True, of w] by auto
      ultimately show ?thesis by simp
    next
      case ok: False
      let ?v = "v * 10 + ucast (c - 48)"
      have u: "unat ?v = 10 * unat v + dig c" using u64_times_10 [of v c] ok True by blast
      have "string2ll_loop v (c # p) = string2ll_loop ?v p" using c ok by (simp add: Let_def)
      moreover have "dec (unat ?v) = dec (unat v) @ [c]"
        using dec_snoc [OF Cons.prems dig_lt [OF True]] dig_chr [OF True] u by simp
      ultimately show ?thesis using Cons.IH [of ?v] u Cons.prems by simp
    qed
  qed
qed

lemma dec_neq_minus: "dec n \<noteq> 45 # p"
  using dec_digits [of 45 n] by (auto simp: is_dig_def)

lemma dec_cases:
  assumes "0 < n"
  obtains c p where "dec n = c # p" "49 \<le> c" "c \<le> 57"
proof (cases "dec n")
  case (Cons c p)
  have "is_dig c" using dec_digits [of c n] Cons by simp
  moreover have "c \<noteq> 48" using dec_hd [of n] Cons assms by simp
  ultimately have "49 \<le> c" "c \<le> 57"
    by (auto simp: is_dig_def word_le_nat_alt word_unat_eq_iff)
  with Cons that show ?thesis by blast
qed simp

text \<open>The body after the sign: a nonzero number without leading zeros.\<close>

lemma string2ll_body:
  "(49 \<le> c \<and> c \<le> 57 \<and> string2ll_loop (ucast (c - 48)) p = Some (w, [])) \<longleftrightarrow>
   c # p = dec (unat w) \<and> 0 < unat w"
proof (cases "49 \<le> c \<and> c \<le> 57")
  case True
  then have d: "is_dig c" by (auto simp: is_dig_def word_le_nat_alt)
  have u: "unat (ucast (c - 48) :: u64) = dig c"
    using dig_lt [OF d] by (simp add: dig_def unsigned_ucast_eq take_bit_nat_eq_self)
  have pos: "0 < dig c" using True by (auto simp: dig_def word_le_nat_alt unat_sub)
  have "dec (dig c) = [c]" using dec_small [OF dig_lt [OF d]] dig_chr [OF d] by simp
  then have "string2ll_loop (ucast (c - 48)) p = Some (w, []) \<longleftrightarrow> dec (unat w) = c # p"
    using string2ll_loop_iff [of "ucast (c - 48)" p w] u pos by simp
  moreover have "0 < unat w" if "dec (unat w) = c # p"
  proof (rule ccontr)
    assume "\<not> 0 < unat w"
    then have "dec (unat w) = [48]" by (simp add: dec_small)
    then show False using that True by simp
  qed
  ultimately show ?thesis using True by auto
next
  case False
  then show ?thesis using dec_cases [of "unat w"] by (metis list.inject)
qed

lemma decimal_nonneg: "\<not> sint v < 0 \<Longrightarrow> decimal v = dec (unat v)"
  using unat_lt_64 [of v] by (simp add: decimal_def sint_unat_64 del: of_nat_unat split: if_splits)

lemma decimal_neg:
  assumes "sint v < 0"
  shows "decimal v = 45 # dec (unat (- v))" "0 < unat (- v)" "unat (- v) \<le> 9223372036854775808"
proof -
  have u: "unat v < 18446744073709551616" using unsigned_less [of v] by simp
  have v: "9223372036854775808 \<le> unat v" using assms by (simp add: sint_unat_64 split: if_splits)
  then have nz: "v \<noteq> 0" by auto
  show "0 < unat (- v)" "unat (- v) \<le> 9223372036854775808"
    using u v by (auto simp: unat_minus_64 [OF nz])
  have "nat (- sint v) = unat (- v)" using u v by (simp add: unat_minus_64 [OF nz] sint_unat_64 del: of_nat_unat)
  then show "decimal v = 45 # dec (unat (- v))" using assms by (simp add: decimal_def)
qed

lemma string2ll_neg_iff:
  "string2ll (45 # p) = Some v \<longleftrightarrow>
   (\<exists>w. p = dec (unat w) \<and> 0 < unat w \<and> \<not> w > LLONG_MAX + 1 \<and> v = - w)"
proof (cases p)
  case Nil
  then show ?thesis by (simp add: string2ll_def)
next
  case (Cons c q)
  have "string2ll (45 # p) = Some v \<longleftrightarrow>
    (\<exists>w. (49 \<le> c \<and> c \<le> 57 \<and> string2ll_loop (ucast (c - 48)) q = Some (w, [])) \<and>
         \<not> w > LLONG_MAX + 1 \<and> v = - w)"
    by (auto simp: string2ll_def Let_def Cons split: option.splits prod.splits if_splits)
  then show ?thesis unfolding string2ll_body Cons by blast
qed

lemma string2ll_nonneg_iff:
  assumes "s \<noteq> []" "hd s \<noteq> 45"
  shows "string2ll s = Some v \<longleftrightarrow> s = [48] \<and> v = 0 \<or> (s = dec (unat v) \<and> 0 < unat v \<and> \<not> v > LLONG_MAX)"
proof -
  obtain c q where s: "s = c # q" using assms(1) by (cases s) auto
  show ?thesis
  proof (cases "s = [48]")
    case True
    have "[48] = dec (unat v) \<Longrightarrow> unat v = 0" using dec_hd [of "unat v"] by (metis list.sel(1))
    with True show ?thesis by (auto simp: string2ll_def)
  next
    case False
    then have "string2ll s = Some v \<longleftrightarrow>
      (49 \<le> c \<and> c \<le> 57 \<and> string2ll_loop (ucast (c - 48)) q = Some (v, [])) \<and> \<not> v > LLONG_MAX"
      using assms(2) by (auto simp: string2ll_def Let_def s split: option.splits prod.splits if_splits)
    then show ?thesis using False unfolding string2ll_body s by blast
  qed
qed

lemma string2ll_iff: "string2ll s = Some v \<longleftrightarrow> s = decimal v"
proof -
  have max: "v > LLONG_MAX \<longleftrightarrow> sint v < 0" for v :: i64
    using unsigned_less [of v] by (auto simp: LLONG_MAX_def word_less_nat_alt sint_unat_64)
  consider (nil) "s = []" | (neg) p where "s = 45 # p" | (pos) "s \<noteq> []" "hd s \<noteq> 45"
    by (cases s) auto
  then show ?thesis
  proof cases
    case nil
    then show ?thesis by (auto simp: string2ll_def decimal_def)
  next
    case neg
    have "(\<exists>w. p = dec (unat w) \<and> 0 < unat w \<and> \<not> w > LLONG_MAX + 1 \<and> v = - w) \<longleftrightarrow> s = decimal v"
    proof
      assume "\<exists>w. p = dec (unat w) \<and> 0 < unat w \<and> \<not> w > LLONG_MAX + 1 \<and> v = - w"
      then obtain w where w: "p = dec (unat w)" "0 < unat w" "unat w \<le> 9223372036854775808" "v = - w"
        by (auto simp: LLONG_MAX_def word_less_nat_alt not_less)
      then have "w \<noteq> 0" by auto
      then have "sint v < 0" using w by (auto simp: sint_unat_64 unat_minus_64 of_nat_diff simp del: of_nat_unat)
      then show "s = decimal v" using decimal_neg(1) [of v] w neg by simp
    next
      assume s: "s = decimal v"
      have "sint v < 0" using s neg decimal_nonneg [of v] dec_neq_minus [of "unat v" p] by auto
      from decimal_neg [OF this] s neg
      show "\<exists>w. p = dec (unat w) \<and> 0 < unat w \<and> \<not> w > LLONG_MAX + 1 \<and> v = - w"
        by (intro exI [of _ "- v"]) (auto simp: LLONG_MAX_def word_less_nat_alt not_less)
    qed
    then show ?thesis using string2ll_neg_iff neg by simp
  next
    case pos
    have "s = decimal v \<longleftrightarrow> \<not> sint v < 0 \<and> s = dec (unat v)"
      using pos decimal_neg(1) [of v] decimal_nonneg [of v] by (cases "sint v < 0") auto
    moreover have "unat v = 0 \<longleftrightarrow> v = 0" by (simp add: unat_eq_0)
    ultimately show ?thesis using string2ll_nonneg_iff [OF pos, of v]
      by (cases "v = 0") (auto simp: max dec_small)
  qed
qed

section \<open>Printing writes the decimal notation\<close>

lemma digits_table_eq:
  "digits_table = concat (map (\<lambda>i. [48 + of_nat (i div 10), 48 + of_nat (i mod 10)]) [0..<100])"
  by (simp add: digits_table_def upt_rec)

lemma digits_table_nth:
  assumes "i < 100"
  shows "digits_table ! (i * 2) = 48 + of_nat (i div 10)"
    and "digits_table ! (i * 2 + 1) = 48 + of_nat (i mod 10)"
proof -
  define bl :: "u8 list list" where "bl = map (\<lambda>i. [48 + of_nat (i div 10), 48 + of_nat (i mod 10)]) [0..<100]"
  have bl: "cells 2 bl" "length bl = 100" by (auto simp: bl_def cells_def simp del: upt_rec_numeral)
  have bi: "bl ! i = [48 + of_nat (i div 10), 48 + of_nat (i mod 10)]"
    using assms by (simp add: bl_def del: upt_rec_numeral)
  have t: "digits_table = concat bl" unfolding digits_table_eq bl_def ..
  have l: "length digits_table = 200" using length_cells [OF bl(1)] bl(2) t by simp
  have "take 2 (drop (i * 2) digits_table) = [48 + of_nat (i div 10), 48 + of_nat (i mod 10)]"
    using cell_at [OF bl(1), of i] bl(2) assms bi t by (simp add: mult.commute)
  then have "take 2 (drop (i * 2) digits_table) ! 0 = 48 + of_nat (i div 10)"
    "take 2 (drop (i * 2) digits_table) ! 1 = 48 + of_nat (i mod 10)" by simp_all
  then show "digits_table ! (i * 2) = 48 + of_nat (i div 10)"
    "digits_table ! (i * 2 + 1) = 48 + of_nat (i mod 10)"
    using l assms by simp_all
qed

lemma mem_store_1: "i < length m \<Longrightarrow> mem_store m i [b] = Some (m[i := Some b])"
  by (simp add: mem_store_def upd_conv_take_nth_drop)

lemma dec_100: "100 \<le> n \<Longrightarrow> dec n = dec (n div 100) @ [48 + of_nat (n mod 100 div 10), 48 + of_nat (n mod 100 mod 10)]"
proof -
  assume n: "100 \<le> n"
  have "dec n = dec (n div 10) @ [48 + of_nat (n mod 10)]" using n by (subst dec.simps) simp
  also have "dec (n div 10) = dec (n div 10 div 10) @ [48 + of_nat (n div 10 mod 10)]"
    using n by (subst dec.simps) simp
  finally show ?thesis by (simp add: div_mult2_eq [symmetric] mod_mult2_eq [of n 10 10, simplified] mod_mod_cancel)
qed

lemma digits10_length: "unat (digits10 v) = length (dec (unat v))"
proof (induction v rule: digits10.induct)
  case (1 v)
  have eq: "length (dec (unat v)) = Suc k" if "unat v < 10 ^ Suc k" "10 ^ k \<le> unat v \<or> k = 0" for k
    using length_dec_eq that by blast
  note w = word_less_nat_alt word_le_nat_alt
  show ?case
  proof (cases "v < 1000000000000")
    case True
    then show ?thesis
      by (subst digits10.simps)
        (auto simp: w eq [of 0] eq [of 1] eq [of 2] eq [of 3] eq [of 4] eq [of 5] eq [of 6] eq [of 7]
          eq [of 8] eq [of 9] eq [of 10] eq [of 11])
  next
    case False
    then have n: "10 ^ 12 \<le> unat v" by (simp add: w)
    have "digits10 v = 12 + digits10 (v div 1000000000000)" using False n by (subst digits10.simps) (auto simp: w)
    moreover have "unat (digits10 (v div 1000000000000)) = length (dec (unat v div 10 ^ 12))"
      using 1 False n by (auto simp: w unat_div)
    moreover have "length (dec (unat v div 10 ^ 12)) \<le> 20"
      using unat_lt_64 [of v] by (subst length_dec_le) auto
    ultimately show ?thesis using length_dec_div [OF n] by (simp add: unat_word_ariths)
  qed
qed

lemma unat_sub_small: "k \<le> unat (n :: u32) \<Longrightarrow> k < 2 ^ 32 \<Longrightarrow> unat (n - of_nat k) = unat n - k"
  by (simp add: unat_sub word_le_nat_alt unat_of_nat)

lemma drop_two_upd:
  "Suc i < length m \<Longrightarrow> drop i (m[Suc i := b, i := a]) = a # b # drop (Suc (Suc i)) m"
  by (simp add: drop_update_swap Cons_nth_drop_Suc [symmetric] list_update_swap)

lemma ll2string_loop_spec:
  assumes "unat nxt < length dst" "Suc (unat nxt) = off + length (dec (unat v))"
  shows "\<exists>nxt' v' tail. ll2string_loop dst nxt v =
      Some (take (Suc (unat nxt')) dst @ map Some tail @ drop (Suc (unat nxt)) dst, nxt', v') \<and>
    v' < 100 \<and> dec (unat v) = dec (unat v') @ tail \<and> Suc (unat nxt') = off + length (dec (unat v'))"
  using assms
proof (induction dst nxt v rule: ll2string_loop.induct)
  case (1 dst nxt v)
  show ?case
  proof (cases "v \<ge> 100")
    case False
    then have "ll2string_loop dst nxt v = Some (dst, nxt, v)" by (simp add: ll2string_loop.simps)
    then show ?thesis using False "1.prems"
      by (intro exI [of _ nxt] exI [of _ v] exI [of _ "[]"]) (simp add: not_le)
  next
    case True
    define i where "i = unat nxt - 1"
    let ?r = "unat (v mod 100)" and ?q = "v div 100"
    have r: "?r = unat v mod 100" "?r < 100" by (simp_all add: unat_mod)
    have q: "unat ?q = unat v div 100" by (simp add: unat_div)
    have n100: "100 \<le> unat v" using True by (simp add: word_le_nat_alt)
    define d1 d2 :: u8 where "d1 = 48 + of_nat (?r div 10)" and "d2 = 48 + of_nat (?r mod 10)"
    have dv: "dec (unat v) = dec (unat ?q) @ [d1, d2]"
      using dec_100 [OF n100] by (simp add: d1_def d2_def q r)
    have nx: "2 \<le> unat nxt"
    proof -
      have "length (dec (unat v)) = length (dec (unat ?q)) + 2" by (simp add: dv)
      moreover have "0 < length (dec (unat ?q))" by simp
      ultimately show ?thesis using "1.prems"(2) by linarith
    qed
    have i: "unat (nxt - 1) = i" "unat (nxt - 2) = i - 1" "unat nxt = Suc i" "0 < i"
      using unat_sub_small [of 1 nxt] unat_sub_small [of 2 nxt] nx by (simp_all add: i_def)
    let ?d1 = "dst[Suc i := Some d2]" and ?d2 = "dst[Suc i := Some d2, i := Some d1]"
    have st: "mem_store dst (unat nxt) [digits_table ! (?r * 2 + 1)] = Some ?d1"
      "mem_store ?d1 (unat (nxt - 1)) [digits_table ! (?r * 2)] = Some ?d2"
      using digits_table_nth [OF r(2)] i "1.prems"(1) by (simp_all add: mem_store_1 d1_def d2_def)
    have step: "ll2string_loop dst nxt v = ll2string_loop ?d2 (nxt - 2) ?q"
      by (subst ll2string_loop.simps) (simp only: True if_True Let_def st bind.bind_lunit)
    have p: "unat (nxt - 2) < length ?d2" "Suc (unat (nxt - 2)) = off + length (dec (unat ?q))"
      using "1.prems" i dv by auto
    obtain nxt' v' tail where
      l: "ll2string_loop ?d2 (nxt - 2) ?q =
        Some (take (Suc (unat nxt')) ?d2 @ map Some tail @ drop (Suc (unat (nxt - 2))) ?d2, nxt', v')"
      and e: "v' < 100" "dec (unat ?q) = dec (unat v') @ tail" "Suc (unat nxt') = off + length (dec (unat v'))"
      using "1.IH" [OF True refl refl _ _ p] st by blast
    have le: "Suc (unat nxt') \<le> i" using e p i by simp
    have "drop (Suc (unat (nxt - 2))) ?d2 = Some d1 # Some d2 # drop (Suc (unat nxt)) dst"
      using drop_two_upd [of i dst] i "1.prems"(1) by simp
    moreover have "take (Suc (unat nxt')) ?d2 = take (Suc (unat nxt')) dst"
      using le by (simp add: take_update_cancel)
    ultimately have "ll2string_loop dst nxt v =
        Some (take (Suc (unat nxt')) dst @ map Some (tail @ [d1, d2]) @ drop (Suc (unat nxt)) dst, nxt', v')"
      using step l by simp
    then show ?thesis using e dv by (intro exI [of _ nxt'] exI [of _ v'] exI [of _ "tail @ [d1, d2]"]) simp
  qed
qed

lemma take_drop_1: "Suc i \<le> length m \<Longrightarrow> m[i := a] = take i m @ a # drop (Suc i) m"
  by (simp add: upd_conv_take_nth_drop)

lemma last_digits:
  assumes v: "(v :: u64) < 100" and nx: "Suc (unat (nxt :: u32)) = off + length (dec (unat v))" and l: "unat nxt < length dst"
  shows "(if v < 10 then mem_store dst (unat nxt) [48 + ucast v]
          else do { dst \<leftarrow> mem_store dst (unat nxt) [digits_table ! (unat v * 2 + 1)];
                    mem_store dst (unat (nxt - 1)) [digits_table ! (unat v * 2)] }) =
    Some (take off dst @ map Some (dec (unat v)) @ drop (Suc (unat nxt)) dst)"
proof (cases "v < 10")
  case True
  then have u: "unat v < 10" by (simp add: word_less_nat_alt)
  have "(ucast v :: u8) = of_nat (unat v)" by simp
  then have d: "dec (unat v) = [48 + ucast v]" using dec_small [OF u] by simp
  then have "unat nxt = off" using nx by simp
  then show ?thesis using l True by (simp add: d mem_store_1 take_drop_1)
next
  case False
  then have u: "10 \<le> unat v" "unat v < 100" using v by (simp_all add: word_less_nat_alt)
  have d: "dec (unat v) = [48 + of_nat (unat v div 10), 48 + of_nat (unat v mod 10)]"
    using u by (subst dec.simps) (simp add: dec_small)
  then have n: "unat nxt = Suc off" using nx by simp
  then have n1: "unat (nxt - 1) = off" using unat_sub_small [of 1 nxt] by simp
  have "take off (dst[Suc off := b, off := a]) @ drop off (dst[Suc off := b, off := a]) =
      take off dst @ a # b # drop (Suc (Suc off)) dst" for a b
    using drop_two_upd [of off dst b a] l n by (simp add: take_update_cancel)
  then have "dst[Suc off := b, off := a] = take off dst @ a # b # drop (Suc (Suc off)) dst" for a b
    by (simp only: append_take_drop_id)
  then show ?thesis using False l digits_table_nth [OF u(2)] by (simp add: d n n1 mem_store_1)
qed

lemma digits_written:
  assumes nx: "Suc (unat nxt) = off + length (dec (unat v))" and l: "unat nxt < length dst"
  shows "do { (dst, nxt, v) \<leftarrow> ll2string_loop dst nxt v;
              if v < 10 then mem_store dst (unat nxt) [48 + ucast v]
              else do { dst \<leftarrow> mem_store dst (unat nxt) [digits_table ! (unat v * 2 + 1)];
                        mem_store dst (unat (nxt - 1)) [digits_table ! (unat v * 2)] } } =
    Some (take off dst @ map Some (dec (unat v)) @ drop (Suc (unat nxt)) dst)"
proof -
  obtain nxt' v' tail where r: "ll2string_loop dst nxt v =
      Some (take (Suc (unat nxt')) dst @ map Some tail @ drop (Suc (unat nxt)) dst, nxt', v')"
    and v': "v' < 100" and t: "dec (unat v) = dec (unat v') @ tail"
    and n: "Suc (unat nxt') = off + length (dec (unat v'))"
    using ll2string_loop_spec [OF l nx] by blast
  let ?d = "take (Suc (unat nxt')) dst @ map Some tail @ drop (Suc (unat nxt)) dst"
  have le: "Suc (unat nxt') \<le> length dst" using n nx l t by simp
  then have l': "unat nxt' < length ?d" by simp
  have "take off ?d = take off dst" using le n by simp
  moreover have "drop (Suc (unat nxt')) ?d = map Some tail @ drop (Suc (unat nxt)) dst" using le by simp
  ultimately show ?thesis
    by (simp only: r bind.bind_lunit prod.case last_digits [OF v' n l'] t map_append append_assoc)
qed

lemma ll2string_abs:
  "(if sint v < 0 then (if v \<noteq> LLONG_MIN then - v else LLONG_MAX + 1, 1 :: u32) else (v, 0)) =
   (if sint v < 0 then - v else v, if sint v < 0 then 1 else 0)"
  by (simp add: LLONG_MIN_def LLONG_MAX_def)

lemma length_decimal: "length (decimal v) = length (dec (unat (if sint v < 0 then - v else v))) + (if sint v < 0 then 1 else 0)"
  by (simp add: decimal_nonneg decimal_neg)

lemma length_dec_u64: "length (dec (unat (v :: u64))) \<le> 20"
  using length_dec_le [of 20 "unat v"] unat_lt_64 [of v] by simp

lemma bind_case3_assoc:
  "do { (a, b, c) \<leftarrow> m; x \<leftarrow> E a b c; F x } = do { x \<leftarrow> do { (a, b, c) \<leftarrow> m; E a b c }; F x }"
  for m :: "('a \<times> 'b \<times> 'c) option"
  by (cases m) auto

lemma ll2string_eq:
  assumes "unat dstlen = length dst"
  shows "ll2string dst dstlen v =
    (if length (decimal v) < length dst
     then Some (int (length (decimal v)), map Some (decimal v @ [0]) @ drop (Suc (length (decimal v))) dst)
     else Some (0, dst))"
proof -
  define neg :: u32 where "neg = (if sint v < 0 then 1 else 0)"
  define w where "w = (if sint v < 0 then - v else v)"
  define len where "len = digits10 w + neg"
  define n where "n = length (decimal v)"
  have n: "n = length (dec (unat w)) + unat neg" by (simp add: n_def length_decimal w_def neg_def)
  have neg1: "unat neg \<le> 1" by (simp add: neg_def)
  have n21: "n \<le> 21" using length_dec_u64 [of w] n neg1 by simp
  have len: "unat len = n"
    using n n21 digits10_length [of w] by (simp add: len_def unat_word_ariths)
  have n0: "unat neg < n" using n by simp
  have len1: "unat (len - 1) = n - 1" using unat_sub_small [of 1 len] len n0 by simp
  have "uint len = int n" using len by (metis uint_nat)
  then have slen: "sint len = int n"
    using n21 by (simp add: sint_uint signed_take_bit_int_eq_self)
  have cmp: "ucast len \<ge> dstlen \<longleftrightarrow> length dst \<le> n"
    using len n21 assms by (simp add: word_le_nat_alt unsigned_ucast_eq take_bit_nat_eq_self)
  have unf: "ll2string dst dstlen v =
    (if length dst \<le> n then Some (0, dst)
     else do {
        dst \<leftarrow> mem_store dst (unat len) [0];
        dst \<leftarrow> do { (dst, nxt, v) \<leftarrow> ll2string_loop dst (len - 1) w;
          if v < 10 then mem_store dst (unat nxt) [48 + ucast v]
          else do { dst \<leftarrow> mem_store dst (unat nxt) [digits_table ! (unat v * 2 + 1)];
                    mem_store dst (unat (nxt - 1)) [digits_table ! (unat v * 2)] } };
        dst \<leftarrow> (if neg \<noteq> 0 then mem_store dst 0 [45] else Some dst);
        Some (sint len, dst) })"
    unfolding ll2string_def ll2string_abs Let_def prod.case neg_def [symmetric] w_def [symmetric]
      len_def [symmetric] cmp bind_case3_assoc ..
  show ?thesis
  proof (cases "length dst \<le> n")
    case True
    then show ?thesis by (simp add: unf n_def [symmetric])
  next
    case False
    let ?d = "dst[n := Some 0]"
    have st: "mem_store dst (unat len) [0] = Some ?d" using False len by (simp add: mem_store_1)
    have nx: "Suc (unat (len - 1)) = unat neg + length (dec (unat w))" using len1 n n0 by simp
    have sn: "Suc (unat (len - 1)) = n" using len1 n0 by simp
    have dr: "drop n ?d = Some 0 # drop (Suc n) dst"
      using False by (simp add: Cons_nth_drop_Suc [symmetric])
    note dw = digits_written [OF nx, of ?d]
    have l: "unat (len - 1) < length ?d" using len1 n0 False by simp
    have lt: "n < length dst" using False by simp
    have res: "(if neg \<noteq> 0 then mem_store (take (unat neg) ?d @ map Some (dec (unat w)) @ drop n ?d) 0 [45]
        else Some (take (unat neg) ?d @ map Some (dec (unat w)) @ drop n ?d)) =
      Some (map Some (decimal v @ [0]) @ drop (Suc n) dst)"
    proof (cases "sint v < 0")
      case True
      then have "unat neg = 1" "w = - v" by (simp_all add: neg_def w_def)
      moreover obtain x xs where "?d = x # xs" using False by (cases ?d) auto
      ultimately show ?thesis using True decimal_neg [OF True] dr by (auto simp: mem_store_1 neg_def)
    next
      case False
      then show ?thesis using dr by (simp add: neg_def w_def decimal_nonneg)
    qed
    show ?thesis
      by (simp only: unf st dw [OF l] sn bind.bind_lunit res slen if_False n_def [symmetric] False lt if_True)
  qed
qed

text \<open>C21: \<open>ll2string\<close> is total on a buffer of \<open>dstlen\<close> cells and stays inside it.  When the
  decimal notation of the 64-bit value and its terminating NUL fit, they are what the buffer starts
  with afterwards, the rest of the buffer is kept and the length of the notation is returned;
  otherwise the buffer is left alone and 0 is returned.  This covers \<open>LLONG_MIN\<close>, whose negation
  does not fit a \<open>long long\<close>.\<close>

theorem ll2string_correct:
  assumes "unat dstlen = length dst"
  shows "ll2string dst dstlen v =
    (if length (decimal v) < length dst
     then Some (int (length (decimal v)), map Some (decimal v @ [0]) @ drop (Suc (length (decimal v))) dst)
     else Some (0, dst))"
  using assms by (rule ll2string_eq)

theorem ll2string_correct_witness:
  "unat (4 :: u64) = length (replicate 4 (None :: u8 option)) \<and>
   ll2string (replicate 4 None) 4 (- 42) = Some (3, [Some 45, Some 52, Some 50, Some 0])"
proof -
  have d: "decimal (- 42) = [45, 52, 50]" by code_simp
  show ?thesis using ll2string_correct [of 4 "replicate 4 None" "- 42"] by (simp add: d)
qed

text \<open>C22: \<open>string2ll\<close> accepts exactly the canonical decimal notations of the 64-bit signed integers
  (no sign but a leading minus, no leading zero, no trailing byte, no value out of range) and returns
  the integer the notation denotes; \<open>decimal\<close> is also what \<open>ll2string\<close> writes, so the two are inverse.\<close>

theorem string2ll_accepts_decimal: "string2ll s = Some v \<longleftrightarrow> s = decimal v"
  by (rule string2ll_iff)

end
