(* ===== verification/Networking.thy ===== *)
theory Networking
  imports State Util
begin

text \<open>Client output buffers (\<open>networking.c\<close>): the functions with which the rest of the server queues
  data for a client, down to the static buffer and the list of reply blocks.\<close>

section \<open>Integers as text\<close>

text \<open>\<open>ll2string\<close> into a local buffer of \<open>n\<close> bytes, as its callers use it.\<close>

definition ll2str :: "nat \<Rightarrow> i64 \<Rightarrow> bytes option" where
  "ll2str n v = do { (len, m) \<leftarrow> ll2string (replicate n None) (of_nat n) v; mem_load m 0 (nat len) }"

section \<open>Shared protocol strings\<close>

definition shared_ok :: bytes where "shared_ok = lit ''+OK'' @ crlf"
definition shared_err :: bytes where "shared_err = lit ''-ERR'' @ crlf"
definition shared_emptybulk :: bytes where "shared_emptybulk = lit ''$0'' @ crlf @ crlf"
definition shared_czero :: bytes where "shared_czero = lit '':0'' @ crlf"
definition shared_cone :: bytes where "shared_cone = lit '':1'' @ crlf"
definition shared_cnegone :: bytes where "shared_cnegone = lit '':-1'' @ crlf"
definition shared_nullbulk :: bytes where "shared_nullbulk = lit ''$-1'' @ crlf"
definition shared_nullmultibulk :: bytes where "shared_nullmultibulk = lit ''*-1'' @ crlf"
definition shared_emptymultibulk :: bytes where "shared_emptymultibulk = lit ''*0'' @ crlf"
definition shared_pong :: bytes where "shared_pong = lit ''+PONG'' @ crlf"
definition shared_queued :: bytes where "shared_queued = lit ''+QUEUED'' @ crlf"
definition shared_wrongtypeerr :: bytes where
  "shared_wrongtypeerr = lit ''-WRONGTYPE Operation against a key holding the wrong kind of value'' @ crlf"
definition shared_nokeyerr :: bytes where "shared_nokeyerr = lit ''-ERR no such key'' @ crlf"
definition shared_syntaxerr :: bytes where "shared_syntaxerr = lit ''-ERR syntax error'' @ crlf"
definition shared_sameobjecterr :: bytes where
  "shared_sameobjecterr = lit ''-ERR source and destination objects are the same'' @ crlf"
definition shared_outofrangeerr :: bytes where "shared_outofrangeerr = lit ''-ERR index out of range'' @ crlf"
definition shared_loadingerr :: bytes where
  "shared_loadingerr = lit ''-LOADING Redis is loading the dataset in memory'' @ crlf"
definition shared_slowscripterr :: bytes where
  "shared_slowscripterr = lit ''-BUSY Redis is busy running a script. You can only call SCRIPT KILL or SHUTDOWN NOSAVE.'' @ crlf"
definition shared_masterdownerr :: bytes where
  "shared_masterdownerr = lit ''-MASTERDOWN Link with MASTER is down and replica-serve-stale-data is set to 'no'.'' @ crlf"
definition shared_bgsaveerr :: bytes where
  "shared_bgsaveerr = lit ''-MISCONF Redis is configured to save RDB snapshots, but it is currently not able to persist on disk. Commands that may modify the data set are disabled, because this instance is configured to report errors during writes if RDB snapshotting fails (stop-writes-on-bgsave-error option). Please check the Redis logs for details about the RDB error.'' @ crlf"
definition shared_roslaveerr :: bytes where
  "shared_roslaveerr = lit ''-READONLY You can't write against a read only replica.'' @ crlf"
definition shared_noautherr :: bytes where "shared_noautherr = lit ''-NOAUTH Authentication required.'' @ crlf"
definition shared_oomerr :: bytes where
  "shared_oomerr = lit ''-OOM command not allowed when used memory > 'maxmemory'.'' @ crlf"
definition shared_execaborterr :: bytes where
  "shared_execaborterr = lit ''-EXECABORT Transaction discarded because of previous errors.'' @ crlf"
definition shared_noreplicaserr :: bytes where
  "shared_noreplicaserr = lit ''-NOREPLICAS Not enough good replicas to write.'' @ crlf"
definition shared_messagebulk :: bytes where "shared_messagebulk = lit ''$7'' @ crlf @ lit ''message'' @ crlf"
definition shared_pmessagebulk :: bytes where "shared_pmessagebulk = lit ''$8'' @ crlf @ lit ''pmessage'' @ crlf"
definition shared_subscribebulk :: bytes where "shared_subscribebulk = lit ''$9'' @ crlf @ lit ''subscribe'' @ crlf"
definition shared_unsubscribebulk :: bytes where "shared_unsubscribebulk = lit ''$11'' @ crlf @ lit ''unsubscribe'' @ crlf"
definition shared_psubscribebulk :: bytes where "shared_psubscribebulk = lit ''$10'' @ crlf @ lit ''psubscribe'' @ crlf"
definition shared_punsubscribebulk :: bytes where "shared_punsubscribebulk = lit ''$12'' @ crlf @ lit ''punsubscribe'' @ crlf"

definition shared_mbulkhdr :: "nat \<Rightarrow> bytes" where "shared_mbulkhdr j = lit ''*'' @ dec j @ crlf"
definition shared_bulkhdr :: "nat \<Rightarrow> bytes" where "shared_bulkhdr j = lit ''$'' @ dec j @ crlf"

definition OBJ_SHARED_BULKHDR_LEN :: int where "OBJ_SHARED_BULKHDR_LEN = 32"
definition PROTO_REPLY_CHUNK_BYTES :: nat where "PROTO_REPLY_CHUNK_BYTES = 16 * 1024"
definition SIZEOF_clientReplyBlock :: nat where "SIZEOF_clientReplyBlock = 16"
definition SIZEOF_listNode :: nat where "SIZEOF_listNode = 24"

section \<open>Whether a client takes output\<close>

definition clientHasPendingReplies :: "client \<Rightarrow> bool" where
  "clientHasPendingReplies cl = (c_buf cl \<noteq> [] \<or> c_reply cl \<noteq> [])"

definition clientInstallWriteHandler :: "redisServer \<Rightarrow> nat \<Rightarrow> redisServer" where
  "clientInstallWriteHandler s c =
     (let cl = clients s c in
      if CLIENT_PENDING_WRITE \<notin> c_flags cl \<and>
         (c_replstate cl = REPL_STATE_NONE \<or>
          (c_replstate cl = SLAVE_STATE_ONLINE \<and> \<not> c_repl_put_online_on_ack cl))
      then (set_flag c CLIENT_PENDING_WRITE s)\<lparr>clients_pending_write := c # clients_pending_write s\<rparr>
      else s)"

definition prepareClientToWrite :: "redisServer \<Rightarrow> nat \<Rightarrow> bool \<times> redisServer" where
  "prepareClientToWrite s c =
     (let cl = clients s c in
      if CLIENT_LUA \<in> c_flags cl \<or> CLIENT_MODULE \<in> c_flags cl then (True, s)
      else if CLIENT_REPLY_OFF \<in> c_flags cl \<or> CLIENT_REPLY_SKIP \<in> c_flags cl then (False, s)
      else if CLIENT_MASTER \<in> c_flags cl \<and> CLIENT_MASTER_FORCE_REPLY \<notin> c_flags cl then (False, s)
      else if c_fd cl \<le> 0 then (False, s)
      else (True, if \<not> clientHasPendingReplies cl then clientInstallWriteHandler s c else s))"

section \<open>Output limits\<close>

definition getClientOutputBufferMemoryUsage :: "client \<Rightarrow> nat" where
  "getClientOutputBufferMemoryUsage cl =
     c_reply_bytes cl + (SIZEOF_listNode + SIZEOF_clientReplyBlock) * length (c_reply cl)"

definition getClientType :: "client \<Rightarrow> client_type" where
  "getClientType cl =
     (if CLIENT_MASTER \<in> c_flags cl then CLIENT_TYPE_MASTER
      else if CLIENT_SLAVE \<in> c_flags cl \<and> CLIENT_MONITOR \<notin> c_flags cl then CLIENT_TYPE_SLAVE
      else if CLIENT_PUBSUB \<in> c_flags cl then CLIENT_TYPE_PUBSUB
      else CLIENT_TYPE_NORMAL)"

definition checkClientOutputBufferLimits :: "redisServer \<Rightarrow> nat \<Rightarrow> bool \<times> redisServer" where
  "checkClientOutputBufferLimits s c =
     (let cl = clients s c;
          used_mem = getClientOutputBufferMemoryUsage cl;
          class = getClientType cl;
          class = (if class = CLIENT_TYPE_MASTER then CLIENT_TYPE_NORMAL else class);
          (hard_limit_bytes, soft_limit_bytes, soft_limit_seconds) = client_obuf_limits s class;
          hard = (hard_limit_bytes \<noteq> 0 \<and> used_mem \<ge> hard_limit_bytes);
          soft = (soft_limit_bytes \<noteq> 0 \<and> used_mem \<ge> soft_limit_bytes);
          (soft, reached) =
            (if soft then
               if c_obuf_soft_limit_reached_time cl = 0 then (False, unixtime s)
               else (\<not> unixtime s - c_obuf_soft_limit_reached_time cl \<le> soft_limit_seconds,
                     c_obuf_soft_limit_reached_time cl)
             else (False, 0)) in
      (soft \<or> hard, upd_cl c (\<lambda>cl. cl\<lparr>c_obuf_soft_limit_reached_time := reached\<rparr>) s))"

definition freeClientAsync :: "redisServer \<Rightarrow> nat \<Rightarrow> redisServer" where
  "freeClientAsync s c =
     (if CLIENT_CLOSE_ASAP \<in> flags s c \<or> CLIENT_LUA \<in> flags s c then s
      else (set_flag c CLIENT_CLOSE_ASAP s)\<lparr>clients_to_close := clients_to_close s @ [c]\<rparr>)"

definition asyncCloseClientOnOutputBufferLimitReached :: "redisServer \<Rightarrow> nat \<Rightarrow> redisServer" where
  "asyncCloseClientOnOutputBufferLimitReached s c =
     (if c_fd (clients s c) = - 1 then s
      else if c_reply_bytes (clients s c) = 0 \<or> CLIENT_CLOSE_ASAP \<in> flags s c then s
      else let (reached, s) = checkClientOutputBufferLimits s c in
           if reached then freeClientAsync s c else s)"

section \<open>Appending to the buffers\<close>

definition u_addReplyToBuffer :: "client \<Rightarrow> bytes \<Rightarrow> client option" where
  "u_addReplyToBuffer cl str =
     (let available = PROTO_REPLY_CHUNK_BYTES - length (c_buf cl) in
      if CLIENT_CLOSE_AFTER_REPLY \<in> c_flags cl then Some cl
      else if c_reply cl \<noteq> [] then None
      else if length str > available then None
      else Some (cl\<lparr>c_buf := c_buf cl @ str\<rparr>))"

definition u_addReplyStringToList :: "redisServer \<Rightarrow> nat \<Rightarrow> bytes \<Rightarrow> redisServer" where
  "u_addReplyStringToList s c str =
     (let cl = clients s c in
      if CLIENT_CLOSE_AFTER_REPLY \<in> c_flags cl then s
      else
        let tail = (if c_reply cl = [] then None else last (c_reply cl));
            (rl, rest) =
              (case tail of
                 None \<Rightarrow> (c_reply cl, str)
               | Some t \<Rightarrow>
                   let avail = rb_size t - length (rb_buf t);
                       copy = (if avail \<ge> length str then length str else avail) in
                   (butlast (c_reply cl) @ [Some (t\<lparr>rb_buf := rb_buf t @ take copy str\<rparr>)], drop copy str));
            cl = cl\<lparr>c_reply := rl\<rparr>;
            cl =
              (if rest \<noteq> [] then
                 let size = (if length rest < PROTO_REPLY_CHUNK_BYTES then PROTO_REPLY_CHUNK_BYTES else length rest);
                     tsize = usable s (size + SIZEOF_clientReplyBlock) - SIZEOF_clientReplyBlock in
                 cl\<lparr>c_reply := c_reply cl @ [Some \<lparr>rb_size = tsize, rb_buf = rest\<rparr>],
                    c_reply_bytes := c_reply_bytes cl + tsize\<rparr>
               else cl) in
        asyncCloseClientOnOutputBufferLimitReached (upd_cl c (\<lambda>_. cl) s) c)"

definition addReplyString :: "redisServer \<Rightarrow> nat \<Rightarrow> bytes \<Rightarrow> redisServer" where
  "addReplyString s c str =
     (let (ok, s) = prepareClientToWrite s c in
      if \<not> ok then s
      else case u_addReplyToBuffer (clients s c) str of
             Some cl \<Rightarrow> upd_cl c (\<lambda>_. cl) s
           | None \<Rightarrow> u_addReplyStringToList s c str)"

text \<open>\<open>addReply\<close> and \<open>addReplySds\<close> of a string are the same code; of an integer encoded string the
  decimal notation is sent, and any other object is a panic.\<close>

definition addReply :: "redisServer \<Rightarrow> nat \<Rightarrow> bytes \<Rightarrow> redisServer" where
  "addReply s c str = addReplyString s c str"

definition addReplyObj :: "redisServer \<Rightarrow> nat \<Rightarrow> robj \<Rightarrow> redisServer option" where
  "addReplyObj s c ob =
     (case ptr ob of
        Str_RAW b \<Rightarrow> Some (addReplyString s c b)
      | Str_EMBSTR b \<Rightarrow> Some (addReplyString s c b)
      | Str_INT n \<Rightarrow> do { b \<leftarrow> ll2str 32 n; Some (addReplyString s c b) }
      | _ \<Rightarrow> None)"

section \<open>Protocol items\<close>

definition addReplyErrorLength :: "redisServer \<Rightarrow> nat \<Rightarrow> bytes \<Rightarrow> redisServer" where
  "addReplyErrorLength s c str =
     (let s = (if str = [] \<or> hd str \<noteq> 45 then addReplyString s c (lit ''-ERR '') else s);
          s = addReplyString s c str in
      addReplyString s c crlf)"

definition addReplyError :: "redisServer \<Rightarrow> nat \<Rightarrow> string \<Rightarrow> redisServer" where
  "addReplyError s c err = addReplyErrorLength s c (lit err)"

text \<open>The argument is the formatted string.\<close>

definition addReplyErrorFormat :: "redisServer \<Rightarrow> nat \<Rightarrow> bytes \<Rightarrow> redisServer" where
  "addReplyErrorFormat s c str =
     addReplyErrorLength s c (map (\<lambda>b. if b = 13 \<or> b = 10 then 32 else b) str)"

definition addReplyStatusLength :: "redisServer \<Rightarrow> nat \<Rightarrow> bytes \<Rightarrow> redisServer" where
  "addReplyStatusLength s c str =
     addReplyString (addReplyString (addReplyString s c (lit ''+'')) c str) c crlf"

definition addReplyStatus :: "redisServer \<Rightarrow> nat \<Rightarrow> string \<Rightarrow> redisServer" where
  "addReplyStatus s c status = addReplyStatusLength s c (lit status)"

definition addReplyLongLongWithPrefix :: "redisServer \<Rightarrow> nat \<Rightarrow> i64 \<Rightarrow> string \<Rightarrow> redisServer option" where
  "addReplyLongLongWithPrefix s c ll prefix =
     (if prefix = ''*'' \<and> sint ll < OBJ_SHARED_BULKHDR_LEN \<and> sint ll \<ge> 0
      then Some (addReply s c (shared_mbulkhdr (nat (sint ll))))
      else if prefix = ''$'' \<and> sint ll < OBJ_SHARED_BULKHDR_LEN \<and> sint ll \<ge> 0
      then Some (addReply s c (shared_bulkhdr (nat (sint ll))))
      else do { b \<leftarrow> ll2str 127 ll; Some (addReplyString s c (lit prefix @ b @ crlf)) })"

definition addReplyLongLong :: "redisServer \<Rightarrow> nat \<Rightarrow> i64 \<Rightarrow> redisServer option" where
  "addReplyLongLong s c ll =
     (if ll = 0 then Some (addReply s c shared_czero)
      else if ll = 1 then Some (addReply s c shared_cone)
      else addReplyLongLongWithPrefix s c ll '':'')"

definition addReplyMultiBulkLen :: "redisServer \<Rightarrow> nat \<Rightarrow> nat \<Rightarrow> redisServer option" where
  "addReplyMultiBulkLen s c n =
     (if int n < OBJ_SHARED_BULKHDR_LEN then Some (addReply s c (shared_mbulkhdr n))
      else addReplyLongLongWithPrefix s c (of_nat n) ''*'')"

text \<open>The number of bytes of an integer in radix 10, \<open>long\<close> arithmetic wrapping as negation does
  for \<open>LONG_MIN\<close>; division truncates.\<close>

function radix10_len :: "int \<Rightarrow> nat \<Rightarrow> nat" where
  "radix10_len n len =
     (let n' = (if n < 0 then - ((- n) div 10) else n div 10) in
      if n' \<noteq> 0 then radix10_len n' (len + 1) else len)"
  by pat_completeness auto
termination
  by (relation "measure (\<lambda>(n, len). nat \<bar>n\<bar>)") (auto split: if_splits)

declare radix10_len.simps [simp del]

definition addReplyBulkLenObj :: "redisServer \<Rightarrow> nat \<Rightarrow> robj \<Rightarrow> redisServer option" where
  "addReplyBulkLenObj s c ob =
     do { len \<leftarrow> (case ptr ob of
             Str_RAW b \<Rightarrow> Some (length b)
           | Str_EMBSTR b \<Rightarrow> Some (length b)
           | Str_INT n \<Rightarrow>
               let (n, len) = (if sint n < 0 then (- n, 2) else (n, 1)) in
               Some (radix10_len (sint n) len)
           | _ \<Rightarrow> None);
          if int len < OBJ_SHARED_BULKHDR_LEN then Some (addReply s c (shared_bulkhdr len))
          else addReplyLongLongWithPrefix s c (of_nat len) ''$'' }"

definition addReplyBulkObj :: "redisServer \<Rightarrow> nat \<Rightarrow> robj \<Rightarrow> redisServer option" where
  "addReplyBulkObj s c ob =
     do { s \<leftarrow> addReplyBulkLenObj s c ob; s \<leftarrow> addReplyObj s c ob; Some (addReply s c crlf) }"

definition addReplyBulkCBuffer :: "redisServer \<Rightarrow> nat \<Rightarrow> bytes \<Rightarrow> redisServer option" where
  "addReplyBulkCBuffer s c p =
     do { s \<leftarrow> addReplyLongLongWithPrefix s c (of_nat (length p)) ''$'';
          Some (addReply (addReplyString s c p) c crlf) }"

text \<open>\<open>addReplyBulk\<close> of a string that is not integer encoded, such as an argument of a command.\<close>

definition addReplyBulk :: "redisServer \<Rightarrow> nat \<Rightarrow> bytes \<Rightarrow> redisServer option" where
  "addReplyBulk s c b =
     do { s \<leftarrow> (if int (length b) < OBJ_SHARED_BULKHDR_LEN then Some (addReply s c (shared_bulkhdr (length b)))
               else addReplyLongLongWithPrefix s c (of_nat (length b)) ''$'');
          Some (addReply (addReply s c b) c crlf) }"

definition addReplyBulkLongLong :: "redisServer \<Rightarrow> nat \<Rightarrow> i64 \<Rightarrow> redisServer option" where
  "addReplyBulkLongLong s c ll = do { b \<leftarrow> ll2str 64 ll; addReplyBulkCBuffer s c b }"

section \<open>Array lengths that are known last\<close>

definition addDeferredMultiBulkLength :: "redisServer \<Rightarrow> nat \<Rightarrow> nat option \<times> redisServer" where
  "addDeferredMultiBulkLength s c =
     (let (ok, s) = prepareClientToWrite s c in
      if \<not> ok then (None, s)
      else (Some (length (c_reply (clients s c))),
            upd_cl c (\<lambda>cl. cl\<lparr>c_reply := c_reply cl @ [None]\<rparr>) s))"

definition setDeferredMultiBulkLength :: "redisServer \<Rightarrow> nat \<Rightarrow> nat option \<Rightarrow> nat \<Rightarrow> redisServer option" where
  "setDeferredMultiBulkLength s c node n =
     (let lenstr = lit ''*'' @ dec n @ crlf; cl = clients s c; rl = c_reply cl in
      case node of
        None \<Rightarrow> Some s
      | Some ln \<Rightarrow>
          if ln < length rl \<and> rl ! ln = None then
            let s =
              (case (if Suc ln < length rl then rl ! Suc ln else None) of
                 Some next \<Rightarrow>
                   if rb_size next - length (rb_buf next) \<ge> length lenstr \<and>
                      length (rb_buf next) < PROTO_REPLY_CHUNK_BYTES * 4
                   then upd_cl c (\<lambda>cl. cl\<lparr>c_reply :=
                          take ln rl @ Some (next\<lparr>rb_buf := lenstr @ rb_buf next\<rparr>) # drop (ln + 2) rl\<rparr>) s
                   else
                     let size = usable s (length lenstr + SIZEOF_clientReplyBlock) - SIZEOF_clientReplyBlock in
                     upd_cl c (\<lambda>cl. cl\<lparr>c_reply := rl[ln := Some \<lparr>rb_size = size, rb_buf = lenstr\<rparr>],
                                        c_reply_bytes := c_reply_bytes cl + size\<rparr>) s
               | None \<Rightarrow>
                   let size = usable s (length lenstr + SIZEOF_clientReplyBlock) - SIZEOF_clientReplyBlock in
                   upd_cl c (\<lambda>cl. cl\<lparr>c_reply := rl[ln := Some \<lparr>rb_size = size, rb_buf = lenstr\<rparr>],
                                      c_reply_bytes := c_reply_bytes cl + size\<rparr>) s) in
            Some (asyncCloseClientOnOutputBufferLimitReached s c)
          else None)"

section \<open>What the reply functions write\<close>

lemma length_decimal_le: "length (decimal v) \<le> 20"
proof (cases "sint v < 0")
  case True
  then show ?thesis using decimal_neg [OF True] length_dec_le [of 19 "unat (- v)"] by simp
next
  case False
  then have "unat v < 9223372036854775808"
    using unat_lt_64 [of v] by (simp add: sint_unat_64 del: of_nat_unat split: if_splits)
  then show ?thesis using False length_dec_le [of 19 "unat v"] by (simp add: decimal_nonneg)
qed

lemma ll2str_decimal [simp]: "21 \<le> n \<Longrightarrow> n < 2 ^ 64 \<Longrightarrow> ll2str n v = Some (decimal v)"
proof -
  assume n: "21 \<le> n" "n < 2 ^ 64"
  moreover have "unat (of_nat n :: u64) = n" using n by (simp add: unat_of_nat)
  ultimately show ?thesis using length_decimal_le [of v]
    by (simp add: ll2str_def ll2string_eq mem_load_def take_map [symmetric] those_map_Some)
qed

lemma decimal_of_nat: "n < 2 ^ 63 \<Longrightarrow> decimal (of_nat n) = dec n"
  by (simp add: decimal_def signed_of_nat signed_take_bit_int_eq_self of_nat_less_numeral_power_cancel_iff)

lemma decimal_shared: "0 \<le> sint v \<Longrightarrow> decimal v = dec (nat (sint v))"
  by (simp add: decimal_def)

text \<open>An item of the protocol: a prefix, an integer and the line end; a bulk string.\<close>

definition item :: "string \<Rightarrow> i64 \<Rightarrow> bytes" where
  "item p v = lit p @ decimal v @ crlf"

definition bulk :: "bytes \<Rightarrow> bytes" where
  "bulk b = item ''$'' (of_nat (length b)) @ b @ crlf"

lemma lit_char [simp]: "lit ''*'' = [42]" "lit ''$'' = [36]" "lit '':'' = [58]" "lit ''+'' = [43]"
  by (simp_all add: lit_def)

lemma addReplyLongLongWithPrefix_item [simp]:
  "addReplyLongLongWithPrefix s c v p = Some (addReplyString s c (item p v))"
  by (auto simp: addReplyLongLongWithPrefix_def addReply_def item_def decimal_shared
      shared_mbulkhdr_def shared_bulkhdr_def)

lemma addReplyLongLong_item [simp]: "addReplyLongLong s c v = Some (addReplyString s c (item '':'' v))"
  by (auto simp: addReplyLongLong_def addReply_def item_def shared_czero_def shared_cone_def lit_def
      decimal_def dec_small)

lemma small_header: "int n < OBJ_SHARED_BULKHDR_LEN \<Longrightarrow> decimal (of_nat n) = dec n"
  by (simp add: decimal_of_nat OBJ_SHARED_BULKHDR_LEN_def)

lemma addReplyMultiBulkLen_item [simp]:
  "addReplyMultiBulkLen s c n = Some (addReplyString s c (item ''*'' (of_nat n)))"
  by (simp add: addReplyMultiBulkLen_def addReply_def item_def shared_mbulkhdr_def small_header)


definition reply_bulk :: "redisServer \<Rightarrow> nat \<Rightarrow> bytes \<Rightarrow> redisServer" where
  "reply_bulk s c b =
     addReplyString (addReplyString (addReplyString s c (item ''$'' (of_nat (length b)))) c b) c crlf"

text \<open>The bytes a string object stands for.\<close>

definition str_of :: "robj \<Rightarrow> bytes option" where
  "str_of ob = (case ptr ob of Str_RAW b \<Rightarrow> Some b | Str_EMBSTR b \<Rightarrow> Some b
     | Str_INT n \<Rightarrow> Some (decimal n) | _ \<Rightarrow> None)"

lemma str_of_type: "str_of ob \<noteq> None \<longleftrightarrow> otype ob = OBJ_STRING"
  by (simp add: str_of_def otype_def split: optr.splits)

lemma radix10_len_dec: "radix10_len n len = len + length (dec (nat \<bar>n\<bar>)) - 1"
proof (induction n len rule: radix10_len.induct)
  case (1 n len)
  define n' where "n' = (if n < 0 then - ((- n) div 10) else n div 10)"
  have abs: "nat \<bar>n'\<bar> = nat \<bar>n\<bar> div 10" by (simp add: n'_def nat_div_distrib)
  show ?case
  proof (cases "n' = 0")
    case True
    then have "nat \<bar>n\<bar> < 10" using abs by simp
    then show ?thesis using True by (subst radix10_len.simps) (simp add: n'_def [symmetric] dec_small)
  next
    case False
    then have "10 \<le> nat \<bar>n\<bar>" using abs by (metis abs_eq_0 div_less nat_0_iff abs_le_zero_iff not_le)
    then have "length (dec (nat \<bar>n\<bar>)) = Suc (length (dec (nat \<bar>n'\<bar>)))"
      by (subst dec.simps) (simp add: abs)
    moreover have "0 < length (dec (nat \<bar>n'\<bar>))" by simp
    ultimately show ?thesis using "1.IH" [OF n'_def False] False
      by (subst radix10_len.simps) (simp add: n'_def [symmetric])
  qed
qed

lemma addReplyBulk_eq [simp]: "addReplyBulk s c b = Some (reply_bulk s c b)"
  by (simp add: addReplyBulk_def addReply_def reply_bulk_def item_def shared_bulkhdr_def small_header)

lemma addReplyBulkCBuffer_eq [simp]: "addReplyBulkCBuffer s c b = Some (reply_bulk s c b)"
  by (simp add: addReplyBulkCBuffer_def addReply_def reply_bulk_def)

lemma addReplyBulkLongLong_eq [simp]: "addReplyBulkLongLong s c v = Some (reply_bulk s c (decimal v))"
  by (simp add: addReplyBulkLongLong_def)

lemma bulk_len_int:
  "radix10_len (sint (if sint v < 0 then - v else v)) (if sint v < 0 then 2 else 1) = length (decimal v)"
proof (cases "sint v < 0")
  case True
  then have "nat \<bar>sint (- v)\<bar> = unat (- v)"
    using decimal_neg(2,3) [OF True] by (simp add: sint_unat_64)
  then show ?thesis using True by (simp add: radix10_len_dec decimal_neg)
next
  case False
  then have "nat \<bar>sint v\<bar> = unat v"
    using unat_lt_64 [of v] by (simp add: sint_unat_64 del: of_nat_unat split: if_splits)
  then show ?thesis using False by (simp add: radix10_len_dec decimal_nonneg)
qed

lemma bulk_len_obj:
  "(case ptr ob of Str_RAW b \<Rightarrow> Some (length b) | Str_EMBSTR b \<Rightarrow> Some (length b)
    | Str_INT n \<Rightarrow>
        let (n, len) = (if sint n < 0 then (- n, 2) else (n, 1)) in Some (radix10_len (sint n) len)
    | _ \<Rightarrow> None) = map_option length (str_of ob)"
proof (cases "ptr ob")
  case (Str_INT n)
  have "(let (n, len) = (if sint n < 0 then (- n, 2) else (n, 1)) in Some (radix10_len (sint n) len)) =
      Some (radix10_len (sint (if sint n < 0 then - n else n)) (if sint n < 0 then 2 else 1))" by simp
  then show ?thesis using bulk_len_int [of n] Str_INT by (simp only: str_of_def optr.case option.map)
qed (simp_all add: str_of_def)

lemma addReplyBulkLenObj_eq:
  "addReplyBulkLenObj s c ob = map_option (\<lambda>b. addReplyString s c (item ''$'' (of_nat (length b)))) (str_of ob)"
  unfolding addReplyBulkLenObj_def bulk_len_obj
  by (cases "str_of ob") (simp_all add: addReply_def item_def shared_bulkhdr_def small_header)

lemma addReplyObj_eq: "addReplyObj s c ob = map_option (addReplyString s c) (str_of ob)"
  by (simp add: addReplyObj_def str_of_def split: optr.split)

lemma addReplyBulkObj_eq: "addReplyBulkObj s c ob = map_option (reply_bulk s c) (str_of ob)"
  by (cases "str_of ob") (simp_all add: addReplyBulkObj_def addReplyBulkLenObj_eq addReplyObj_eq reply_bulk_def addReply_def)


section \<open>Output and what stays as it was\<close>

text \<open>\<open>out\<close> is everything queued for the client, in the order it will be written to the socket;
  \<open>takes_output\<close> tells whether the client takes output; \<open>quiet\<close> erases what the reply functions may
  change, so that \<open>quiet s' = quiet s\<close> says that nothing else changed.\<close>

definition out :: "client \<Rightarrow> bytes" where
  "out cl = c_buf cl @ concat (map (\<lambda>b. case b of None \<Rightarrow> [] | Some b \<Rightarrow> rb_buf b) (c_reply cl))"

definition takes_output :: "client \<Rightarrow> bool" where
  "takes_output cl \<longleftrightarrow>
     CLIENT_CLOSE_AFTER_REPLY \<notin> c_flags cl \<and>
     (CLIENT_LUA \<in> c_flags cl \<or> CLIENT_MODULE \<in> c_flags cl \<or>
      CLIENT_REPLY_OFF \<notin> c_flags cl \<and> CLIENT_REPLY_SKIP \<notin> c_flags cl \<and>
      (CLIENT_MASTER \<in> c_flags cl \<longrightarrow> CLIENT_MASTER_FORCE_REPLY \<in> c_flags cl) \<and> 0 < c_fd cl)"

definition quiet_client :: "client \<Rightarrow> client" where
  "quiet_client cl = cl\<lparr>c_buf := [], c_reply := [], c_reply_bytes := 0, c_obuf_soft_limit_reached_time := 0,
     c_flags := c_flags cl - {CLIENT_PENDING_WRITE, CLIENT_CLOSE_ASAP}\<rparr>"

definition quiet :: "redisServer \<Rightarrow> redisServer" where
  "quiet s = s\<lparr>clients := \<lambda>c. quiet_client (clients s c), clients_pending_write := [], clients_to_close := []\<rparr>"

lemma quiet_client_fields:
  assumes "quiet_client cl' = quiet_client cl"
  shows "c_fd cl' = c_fd cl" "c_db cl' = c_db cl" "c_argv cl' = c_argv cl" "c_cmd cl' = c_cmd cl"
    "c_lastcmd cl' = c_lastcmd cl" "c_commands cl' = c_commands cl"
    "c_mstate_cmd_flags cl' = c_mstate_cmd_flags cl" "c_watched_keys cl' = c_watched_keys cl"
    "c_pubsub_channels cl' = c_pubsub_channels cl" "c_pubsub_patterns cl' = c_pubsub_patterns cl"
    "c_authenticated cl' = c_authenticated cl" "c_replstate cl' = c_replstate cl"
    "c_repl_put_online_on_ack cl' = c_repl_put_online_on_ack cl" "c_woff cl' = c_woff cl"
    "c_peerid cl' = c_peerid cl" "c_name cl' = c_name cl"
  using arg_cong [OF assms, of c_fd] arg_cong [OF assms, of c_db] arg_cong [OF assms, of c_argv]
    arg_cong [OF assms, of c_cmd] arg_cong [OF assms, of c_lastcmd] arg_cong [OF assms, of c_commands]
    arg_cong [OF assms, of c_mstate_cmd_flags] arg_cong [OF assms, of c_watched_keys]
    arg_cong [OF assms, of c_pubsub_channels] arg_cong [OF assms, of c_pubsub_patterns]
    arg_cong [OF assms, of c_authenticated] arg_cong [OF assms, of c_replstate]
    arg_cong [OF assms, of c_repl_put_online_on_ack] arg_cong [OF assms, of c_woff]
    arg_cong [OF assms, of c_peerid] arg_cong [OF assms, of c_name]
  by (simp_all add: quiet_client_def)

lemma quiet_client_flags:
  "quiet_client cl' = quiet_client cl \<Longrightarrow> f \<notin> {CLIENT_PENDING_WRITE, CLIENT_CLOSE_ASAP} \<Longrightarrow>
   f \<in> c_flags cl' \<longleftrightarrow> f \<in> c_flags cl"
  by (drule arg_cong [of _ _ c_flags]) (auto simp: quiet_client_def)

lemma quiet_sel:
  shows "dbs (quiet s) = dbs s" "client_list (quiet s) = client_list s" "slaves (quiet s) = slaves s"
    "monitors (quiet s) = monitors s" "current_client (quiet s) = current_client s"
    "sv_master (quiet s) = sv_master s" "masterhost (quiet s) = masterhost s"
    "repl_slave_ro (quiet s) = repl_slave_ro s" "repl_state (quiet s) = repl_state s"
    "repl_serve_stale_data (quiet s) = repl_serve_stale_data s"
    "repl_min_slaves_to_write (quiet s) = repl_min_slaves_to_write s"
    "repl_min_slaves_max_lag (quiet s) = repl_min_slaves_max_lag s"
    "repl_good_slaves_count (quiet s) = repl_good_slaves_count s" "loading (quiet s) = loading s"
    "lua_caller (quiet s) = lua_caller s" "lua_time_start (quiet s) = lua_time_start s"
    "lua_timedout (quiet s) = lua_timedout s" "mstime (quiet s) = mstime s" "unixtime (quiet s) = unixtime s"
    "timeofday (quiet s) = timeofday s" "cmd_duration (quiet s) = cmd_duration s" "rand_seq (quiet s) = rand_seq s"
    "usable (quiet s) = usable s" "iter_order (quiet s) = iter_order s" "dirty (quiet s) = dirty s"
    "stat_keyspace_hits (quiet s) = stat_keyspace_hits s" "stat_keyspace_misses (quiet s) = stat_keyspace_misses s"
    "stat_expiredkeys (quiet s) = stat_expiredkeys s" "stat_numcommands (quiet s) = stat_numcommands s"
    "cmd_stats (quiet s) = cmd_stats s" "lazyfree_lazy_expire (quiet s) = lazyfree_lazy_expire s"
    "lazyfree_lazy_server_del (quiet s) = lazyfree_lazy_server_del s"
    "cluster_enabled (quiet s) = cluster_enabled s" "slots_to_keys (quiet s) = slots_to_keys s"
    "slots_keys_count (quiet s) = slots_keys_count s" "maxmemory (quiet s) = maxmemory s"
    "maxmemory_policy (quiet s) = maxmemory_policy s" "lfu_log_factor (quiet s) = lfu_log_factor s"
    "lfu_decay_time (quiet s) = lfu_decay_time s" "hz (quiet s) = hz s" "lruclock (quiet s) = lruclock s"
    "set_max_intset_entries (quiet s) = set_max_intset_entries s"
    "hash_max_ziplist_entries (quiet s) = hash_max_ziplist_entries s"
    "hash_max_ziplist_value (quiet s) = hash_max_ziplist_value s" "rdb_child_pid (quiet s) = rdb_child_pid s"
    "aof_child_pid (quiet s) = aof_child_pid s" "pubsub_channels (quiet s) = pubsub_channels s"
    "pubsub_patterns (quiet s) = pubsub_patterns s" "notify_keyspace_events (quiet s) = notify_keyspace_events s"
    "ready_keys (quiet s) = ready_keys s" "aof_state (quiet s) = aof_state s"
    "aof_selected_db (quiet s) = aof_selected_db s" "aof_buf (quiet s) = aof_buf s"
    "aof_rewrite_buf_blocks (quiet s) = aof_rewrite_buf_blocks s" "repl_backlog (quiet s) = repl_backlog s"
    "repl_backlog_size (quiet s) = repl_backlog_size s" "repl_backlog_idx (quiet s) = repl_backlog_idx s"
    "repl_backlog_histlen (quiet s) = repl_backlog_histlen s" "repl_backlog_off (quiet s) = repl_backlog_off s"
    "master_repl_offset (quiet s) = master_repl_offset s" "slaveseldb (quiet s) = slaveseldb s"
    "also_propagate (quiet s) = also_propagate s" "slaveKeysWithExpire (quiet s) = slaveKeysWithExpire s"
    "requirepass (quiet s) = requirepass s" "saveparamslen (quiet s) = saveparamslen s"
    "lastbgsave_status (quiet s) = lastbgsave_status s" "aof_last_write_err (quiet s) = aof_last_write_err s"
    "client_obuf_limits (quiet s) = client_obuf_limits s" "commands (quiet s) = commands s"
    "orig_commands (quiet s) = orig_commands s" "slowlog (quiet s) = slowlog s"
    "slowlog_entry_id (quiet s) = slowlog_entry_id s"
    "slowlog_log_slower_than (quiet s) = slowlog_log_slower_than s" "slowlog_max_len (quiet s) = slowlog_max_len s"
    "latency_monitor_threshold (quiet s) = latency_monitor_threshold s"
    "latency_events (quiet s) = latency_events s" "stop_writes_on_bgsave_err (quiet s) = stop_writes_on_bgsave_err s"
    "aof_last_write_status (quiet s) = aof_last_write_status s" "unixsocket (quiet s) = unixsocket s"
    "proto_max_bulk_len (quiet s) = proto_max_bulk_len s"
  by (simp_all add: quiet_def)

lemma quiet_field: "quiet s' = quiet s \<Longrightarrow> (\<And>s. F (quiet s) = F s) \<Longrightarrow> F s' = F s"
  by metis

lemma quiet_fields:
  assumes "quiet s' = quiet s"
  shows "dbs s' = dbs s" "client_list s' = client_list s" "slaves s' = slaves s" "monitors s' = monitors s"
    "current_client s' = current_client s" "sv_master s' = sv_master s" "masterhost s' = masterhost s"
    "repl_slave_ro s' = repl_slave_ro s" "repl_state s' = repl_state s"
    "repl_serve_stale_data s' = repl_serve_stale_data s" "repl_min_slaves_to_write s' = repl_min_slaves_to_write s"
    "repl_min_slaves_max_lag s' = repl_min_slaves_max_lag s" "repl_good_slaves_count s' = repl_good_slaves_count s"
    "loading s' = loading s" "lua_caller s' = lua_caller s" "lua_time_start s' = lua_time_start s"
    "lua_timedout s' = lua_timedout s" "mstime s' = mstime s" "unixtime s' = unixtime s"
    "timeofday s' = timeofday s" "cmd_duration s' = cmd_duration s" "rand_seq s' = rand_seq s"
    "usable s' = usable s" "iter_order s' = iter_order s" "dirty s' = dirty s"
    "stat_keyspace_hits s' = stat_keyspace_hits s" "stat_keyspace_misses s' = stat_keyspace_misses s"
    "stat_expiredkeys s' = stat_expiredkeys s" "stat_numcommands s' = stat_numcommands s"
    "cmd_stats s' = cmd_stats s" "lazyfree_lazy_expire s' = lazyfree_lazy_expire s"
    "lazyfree_lazy_server_del s' = lazyfree_lazy_server_del s" "cluster_enabled s' = cluster_enabled s"
    "slots_to_keys s' = slots_to_keys s" "slots_keys_count s' = slots_keys_count s" "maxmemory s' = maxmemory s"
    "maxmemory_policy s' = maxmemory_policy s" "lfu_log_factor s' = lfu_log_factor s"
    "lfu_decay_time s' = lfu_decay_time s" "hz s' = hz s" "lruclock s' = lruclock s"
    "set_max_intset_entries s' = set_max_intset_entries s"
    "hash_max_ziplist_entries s' = hash_max_ziplist_entries s"
    "hash_max_ziplist_value s' = hash_max_ziplist_value s" "rdb_child_pid s' = rdb_child_pid s"
    "aof_child_pid s' = aof_child_pid s" "pubsub_channels s' = pubsub_channels s"
    "pubsub_patterns s' = pubsub_patterns s" "notify_keyspace_events s' = notify_keyspace_events s"
    "ready_keys s' = ready_keys s" "aof_state s' = aof_state s" "aof_selected_db s' = aof_selected_db s"
    "aof_buf s' = aof_buf s" "aof_rewrite_buf_blocks s' = aof_rewrite_buf_blocks s" "repl_backlog s' = repl_backlog s"
    "repl_backlog_size s' = repl_backlog_size s" "repl_backlog_idx s' = repl_backlog_idx s"
    "repl_backlog_histlen s' = repl_backlog_histlen s" "repl_backlog_off s' = repl_backlog_off s"
    "master_repl_offset s' = master_repl_offset s" "slaveseldb s' = slaveseldb s"
    "also_propagate s' = also_propagate s" "slaveKeysWithExpire s' = slaveKeysWithExpire s"
    "requirepass s' = requirepass s" "saveparamslen s' = saveparamslen s"
    "lastbgsave_status s' = lastbgsave_status s" "aof_last_write_err s' = aof_last_write_err s"
    "client_obuf_limits s' = client_obuf_limits s" "commands s' = commands s" "orig_commands s' = orig_commands s"
    "slowlog s' = slowlog s" "slowlog_entry_id s' = slowlog_entry_id s"
    "slowlog_log_slower_than s' = slowlog_log_slower_than s" "slowlog_max_len s' = slowlog_max_len s"
    "latency_monitor_threshold s' = latency_monitor_threshold s" "latency_events s' = latency_events s"
    "stop_writes_on_bgsave_err s' = stop_writes_on_bgsave_err s" "aof_last_write_status s' = aof_last_write_status s"
    "unixsocket s' = unixsocket s" "proto_max_bulk_len s' = proto_max_bulk_len s"
  by (rule quiet_field [OF assms], rule quiet_sel)+

lemma quiet_clients: "quiet s' = quiet s \<Longrightarrow> quiet_client (clients s' c) = quiet_client (clients s c)"
  by (drule arg_cong [of _ _ "\<lambda>s. clients s c"]) (simp add: quiet_def)

lemma takes_output_quiet:
  assumes "quiet_client cl' = quiet_client cl"
  shows "takes_output cl' = takes_output cl"
  using quiet_client_flags [OF assms] quiet_client_fields(1) [OF assms] by (simp add: takes_output_def)

lemma quiet_upd_cl: "quiet_client (f (clients s c)) = quiet_client (clients s c) \<Longrightarrow> quiet (upd_cl c f s) = quiet s"
proof -
  assume a: "quiet_client (f (clients s c)) = quiet_client (clients s c)"
  have "(\<lambda>d. quiet_client (((clients s)(c := f (clients s c))) d)) = (\<lambda>d. quiet_client (clients s d))"
    using a by auto
  then show ?thesis by (simp add: quiet_def upd_cl_def)
qed


subsection \<open>The frame of the reply functions\<close>

lemma clients_upd_cl [simp]: "clients (upd_cl c f s) d = (if d = c then f (clients s c) else clients s d)"
  by (simp add: upd_cl_def)

lemma clients_set_flag: "clients (set_flag c fl s) d =
    (if d = c then (clients s c)\<lparr>c_flags := insert fl (flags s c)\<rparr> else clients s d)"
  by (simp add: set_flag_def)

lemma quiet_lists [simp]: "quiet (s\<lparr>clients_pending_write := l\<rparr>) = quiet s" "quiet (s\<lparr>clients_to_close := l\<rparr>) = quiet s"
  by (simp_all add: quiet_def)

lemma quiet_set_flag: "fl \<in> {CLIENT_PENDING_WRITE, CLIENT_CLOSE_ASAP} \<Longrightarrow> quiet (set_flag c fl s) = quiet s"
  unfolding set_flag_def by (rule quiet_upd_cl) (auto simp: quiet_client_def)

lemma prepare_frame:
  "quiet (snd (prepareClientToWrite s c)) = quiet s"
  "d \<noteq> c \<Longrightarrow> clients (snd (prepareClientToWrite s c)) d = clients s d"
  "out (clients (snd (prepareClientToWrite s c)) c) = out (clients s c)"
  "c_reply (clients (snd (prepareClientToWrite s c)) c) = c_reply (clients s c)"
  "CLIENT_CLOSE_AFTER_REPLY \<in> flags (snd (prepareClientToWrite s c)) c \<longleftrightarrow> CLIENT_CLOSE_AFTER_REPLY \<in> flags s c"
  "fst (prepareClientToWrite s c) \<and> CLIENT_CLOSE_AFTER_REPLY \<notin> flags s c \<longleftrightarrow> takes_output (clients s c)"
  by (auto simp: prepareClientToWrite_def clientInstallWriteHandler_def Let_def quiet_set_flag clients_set_flag
      out_def takes_output_def)

lemma async_frame:
  "quiet (asyncCloseClientOnOutputBufferLimitReached s c) = quiet s"
  "d \<noteq> c \<Longrightarrow> clients (asyncCloseClientOnOutputBufferLimitReached s c) d = clients s d"
  "out (clients (asyncCloseClientOnOutputBufferLimitReached s c) c) = out (clients s c)"
proof -
  have q: "quiet (upd_cl c (\<lambda>cl. cl\<lparr>c_obuf_soft_limit_reached_time := t\<rparr>) s) = quiet s" for t
    by (rule quiet_upd_cl) (simp add: quiet_client_def)
  have "\<exists>b t. checkClientOutputBufferLimits s c =
      (b, upd_cl c (\<lambda>cl. cl\<lparr>c_obuf_soft_limit_reached_time := t\<rparr>) s)"
    unfolding checkClientOutputBufferLimits_def Let_def split_beta by (intro exI) (rule refl)
  then obtain b t where l: "checkClientOutputBufferLimits s c =
      (b, upd_cl c (\<lambda>cl. cl\<lparr>c_obuf_soft_limit_reached_time := t\<rparr>) s)" by blast
  show "quiet (asyncCloseClientOnOutputBufferLimitReached s c) = quiet s"
    "d \<noteq> c \<Longrightarrow> clients (asyncCloseClientOnOutputBufferLimitReached s c) d = clients s d"
    "out (clients (asyncCloseClientOnOutputBufferLimitReached s c) c) = out (clients s c)"
    by (auto simp: asyncCloseClientOnOutputBufferLimitReached_def l freeClientAsync_def q quiet_set_flag
        clients_set_flag out_def)
qed

lemma out_snoc: "out (cl\<lparr>c_reply := bs @ [b]\<rparr>) = out (cl\<lparr>c_reply := bs\<rparr>) @ (case b of None \<Rightarrow> [] | Some b \<Rightarrow> rb_buf b)"
  by (simp add: out_def)


lemma list_frame:
  "quiet (u_addReplyStringToList s c str) = quiet s"
  "d \<noteq> c \<Longrightarrow> clients (u_addReplyStringToList s c str) d = clients s d"
  "CLIENT_CLOSE_AFTER_REPLY \<notin> flags s c \<Longrightarrow>
   out (clients (u_addReplyStringToList s c str) c) = out (clients s c) @ str"
proof -
  define cl where "cl = clients s c"
  define tail where "tail = (if c_reply cl = [] then None else last (c_reply cl))"
  define p where "p = (case tail of None \<Rightarrow> (c_reply cl, str) | Some t \<Rightarrow>
      let avail = rb_size t - length (rb_buf t); copy = (if avail \<ge> length str then length str else avail) in
      (butlast (c_reply cl) @ [Some (t\<lparr>rb_buf := rb_buf t @ take copy str\<rparr>)], drop copy str))"
  define cl1 where "cl1 = cl\<lparr>c_reply := fst p\<rparr>"
  define cl2 where "cl2 = (if snd p \<noteq> [] then
      let size = (if length (snd p) < PROTO_REPLY_CHUNK_BYTES then PROTO_REPLY_CHUNK_BYTES else length (snd p));
          tsize = usable s (size + SIZEOF_clientReplyBlock) - SIZEOF_clientReplyBlock in
      cl1\<lparr>c_reply := c_reply cl1 @ [Some \<lparr>rb_size = tsize, rb_buf = snd p\<rparr>], c_reply_bytes := c_reply_bytes cl1 + tsize\<rparr>
      else cl1)"
  have eq: "u_addReplyStringToList s c str = (if CLIENT_CLOSE_AFTER_REPLY \<in> c_flags cl then s
      else asyncCloseClientOnOutputBufferLimitReached (upd_cl c (\<lambda>_. cl2) s) c)"
    unfolding u_addReplyStringToList_def cl2_def cl1_def p_def tail_def cl_def Let_def split_beta by (rule refl)
  have q: "quiet_client cl2 = quiet_client cl"
    by (simp add: cl2_def cl1_def quiet_client_def Let_def)
  then have q: "quiet (upd_cl c (\<lambda>_. cl2) s) = quiet s" by (intro quiet_upd_cl) (simp add: cl_def)
  have "out cl1 @ snd p = out cl @ str"
  proof (cases tail)
    case (Some t)
    then obtain bs where "c_reply cl = bs @ [Some t]"
      by (metis append_butlast_last_id option.distinct(1) tail_def)
    then show ?thesis using Some by (simp add: p_def cl1_def out_def Let_def)
  qed (simp add: p_def cl1_def out_def)
  moreover have "out cl2 = out cl1 @ snd p" by (simp add: cl2_def Let_def out_def)
  ultimately have o: "out cl2 = out cl @ str" by simp
  show "quiet (u_addReplyStringToList s c str) = quiet s"
    "d \<noteq> c \<Longrightarrow> clients (u_addReplyStringToList s c str) d = clients s d"
    "CLIENT_CLOSE_AFTER_REPLY \<notin> flags s c \<Longrightarrow>
     out (clients (u_addReplyStringToList s c str) c) = out (clients s c) @ str"
    by (simp_all add: eq async_frame q o cl_def)
qed

lemma buffer_frame:
  assumes "u_addReplyToBuffer cl str = Some cl'"
  shows "quiet_client cl' = quiet_client cl" "CLIENT_CLOSE_AFTER_REPLY \<notin> c_flags cl \<Longrightarrow> out cl' = out cl @ str"
    "CLIENT_CLOSE_AFTER_REPLY \<in> c_flags cl \<Longrightarrow> cl' = cl"
  using assms by (auto simp: u_addReplyToBuffer_def quiet_client_def out_def Let_def split: if_splits)

lemma addReplyString_frame:
  "quiet (addReplyString s c str) = quiet s"
  "d \<noteq> c \<Longrightarrow> clients (addReplyString s c str) d = clients s d"
  "out (clients (addReplyString s c str) c) = out (clients s c) @ (if takes_output (clients s c) then str else [])"
proof -
  obtain ok s1 where p: "prepareClientToWrite s c = (ok, s1)" by fastforce
  note f = prepare_frame [where s = s and c = c, unfolded p fst_conv snd_conv]
  have clo: "u_addReplyStringToList s1 c str = s1" if "CLIENT_CLOSE_AFTER_REPLY \<in> flags s1 c"
    using that by (simp add: u_addReplyStringToList_def)
  show "quiet (addReplyString s c str) = quiet s"
    using f(1) by (auto simp: addReplyString_def p list_frame split: option.split
        intro!: quiet_upd_cl [THEN trans] dest: buffer_frame(1))
  show "d \<noteq> c \<Longrightarrow> clients (addReplyString s c str) d = clients s d"
    using f(2) by (auto simp: addReplyString_def p list_frame split: option.split)
  show "out (clients (addReplyString s c str) c) = out (clients s c) @ (if takes_output (clients s c) then str else [])"
    using f clo by (auto simp: addReplyString_def p list_frame split: option.split dest: buffer_frame(2,3))
qed


text \<open>A placeholder in the reply list, with the output queued before and after it.\<close>

definition blocks :: "clientReplyBlock option list \<Rightarrow> bytes" where
  "blocks bs = concat (map (\<lambda>b. case b of None \<Rightarrow> [] | Some b \<Rightarrow> rb_buf b) bs)"

definition deferred :: "client \<Rightarrow> nat \<Rightarrow> bytes \<Rightarrow> bytes \<Rightarrow> bool" where
  "deferred cl ln pre post \<longleftrightarrow> ln < length (c_reply cl) \<and> c_reply cl ! ln = None \<and>
     pre = c_buf cl @ blocks (take ln (c_reply cl)) \<and> post = blocks (drop (Suc ln) (c_reply cl))"

lemma blocks_simps [simp]: "blocks [] = []" "blocks (xs @ ys) = blocks xs @ blocks ys"
  "blocks (None # xs) = blocks xs" "blocks (Some b # xs) = rb_buf b @ blocks xs"
  by (simp_all add: blocks_def)

lemma out_blocks: "out cl = c_buf cl @ blocks (c_reply cl)"
  by (simp add: out_def blocks_def)

lemma deferred_quiet:
  "c_buf cl' = c_buf cl \<Longrightarrow> c_reply cl' = c_reply cl \<Longrightarrow> deferred cl' ln pre post = deferred cl ln pre post"
  by (simp add: deferred_def)

lemma deferred_append_block:
  "deferred cl ln pre post \<Longrightarrow> c_buf cl' = c_buf cl \<Longrightarrow> c_reply cl' = c_reply cl @ [Some b] \<Longrightarrow>
   deferred cl' ln pre (post @ rb_buf b)"
  by (auto simp: deferred_def nth_append)

lemma deferred_extend_tail:
  "deferred cl ln pre post \<Longrightarrow> c_buf cl' = c_buf cl \<Longrightarrow> c_reply cl = bs @ [Some t] \<Longrightarrow>
   c_reply cl' = bs @ [Some (t\<lparr>rb_buf := rb_buf t @ str\<rparr>)] \<Longrightarrow> deferred cl' ln pre (post @ str)"
  by (auto simp: deferred_def nth_append less_Suc_eq)

lemma async_buffers:
  "c_buf (clients (asyncCloseClientOnOutputBufferLimitReached s c) c) = c_buf (clients s c)"
  "c_reply (clients (asyncCloseClientOnOutputBufferLimitReached s c) c) = c_reply (clients s c)"
proof -
  have "\<exists>b t. checkClientOutputBufferLimits s c =
      (b, upd_cl c (\<lambda>cl. cl\<lparr>c_obuf_soft_limit_reached_time := t\<rparr>) s)"
    unfolding checkClientOutputBufferLimits_def Let_def split_beta by (intro exI) (rule refl)
  then obtain b t where l: "checkClientOutputBufferLimits s c =
      (b, upd_cl c (\<lambda>cl. cl\<lparr>c_obuf_soft_limit_reached_time := t\<rparr>) s)" by blast
  show "c_buf (clients (asyncCloseClientOnOutputBufferLimitReached s c) c) = c_buf (clients s c)"
    "c_reply (clients (asyncCloseClientOnOutputBufferLimitReached s c) c) = c_reply (clients s c)"
    by (simp_all add: asyncCloseClientOnOutputBufferLimitReached_def l freeClientAsync_def clients_set_flag)
qed

lemma list_deferred:
  assumes d: "deferred (clients s c) ln pre post" and cl: "CLIENT_CLOSE_AFTER_REPLY \<notin> flags s c"
  shows "deferred (clients (u_addReplyStringToList s c str) c) ln pre (post @ str)"
proof -
  define bl where "bl = (\<lambda>rest. \<lparr>rb_size = usable s ((if length rest < PROTO_REPLY_CHUNK_BYTES
      then PROTO_REPLY_CHUNK_BYTES else length rest) + SIZEOF_clientReplyBlock) - SIZEOF_clientReplyBlock, rb_buf = rest\<rparr>)"
  have ne: "c_reply (clients s c) \<noteq> []" using d by (auto simp: deferred_def)
  show ?thesis
  proof (cases "last (c_reply (clients s c))")
    case None
    show ?thesis
    proof (cases "str = []")
      case False
      then show ?thesis using ne None cl deferred_append_block [OF d, where b = "bl str"]
        by (simp add: u_addReplyStringToList_def Let_def deferred_quiet [OF async_buffers] bl_def)
    qed (use ne None cl d in \<open>simp add: u_addReplyStringToList_def Let_def async_buffers deferred_def\<close>)
  next
    case (Some t)
    then obtain bs where bs: "c_reply (clients s c) = bs @ [Some t]" by (metis append_butlast_last_id ne)
    define k where "k = (if rb_size t - length (rb_buf t) \<ge> length str then length str else rb_size t - length (rb_buf t))"
    define cl1 where "cl1 = (clients s c)\<lparr>c_reply := bs @ [Some (t\<lparr>rb_buf := rb_buf t @ take k str\<rparr>)]\<rparr>"
    have d1: "deferred cl1 ln pre (post @ take k str)"
      by (rule deferred_extend_tail [OF d _ bs]) (simp_all add: cl1_def)
    have eq: "clients (u_addReplyStringToList s c str) c =
        clients (asyncCloseClientOnOutputBufferLimitReached (upd_cl c (\<lambda>_. if drop k str \<noteq> [] then
          cl1\<lparr>c_reply := c_reply cl1 @ [Some (bl (drop k str))], c_reply_bytes := c_reply_bytes cl1 + rb_size (bl (drop k str))\<rparr>
          else cl1) s) c) c"
      using cl bs by (simp add: u_addReplyStringToList_def Let_def bl_def cl1_def k_def)
    have "deferred (if drop k str \<noteq> [] then
          cl1\<lparr>c_reply := c_reply cl1 @ [Some (bl (drop k str))], c_reply_bytes := c_reply_bytes cl1 + rb_size (bl (drop k str))\<rparr>
          else cl1) ln pre (post @ str)"
    proof (cases "drop k str = []")
      case True
      then have "take k str = str" by simp
      then show ?thesis using d1 True by simp
    next
      case False
      have "rb_buf (bl (drop k str)) = drop k str" by (simp add: bl_def)
      then show ?thesis using deferred_append_block [OF d1, where b = "bl (drop k str)"] False by simp
    qed
    then show ?thesis by (simp add: eq deferred_quiet [OF async_buffers])
  qed
qed


lemma prepare_buffers:
  "c_buf (clients (snd (prepareClientToWrite s c)) c) = c_buf (clients s c)"
  by (auto simp: prepareClientToWrite_def clientInstallWriteHandler_def Let_def clients_set_flag)

lemma addReplyString_deferred:
  assumes d: "deferred (clients s c) ln pre post" and t: "takes_output (clients s c)"
  shows "deferred (clients (addReplyString s c str) c) ln pre (post @ str)"
proof -
  obtain ok s1 where p: "prepareClientToWrite s c = (ok, s1)" by fastforce
  note f = prepare_frame [where s = s and c = c, unfolded p fst_conv snd_conv]
    prepare_buffers [of s c, unfolded p snd_conv]
  have ok: "ok" "CLIENT_CLOSE_AFTER_REPLY \<notin> flags s1 c" using f(5,6) t by auto
  have d1: "deferred (clients s1 c) ln pre post" using d by (simp only: deferred_quiet [OF f(7) f(4)])
  then have "u_addReplyToBuffer (clients s1 c) str = None"
    using ok by (auto simp: u_addReplyToBuffer_def deferred_def Let_def)
  then show ?thesis using list_deferred [OF d1 ok(2)] ok(1) by (simp add: addReplyString_def p)
qed

lemma addDeferred_frame:
  assumes "takes_output (clients s c)"
  shows "\<exists>ln s1. addDeferredMultiBulkLength s c = (Some ln, s1) \<and> quiet s1 = quiet s \<and>
    (\<forall>d. d \<noteq> c \<longrightarrow> clients s1 d = clients s d) \<and> deferred (clients s1 c) ln (out (clients s c)) []"
proof -
  obtain ok s1 where p: "prepareClientToWrite s c = (ok, s1)" by fastforce
  note f = prepare_frame [where s = s and c = c, unfolded p fst_conv snd_conv]
    prepare_buffers [of s c, unfolded p snd_conv]
  have "quiet (upd_cl c (\<lambda>cl. cl\<lparr>c_reply := c_reply cl @ [None]\<rparr>) s1) = quiet s1"
    by (rule quiet_upd_cl) (simp add: quiet_client_def)
  moreover have ok: ok using f(6) assms by simp
  moreover have "deferred (clients (upd_cl c (\<lambda>cl. cl\<lparr>c_reply := c_reply cl @ [None]\<rparr>) s1) c)
      (length (c_reply (clients s1 c))) (out (clients s1 c)) []"
    by (simp add: deferred_def out_blocks)
  ultimately show ?thesis using f(1,2,3) by (simp add: addDeferredMultiBulkLength_def p)
qed

lemma setDeferred_frame:
  assumes d: "deferred (clients s c) ln pre post"
  shows "\<exists>s'. setDeferredMultiBulkLength s c (Some ln) n = Some s' \<and> quiet s' = quiet s \<and>
    (\<forall>d. d \<noteq> c \<longrightarrow> clients s' d = clients s d) \<and> out (clients s' c) = pre @ lit ''*'' @ dec n @ crlf @ post"
proof -
  define cl where "cl = clients s c"
  define rl where "rl = c_reply cl"
  define lenstr where "lenstr = lit ''*'' @ dec n @ crlf"
  have l: "ln < length rl" "rl ! ln = None" and pre: "pre = c_buf cl @ blocks (take ln rl)"
    and post: "post = blocks (drop (Suc ln) rl)" using d by (auto simp: deferred_def rl_def cl_def)
  have *: "\<exists>s'. Some (asyncCloseClientOnOutputBufferLimitReached (upd_cl c f s) c) = Some s' \<and> quiet s' = quiet s \<and>
      (\<forall>d. d \<noteq> c \<longrightarrow> clients s' d = clients s d) \<and> out (clients s' c) = pre @ lenstr @ post"
    if "quiet_client (f cl) = quiet_client cl" "out (f cl) = pre @ lenstr @ post" for f
    using that quiet_upd_cl [of f s c] by (simp add: async_frame cl_def)
  have new: "out (cl\<lparr>c_reply := rl[ln := Some \<lparr>rb_size = size, rb_buf = lenstr\<rparr>], c_reply_bytes := k\<rparr>) = pre @ lenstr @ post" for size k
    using l by (simp add: out_blocks pre post upd_conv_take_nth_drop)
  have glue: "out (cl\<lparr>c_reply := take ln rl @ Some (nx\<lparr>rb_buf := lenstr @ rb_buf nx\<rparr>) # drop (ln + 2) rl\<rparr>) = pre @ lenstr @ post"
    if "Suc ln < length rl" "rl ! Suc ln = Some nx" for nx
    using that by (simp add: out_blocks pre post Cons_nth_drop_Suc [symmetric, of "Suc ln"])
  note new' = * [of "\<lambda>cl. cl\<lparr>c_reply := rl[ln := Some \<lparr>rb_size = size, rb_buf = lenstr\<rparr>],
      c_reply_bytes := c_reply_bytes cl + size\<rparr>" for size, OF _ new]
  note glue' = * [of "\<lambda>cl. cl\<lparr>c_reply := take ln rl @ Some (nx\<lparr>rb_buf := lenstr @ rb_buf nx\<rparr>) # drop (ln + 2) rl\<rparr>" for nx,
      OF _ glue]
  have "\<exists>s'. setDeferredMultiBulkLength s c (Some ln) n = Some s' \<and> quiet s' = quiet s \<and>
      (\<forall>d. d \<noteq> c \<longrightarrow> clients s' d = clients s d) \<and> out (clients s' c) = pre @ lenstr @ post"
  proof (cases "if Suc ln < length rl then rl ! Suc ln else None")
    case None
    show ?thesis
      unfolding setDeferredMultiBulkLength_def lenstr_def [symmetric] cl_def [symmetric] rl_def [symmetric] Let_def
      using l None new' by (simp add: quiet_client_def)
  next
    case (Some nx)
    then have nx: "Suc ln < length rl" "rl ! Suc ln = Some nx" by (auto split: if_splits)
    show ?thesis
      unfolding setDeferredMultiBulkLength_def lenstr_def [symmetric] cl_def [symmetric] rl_def [symmetric] Let_def
      using l Some new' glue' [OF _ nx] by (simp add: quiet_client_def)
  qed
  then show ?thesis by (simp add: lenstr_def)
qed


subsection \<open>Rewriting with the frame\<close>

lemmas addReplyString_sel [simp] = quiet_fields [OF addReplyString_frame(1)]
lemmas addReplyString_cl [simp] = quiet_client_fields [OF quiet_clients [OF addReplyString_frame(1)]]
lemmas addReplyString_takes [simp] = takes_output_quiet [OF quiet_clients [OF addReplyString_frame(1)]]
lemmas addReplyString_quiet [simp] = addReplyString_frame(1)
lemmas addReplyString_other [simp] = addReplyString_frame(2)
lemmas addReplyString_out [simp] = addReplyString_frame(3)

lemma addReplyString_flags [simp]:
  "f \<notin> {CLIENT_PENDING_WRITE, CLIENT_CLOSE_ASAP} \<Longrightarrow>
   f \<in> flags (addReplyString s c str) d \<longleftrightarrow> f \<in> flags s d"
  by (rule quiet_client_flags [OF quiet_clients [OF addReplyString_frame(1)]])

lemmas reply_defs [simp] = addReply_def reply_bulk_def addReplyError_def addReplyErrorFormat_def
  addReplyErrorLength_def addReplyStatus_def addReplyStatusLength_def


lemma addReplyStrings_deferred:
  "deferred (clients s c) ln pre post \<Longrightarrow> takes_output (clients s c) \<Longrightarrow>
   deferred (clients (fold (\<lambda>x s. addReplyString s c x) strs s) c) ln pre (post @ concat strs)"
proof (induction strs arbitrary: s post)
  case (Cons x strs)
  show ?case using Cons.IH [OF addReplyString_deferred [OF Cons.prems, of x]] Cons.prems(2) by simp
qed simp

text \<open>C11: an array whose length is only known at the end.  The placeholder, the elements queued after
  it, and the length stored last give the client the length first and then the elements, whether
  the length gets a block of its own or is glued in front of the next one.\<close>

theorem deferred_array_reply:
  assumes "takes_output (clients s c)"
  shows "\<exists>s'. (let (node, s1) = addDeferredMultiBulkLength s c;
        s2 = fold (\<lambda>x s. addReplyString s c x) strs s1 in setDeferredMultiBulkLength s2 c node n) = Some s' \<and>
    out (clients s' c) = out (clients s c) @ lit ''*'' @ dec n @ crlf @ concat strs"
proof -
  obtain ln s1 where a: "addDeferredMultiBulkLength s c = (Some ln, s1)" "quiet s1 = quiet s"
    "deferred (clients s1 c) ln (out (clients s c)) []"
    using addDeferred_frame [OF assms] by blast
  have "takes_output (clients s1 c)" using takes_output_quiet [OF quiet_clients [OF a(2)]] assms by simp
  from setDeferred_frame [OF addReplyStrings_deferred [OF a(3) this], of strs n]
  show ?thesis by (auto simp: a(1))
qed

lemma clients_init_server [simp]: "clients (init_server n cls cids ord cmds t) = cls"
  by (simp add: init_server_def)

lemma plain_client_output [simp]: "takes_output plain_client" "out plain_client = []"
  by (simp_all add: plain_client_def takes_output_def out_def)

theorem deferred_array_reply_witness:
  "takes_output plain_client \<and> (\<exists>s'. (let (node, s1) = addDeferredMultiBulkLength
        (init_server 1 (\<lambda>_. plain_client) [0] (\<lambda>_. []) Map.empty 1) 0;
        s2 = fold (\<lambda>x s. addReplyString s 0 x) [lit '':7''] s1 in setDeferredMultiBulkLength s2 0 node 1) = Some s' \<and>
    out (clients s' 0) = lit ''*1'' @ crlf @ lit '':7'')"
  using deferred_array_reply [of "init_server 1 (\<lambda>_. plain_client) [0] (\<lambda>_. []) Map.empty 1" 0 "[lit '':7'']" 1]
  by (simp add: lit_def dec_small)

end
