(* ===== verification/Glob.thy ===== *)
theory Glob
  imports Prelude
begin

text \<open>Glob style pattern matching, \<open>stringmatchlen\<close> of \<open>util.c\<close>.  The pattern is the buffer it is
  stored in, read by index, so that a read past the buffer is the value \<open>None\<close>; the subject string,
  which the code only ever advances over, is the list of its remaining bytes.  The reference is a
  parser from patterns to a list of tokens and a matching function on tokens.\<close>

section \<open>The matcher\<close>

definition rd :: "u8 list \<Rightarrow> nat \<Rightarrow> u8 option" where
  "rd b i = (if i < length b then Some (b ! i) else None)"

text \<open>\<open>tolower\<close> of the C locale, on a \<open>char\<close> promoted to \<open>int\<close>.\<close>

definition tolower :: "int \<Rightarrow> int" where
  "tolower c = (if 65 \<le> c \<and> c \<le> 90 then c + 32 else c)"

function skip_stars :: "u8 list \<Rightarrow> nat \<Rightarrow> nat \<Rightarrow> int \<Rightarrow> (nat \<times> int) option" where
  "skip_stars pat off p plen =
     do { x \<leftarrow> rd pat (p + off);
          if x = 42 then skip_stars pat off (p + 1) (plen - 1) else Some (p, plen) }"
  by pat_completeness auto
termination
  by (relation "measure (\<lambda>(pat, off, p, plen). length pat - p)") (auto simp: rd_def split: if_splits)

definition stringmatchlen_range :: "bool \<Rightarrow> u8 \<Rightarrow> u8 \<Rightarrow> u8 \<Rightarrow> bool" where
  "stringmatchlen_range nocase p0 p2 s0 =
     (let start = sint p0; end = sint p2; c = sint s0;
          (start, end) = (if start > end then (end, start) else (start, end));
          (start, end, c) = (if nocase then (tolower start, tolower end, tolower c) else (start, end, c)) in
      c \<ge> start \<and> c \<le> end)"

function stringmatchlen_class ::
  "bool \<Rightarrow> u8 list \<Rightarrow> nat \<Rightarrow> int \<Rightarrow> u8 \<Rightarrow> bool \<Rightarrow> (nat \<times> int \<times> bool) option" where
  "stringmatchlen_class nocase pat p plen c m =
     do { p0 \<leftarrow> rd pat p;
          if p0 = 92 \<and> plen \<ge> 2 then
            do { x \<leftarrow> rd pat (p + 1);
                 stringmatchlen_class nocase pat (p + 2) (plen - 2) c (m \<or> x = c) }
          else if p0 = 93 then Some (p, plen, m)
          else if plen = 0 then Some (p - 1, plen + 1, m)
          else
            do { p1 \<leftarrow> rd pat (p + 1);
                 if p1 = 45 \<and> plen \<ge> 3 then
                   do { p2 \<leftarrow> rd pat (p + 2);
                        stringmatchlen_class nocase pat (p + 3) (plen - 3) c
                          (m \<or> stringmatchlen_range nocase p0 p2 c) }
                 else
                   stringmatchlen_class nocase pat (p + 1) (plen - 1) c
                     (m \<or> (if \<not> nocase then p0 = c else tolower (sint p0) = tolower (sint c))) } }"
  by pat_completeness auto
termination
  by (relation "measure (\<lambda>(nocase, pat, p, plen, c, m). length pat - p)")
    (auto simp: rd_def split: if_splits)

declare skip_stars.simps [simp del] stringmatchlen_class.simps [simp del]

lemma skip_stars_le: "skip_stars pat off p plen = Some (p', plen') \<Longrightarrow> p \<le> p'"
proof (induction pat off p plen rule: skip_stars.induct)
  case (1 pat off p plen)
  from "1.prems" show ?case
    by (subst (asm) skip_stars.simps) (force simp: bind_eq_Some_conv split: if_splits dest: "1.IH")
qed

text \<open>A pattern element other than \<open>*\<close> against one byte: where the element ends (the index and
  remaining length of its last byte) and whether it accepts the byte.\<close>

definition stringmatchlen_elem :: "bool \<Rightarrow> u8 list \<Rightarrow> nat \<Rightarrow> int \<Rightarrow> u8 \<Rightarrow> (nat \<times> int \<times> bool) option" where
  "stringmatchlen_elem nocase pat p plen c =
     do { p0 \<leftarrow> rd pat p;
          if p0 = 63 then Some (p, plen, True)
          else if p0 = 91 then
            do { n0 \<leftarrow> rd pat (p + 1);
                 if n0 = 94 then
                   do { (p, plen, m) \<leftarrow> stringmatchlen_class nocase pat (p + 2) (plen - 2) c False;
                        Some (p, plen, \<not> m) }
                 else stringmatchlen_class nocase pat (p + 1) (plen - 1) c False }
          else
            let (p, plen) = (if p0 = 92 \<and> plen \<ge> 2 then (p + 1, plen - 1) else (p, plen)) in
            do { p0 \<leftarrow> rd pat p;
                 Some (p, plen, if \<not> nocase then p0 = c else tolower (sint p0) = tolower (sint c)) } }"

lemma stringmatchlen_class_le:
  "stringmatchlen_class nocase pat p plen c m = Some (p', plen', m') \<Longrightarrow> p \<le> Suc p'"
proof (induction nocase pat p plen c m rule: stringmatchlen_class.induct)
  case (1 nocase pat p plen c m)
  obtain p0 where p0: "rd pat p = Some p0"
    using "1.prems" by (subst (asm) stringmatchlen_class.simps) (auto simp: bind_eq_Some_conv)
  note u = "1.prems" [unfolded stringmatchlen_class.simps [of nocase pat p] p0 bind.bind_lunit]
  consider (esc) "p0 = 92 \<and> plen \<ge> 2" | (close) "\<not> (p0 = 92 \<and> plen \<ge> 2)" "p0 = 93 \<or> plen = 0"
    | (item) "\<not> (p0 = 92 \<and> plen \<ge> 2)" "p0 \<noteq> 93" "plen \<noteq> 0" by blast
  then show ?case
  proof cases
    case esc
    then show ?thesis using u by (auto simp: bind_eq_Some_conv dest!: "1.IH"(1) [OF p0 esc, simplified])
  next
    case close
    then show ?thesis using u by (auto split: if_splits)
  next
    case item
    show ?thesis
    proof (cases "rd pat (p + 1)")
      case None
      then show ?thesis using u item by simp
    next
      case (Some p1)
      show ?thesis
      proof (cases "p1 = 45 \<and> plen \<ge> 3")
        case True
        then show ?thesis using u item Some
          by (auto simp: bind_eq_Some_conv Let_def split: if_splits
              dest!: "1.IH"(2) [OF p0 item Some True, simplified])
      next
        case False
        then show ?thesis using u item Some by (auto dest!: "1.IH"(3) [OF p0 item Some False, simplified])
      qed
    qed
  qed
qed

lemma stringmatchlen_elem_le:
  "stringmatchlen_elem nocase pat p plen c = Some (p', plen', m) \<Longrightarrow> p \<le> p'"
  by (auto simp: stringmatchlen_elem_def bind_eq_Some_conv Let_def
      dest!: stringmatchlen_class_le split: if_splits)

function stringmatchlen_at :: "bool \<Rightarrow> u8 list \<Rightarrow> nat \<Rightarrow> int \<Rightarrow> u8 list \<Rightarrow> bool option"
  and stringmatchlen_star :: "bool \<Rightarrow> u8 list \<Rightarrow> nat \<Rightarrow> int \<Rightarrow> u8 list \<Rightarrow> bool option" where
  "stringmatchlen_at nocase pat p plen t =
     (if plen \<noteq> 0 \<and> t \<noteq> [] then
        do { p0 \<leftarrow> rd pat p;
             if p0 = 42 then
               do { (p, plen) \<leftarrow> skip_stars pat 1 p plen;
                    if plen = 1 then Some True
                    else stringmatchlen_star nocase pat (p + 1) (plen - 1) t }
             else
               do { (p, plen, m) \<leftarrow> stringmatchlen_elem nocase pat p plen (hd t);
                    if \<not> m then Some False
                    else if tl t = [] then
                      do { (p, plen) \<leftarrow> skip_stars pat 0 (p + 1) (plen - 1); Some (plen = 0) }
                    else stringmatchlen_at nocase pat (p + 1) (plen - 1) (tl t) } }
      else Some (plen = 0 \<and> t = []))"
| "stringmatchlen_star nocase pat p plen t =
     (if t \<noteq> [] then
        do { r \<leftarrow> stringmatchlen_at nocase pat p plen t;
             if r then Some True else stringmatchlen_star nocase pat p plen (tl t) }
      else Some False)"
  by pat_completeness auto
termination
  apply (relation "measures [\<lambda>x. case x of Inl (nc, pat, p, plen, t) \<Rightarrow> length pat - p | Inr (nc, pat, p, plen, t) \<Rightarrow> length pat - p,
      \<lambda>x. case x of Inl y \<Rightarrow> 0 | Inr y \<Rightarrow> Suc 0,
      \<lambda>x. case x of Inl (nc, pat, p, plen, t) \<Rightarrow> length t | Inr (nc, pat, p, plen, t) \<Rightarrow> length t]")
  apply (auto simp: rd_def split: if_splits dest!: skip_stars_le stringmatchlen_elem_le)
  done

declare stringmatchlen_at.simps [simp del] stringmatchlen_star.simps [simp del]

definition stringmatchlen :: "u8 list \<Rightarrow> int \<Rightarrow> u8 list \<Rightarrow> bool \<Rightarrow> bool option" where
  "stringmatchlen pattern patternLen str nocase = stringmatchlen_at nocase pattern 0 patternLen str"

section \<open>Patterns as tokens\<close>

datatype citem = CEsc u8 | CRange u8 u8 | CLit u8
datatype gtok = Star | One | Cls bool "citem list" | Lit u8

fun parse_cls :: "u8 list \<Rightarrow> citem list \<times> u8 list" where
  "parse_cls [] = ([], [])"
| "parse_cls (a # p) =
     (if a = 92 \<and> p \<noteq> [] then map_prod (Cons (CEsc (hd p))) id (parse_cls (tl p))
      else if a = 93 then ([], p)
      else if 2 \<le> length p \<and> hd p = 45 then map_prod (Cons (CRange a (p ! 1))) id (parse_cls (drop 2 p))
      else map_prod (Cons (CLit a)) id (parse_cls p))"

lemma parse_cls_length: "length (snd (parse_cls p)) \<le> length p"
proof (induction p rule: parse_cls.induct)
  case (2 a p)
  then show ?case by (auto simp: min_def split: if_splits)
qed simp

function parse_glob :: "u8 list \<Rightarrow> gtok list" where
  "parse_glob [] = []"
| "parse_glob (c # p) =
     (if c = 42 then Star # parse_glob p
      else if c = 63 then One # parse_glob p
      else if c = 91 then
        (let neg = (p \<noteq> [] \<and> hd p = 94); (its, r) = parse_cls (if neg then tl p else p) in
         Cls neg its # parse_glob r)
      else if c = 92 \<and> p \<noteq> [] then Lit (hd p) # parse_glob (tl p)
      else Lit c # parse_glob p)"
  by pat_completeness auto
termination
proof (relation "measure length", goal_cases)
  case (4 c p neg x its r)
  then have "length r \<le> length (if neg then tl p else p)" by (metis parse_cls_length snd_conv)
  also have "\<dots> \<le> length p" by simp
  finally show ?case by simp
qed auto

section \<open>Matching tokens\<close>

definition same_byte :: "bool \<Rightarrow> u8 \<Rightarrow> u8 \<Rightarrow> bool" where
  "same_byte nc a c = (if nc then tolower (sint a) = tolower (sint c) else a = c)"

definition in_byte_range :: "bool \<Rightarrow> u8 \<Rightarrow> u8 \<Rightarrow> u8 \<Rightarrow> bool" where
  "in_byte_range nc a b c =
     (let f = (if nc then tolower else id) in
      f (min (sint a) (sint b)) \<le> f (sint c) \<and> f (sint c) \<le> f (max (sint a) (sint b)))"

fun item_accepts :: "bool \<Rightarrow> u8 \<Rightarrow> citem \<Rightarrow> bool" where
  "item_accepts nc c (CEsc a) = (a = c)"
| "item_accepts nc c (CRange a b) = in_byte_range nc a b c"
| "item_accepts nc c (CLit a) = same_byte nc a c"

fun tok_accepts :: "bool \<Rightarrow> gtok \<Rightarrow> u8 \<Rightarrow> bool" where
  "tok_accepts nc Star c = False"
| "tok_accepts nc One c = True"
| "tok_accepts nc (Cls neg its) c = (neg \<noteq> list_ex (item_accepts nc c) its)"
| "tok_accepts nc (Lit a) c = same_byte nc a c"

text \<open>A star stands for any number of bytes, every other token for one byte it accepts.\<close>

fun glob :: "bool \<Rightarrow> gtok list \<Rightarrow> u8 list \<Rightarrow> bool" where
  "glob nc [] s = (s = [])"
| "glob nc (k # ts) s =
     (if k = Star then list_ex (\<lambda>n. glob nc ts (drop n s)) [0..<Suc (length s)]
      else s \<noteq> [] \<and> tok_accepts nc k (hd s) \<and> glob nc ts (tl s))"

lemma glob_star: "glob nc (Star # ts) s \<longleftrightarrow> (\<exists>n\<le>length s. glob nc ts (drop n s))"
  by (auto simp: list_ex_iff less_Suc_eq_le Bex_def simp del: upt_Suc)

lemma glob_star_star [simp]: "glob nc (Star # Star # ts) s = glob nc (Star # ts) s"
proof -
  have "(\<exists>n\<le>length s. \<exists>m\<le>length s - n. glob nc ts (drop (m + n) s)) \<longleftrightarrow> (\<exists>n\<le>length s. glob nc ts (drop n s))"
    by (metis add_0 add_le_imp_le_diff diff_zero le0 le_diff_conv2 le_add_diff_inverse2)
  then show ?thesis by (simp only: glob_star drop_drop length_drop)
qed

lemma glob_Nil: "glob nc ts [] \<longleftrightarrow> set ts \<subseteq> {Star}"
  by (induction ts) auto

lemma parse_glob_nonstar: "c \<noteq> 42 \<Longrightarrow> \<exists>k ts. parse_glob (c # p) = k # ts \<and> k \<noteq> Star"
  by (simp add: Let_def split_beta)

lemma parse_glob_stars: "set (parse_glob p) \<subseteq> {Star} \<longleftrightarrow> set p \<subseteq> {42}"
proof (induction p)
  case (Cons c p)
  then show ?case
  proof (cases "c = 42")
    case False
    then show ?thesis using parse_glob_nonstar [OF False, of p] by auto
  qed simp
qed simp

section \<open>The class loop\<close>

lemma rd_nul: "i \<le> length P \<Longrightarrow> rd (P @ [0]) i = Some (if i < length P then P ! i else 0)"
  by (auto simp: rd_def nth_append)

lemma range_eq: "stringmatchlen_range nc a b c = in_byte_range nc a b c"
  by (auto simp: stringmatchlen_range_def in_byte_range_def Let_def min_def max_def)

lemma class_spec:
  assumes "0 < i" "i \<le> length P" "parse_cls (drop i P) = (its, r)"
  shows "\<exists>j. stringmatchlen_class nc (P @ [0]) i (int (length P) - int i) c m =
      Some (j, int (length P) - int j, m \<or> list_ex (item_accepts nc c) its) \<and>
    i \<le> Suc j \<and> j < length P \<and> r = drop (Suc j) P"
  using assms
proof (induction "length P - i" arbitrary: i m its r rule: less_induct)
  case less
  show ?case
  proof (cases "i = length P")
    case True
    then show ?thesis using less.prems
      by (intro exI [of _ "i - 1"]) (subst stringmatchlen_class.simps, auto simp: rd_nul Suc_le_eq of_nat_diff)
  next
    case False
    then have i: "i < length P" using less.prems by simp
    have d: "drop i P = P ! i # drop (Suc i) P" using i by (simp add: Cons_nth_drop_Suc)
    have rd0: "rd (P @ [0]) i = Some (P ! i)" using i by (simp add: rd_nul)
    note u = stringmatchlen_class.simps [of nc "P @ [0]" i "int (length P) - int i" c m, unfolded rd0 bind.bind_lunit]
    have ih: "\<exists>j. stringmatchlen_class nc (P @ [0]) (i + k) (int (length P) - int i - int k) c (m \<or> item_accepts nc c x) =
        Some (j, int (length P) - int j, m \<or> list_ex (item_accepts nc c) its) \<and>
        i \<le> Suc j \<and> j < length P \<and> r = drop (Suc j) P"
      if k: "0 < k" "i + k \<le> length P"
        and p: "parse_cls (drop i P) = map_prod (Cons x) id (parse_cls (drop (i + k) P))" for k x
    proof -
      obtain its' where "parse_cls (drop (i + k) P) = (its', r)" "its = x # its'"
        using p less.prems(3) by (cases "parse_cls (drop (i + k) P)") auto
      then show ?thesis using less.hyps [of "i + k" its' r "m \<or> item_accepts nc c x"] k i
        by (force simp: diff_diff_eq)
    qed
    have d1: "hd (drop (Suc i) P) = P ! Suc i" "tl (drop (Suc i) P) = drop (i + 2) P" if "Suc i < length P"
      using that by (simp_all add: hd_drop_conv_nth tl_drop drop_Suc nth_tl)
    consider (esc) "P ! i = 92 \<and> Suc i < length P" | (close) "\<not> (P ! i = 92 \<and> Suc i < length P)" "P ! i = 93"
      | (range) "\<not> (P ! i = 92 \<and> Suc i < length P)" "P ! i \<noteq> 93" "Suc (Suc i) < length P" "P ! Suc i = 45"
      | (lit) "\<not> (P ! i = 92 \<and> Suc i < length P)" "P ! i \<noteq> 93" "\<not> (Suc (Suc i) < length P \<and> P ! Suc i = 45)"
      by blast
    then show ?thesis
    proof cases
      case esc
      then have "parse_cls (drop i P) = map_prod (Cons (CEsc (P ! Suc i))) id (parse_cls (drop (i + 2) P))"
        by (simp add: d d1)
      from ih [OF _ _ this] esc show ?thesis by (subst u) (simp add: rd_nul)
    next
      case close
      then show ?thesis using less.prems(3) i by (subst u) (auto simp: d)
    next
      case range
      then have "parse_cls (drop i P) = map_prod (Cons (CRange (P ! i) (P ! (i + 2)))) id (parse_cls (drop (i + 3) P))"
        by (simp add: d d1 drop_drop add.commute numeral_3_eq_3)
      from ih [OF _ _ this] range show ?thesis by (subst u) (auto simp: rd_nul range_eq)
    next
      case lit
      then have "parse_cls (drop i P) = map_prod (Cons (CLit (P ! i))) id (parse_cls (drop (i + 1) P))"
        by (auto simp: d d1)
      from ih [OF _ _ this] lit i show ?thesis by (subst u) (auto simp: rd_nul same_byte_def)
    qed
  qed
qed

section \<open>The matcher implements the token semantics\<close>

lemma elem_spec:
  assumes i: "i < length P" and ns: "P ! i \<noteq> 42"
  shows "\<exists>j k. stringmatchlen_elem nc (P @ [0]) i (int (length P) - int i) c =
      Some (j, int (length P) - int j, tok_accepts nc k c) \<and>
    i \<le> j \<and> j < length P \<and> parse_glob (drop i P) = k # parse_glob (drop (Suc j) P) \<and> k \<noteq> Star"
proof -
  have d: "drop i P = P ! i # drop (Suc i) P" using i by (simp add: Cons_nth_drop_Suc)
  have rd0: "rd (P @ [0]) i = Some (P ! i)" using i by (simp add: rd_nul)
  have d1: "hd (drop (Suc i) P) = P ! Suc i" "tl (drop (Suc i) P) = drop (i + 2) P" if "Suc i < length P"
    using that by (simp_all add: hd_drop_conv_nth tl_drop drop_Suc nth_tl)
  note u = stringmatchlen_elem_def [of nc "P @ [0]" i "int (length P) - int i" c, unfolded rd0 bind.bind_lunit]
  consider (one) "P ! i = 63" | (ncls) "P ! i = 91" "Suc i < length P \<and> P ! Suc i = 94"
    | (cls) "P ! i = 91" "\<not> (Suc i < length P \<and> P ! Suc i = 94)"
    | (esc) "P ! i \<noteq> 63" "P ! i \<noteq> 91" "P ! i = 92 \<and> Suc i < length P"
    | (lit) "P ! i \<noteq> 63" "P ! i \<noteq> 91" "\<not> (P ! i = 92 \<and> Suc i < length P)" by blast
  then show ?thesis
  proof cases
    case one
    then show ?thesis using i by (intro exI [of _ i] exI [of _ One]) (simp add: u d)
  next
    case ncls
    obtain its r where p: "parse_cls (drop (i + 2) P) = (its, r)" by fastforce
    moreover have "0 < i + 2" "i + 2 \<le> length P" using ncls by simp_all
    ultimately obtain j where
      "stringmatchlen_class nc (P @ [0]) (i + 2) (int (length P) - int (i + 2)) c False =
        Some (j, int (length P) - int j, False \<or> list_ex (item_accepts nc c) its)"
      and j: "i + 2 \<le> Suc j" "j < length P" "r = drop (Suc j) P" using class_spec by metis
    then have c: "stringmatchlen_class nc (P @ [0]) (i + 2) (int (length P) - int i - 2) c False =
        Some (j, int (length P) - int j, list_ex (item_accepts nc c) its)" by (simp add: diff_diff_eq add.commute)
    then show ?thesis using ncls i j p
      by (intro exI [of _ j] exI [of _ "Cls True its"]) (subst u, simp add: d d1 rd_nul)
  next
    case cls
    obtain its r where p: "parse_cls (drop (i + 1) P) = (its, r)" by fastforce
    moreover have "0 < i + 1" "i + 1 \<le> length P" using i by simp_all
    ultimately obtain j where
      "stringmatchlen_class nc (P @ [0]) (i + 1) (int (length P) - int (i + 1)) c False =
        Some (j, int (length P) - int j, False \<or> list_ex (item_accepts nc c) its)"
      and j: "i + 1 \<le> Suc j" "j < length P" "r = drop (Suc j) P" using class_spec by metis
    then have c: "stringmatchlen_class nc (P @ [0]) (i + 1) (int (length P) - int i - 1) c False =
        Some (j, int (length P) - int j, list_ex (item_accepts nc c) its)" by (simp add: diff_diff_eq add.commute)
    have "\<not> (drop (Suc i) P \<noteq> [] \<and> hd (drop (Suc i) P) = 94)" using cls d1 by auto
    then show ?thesis using cls i j p c
      by (intro exI [of _ j] exI [of _ "Cls False its"]) (subst u, auto simp: d rd_nul)
  next
    case esc
    then show ?thesis using i
      by (intro exI [of _ "Suc i"] exI [of _ "Lit (P ! Suc i)"])
        (subst u, auto simp: d d1 rd_nul same_byte_def diff_diff_eq)
  next
    case lit
    then show ?thesis using i ns
      by (intro exI [of _ i] exI [of _ "Lit (P ! i)"]) (subst u, auto simp: d rd0 same_byte_def)
  qed
qed

lemma skip_stars_spec:
  assumes "i + off \<le> length P"
  shows "\<exists>n. skip_stars (P @ [0]) off i plen = Some (i + n, plen - int n) \<and> i + n + off \<le> length P \<and>
    take n (drop (i + off) P) = replicate n 42 \<and> (i + n + off < length P \<longrightarrow> P ! (i + n + off) \<noteq> 42)"
  using assms
proof (induction "length P - i" arbitrary: i plen rule: less_induct)
  case less
  show ?case
  proof (cases "i + off < length P \<and> P ! (i + off) = 42")
    case False
    then show ?thesis using less.prems
      by (intro exI [of _ 0]) (subst skip_stars.simps, auto simp: rd_nul)
  next
    case True
    then obtain n where n: "skip_stars (P @ [0]) off (i + 1) (plen - 1) = Some (i + 1 + n, plen - 1 - int n)"
      "i + 1 + n + off \<le> length P" "take n (drop (i + 1 + off) P) = replicate n 42"
      "i + 1 + n + off < length P \<longrightarrow> P ! (i + 1 + n + off) \<noteq> 42"
      using less.hyps [of "i + 1" "plen - 1"] True by (auto simp: diff_less_mono2)
    have "take (Suc n) (drop (i + off) P) = replicate (Suc n) 42"
      using True n(3) by (simp add: Cons_nth_drop_Suc [symmetric])
    then show ?thesis using n True
      by (intro exI [of _ "Suc n"]) (subst skip_stars.simps, auto simp: rd_nul)
  qed
qed

lemma glob_stars_append: "glob nc (parse_glob (42 # replicate n 42 @ p)) s = glob nc (parse_glob (42 # p)) s"
  by (induction n) (simp_all del: glob.simps)

text \<open>What the matcher decides.  The loop is not entered for an empty subject, so a pattern made of
  stars does not match it.\<close>

definition glob_decides :: "bool \<Rightarrow> u8 list \<Rightarrow> u8 list \<Rightarrow> bool" where
  "glob_decides nc p t = (if t = [] then p = [] else glob nc (parse_glob p) t)"

lemma star_loop_spec:
  assumes at: "\<And>t. stringmatchlen_at nc pat i plen t = Some (glob_decides nc p t)"
    and p: "p \<noteq> []" "hd p \<noteq> 42"
  shows "stringmatchlen_star nc pat i plen t = Some (glob nc (Star # parse_glob p) t)"
proof (induction t)
  case Nil
  have "\<not> set p \<subseteq> {42}" using p by (cases p) auto
  then show ?case by (subst stringmatchlen_star.simps) (simp add: glob_Nil parse_glob_stars)
next
  case (Cons c t)
  have "glob nc (Star # parse_glob p) (c # t) \<longleftrightarrow> glob nc (parse_glob p) (c # t) \<or> glob nc (Star # parse_glob p) t"
    unfolding glob_star by (metis Suc_le_mono drop_Suc_Cons drop_0 le0 length_Cons not0_implies_Suc)
  then show ?case using Cons by (subst stringmatchlen_star.simps) (simp add: at glob_decides_def del: glob.simps)
qed

lemma stringmatchlen_at_spec:
  "i \<le> length P \<Longrightarrow>
   stringmatchlen_at nc (P @ [0]) i (int (length P) - int i) t = Some (glob_decides nc (drop i P) t)"
proof (induction "length P - i" arbitrary: i t rule: less_induct)
  case less
  show ?case
  proof (cases "i = length P \<or> t = []")
    case True
    then show ?thesis using less.prems by (subst stringmatchlen_at.simps) (auto simp: glob_decides_def)
  next
    case False
    then have i: "i < length P" and t: "t \<noteq> []" using less.prems by auto
    have d: "drop i P = P ! i # drop (Suc i) P" using i by (simp add: Cons_nth_drop_Suc)
    have rd0: "rd (P @ [0]) i = Some (P ! i)" using i by (simp add: rd_nul)
    have nz: "(int (length P) - int i \<noteq> 0 \<and> t \<noteq> []) = True" using i t by simp
    note u = stringmatchlen_at.simps [of nc "P @ [0]" i "int (length P) - int i" t,
        unfolded rd0 bind.bind_lunit nz if_True]
    show ?thesis
    proof (cases "P ! i = 42")
      case True
      obtain n where n: "skip_stars (P @ [0]) 1 i (int (length P) - int i) = Some (i + n, int (length P) - int i - int n)"
        "i + n + 1 \<le> length P" "take n (drop (i + 1) P) = replicate n 42"
        "i + n + 1 < length P \<longrightarrow> P ! (i + n + 1) \<noteq> 42"
        using skip_stars_spec [of i 1 P] i by auto
      let ?q = "drop (i + n + 1) P"
      have "drop (Suc i) P = replicate n 42 @ ?q"
        using n(3) append_take_drop_id [of n "drop (Suc i) P"] by (simp add: add.commute)
      then have g: "glob_decides nc (drop i P) t = glob nc (Star # parse_glob ?q) t"
        using t True glob_stars_append [of nc n ?q t] by (simp add: glob_decides_def d del: glob.simps)
      show ?thesis
      proof (cases "i + n + 1 = length P")
        case True
        then have "int (length P) - int i - int n = 1" by simp
        moreover have "glob nc (Star # parse_glob ?q) t" using True by (auto simp: glob_star)
        ultimately show ?thesis using \<open>P ! i = 42\<close> n(1) by (simp add: u g del: glob.simps)
      next
        case False
        then have q: "?q \<noteq> []" "hd ?q \<noteq> 42" using n by (auto simp: hd_drop_conv_nth)
        have e: "int (length P) - int i - int n - 1 = int (length P) - int (i + n + 1)" by simp
        have "stringmatchlen_star nc (P @ [0]) (i + n + 1) (int (length P) - int (i + n + 1)) t =
            Some (glob nc (Star # parse_glob ?q) t)"
          using star_loop_spec [OF _ q] less.hyps [of "i + n + 1"] n(2) i by (metis diff_less_mono2 less_add_Suc1 Suc_eq_plus1)
        moreover have "int (length P) - int i - int n \<noteq> 1" using False n(2) by simp
        ultimately show ?thesis using \<open>P ! i = 42\<close> n(1)
          by (simp only: u g prod.case bind.bind_lunit simp_thms if_True if_False e)
      qed
    next
      case ns: False
      obtain j k where e: "stringmatchlen_elem nc (P @ [0]) i (int (length P) - int i) (hd t) =
          Some (j, int (length P) - int j, tok_accepts nc k (hd t))"
        and j: "i \<le> j" "j < length P" and k: "parse_glob (drop i P) = k # parse_glob (drop (Suc j) P)" "k \<noteq> Star"
        using elem_spec [OF i ns] by blast
      have g: "glob_decides nc (drop i P) t \<longleftrightarrow> tok_accepts nc k (hd t) \<and> glob nc (parse_glob (drop (Suc j) P)) (tl t)"
        using t k by (simp add: glob_decides_def)
      have a: "int (length P) - int j - 1 = int (length P) - int (j + 1)" by simp
      have ih: "stringmatchlen_at nc (P @ [0]) (j + 1) (int (length P) - int (j + 1)) (tl t) =
          Some (glob_decides nc (drop (Suc j) P) (tl t))"
        using less.hyps [of "j + 1" "tl t"] j by simp
      obtain n where n: "skip_stars (P @ [0]) 0 (j + 1) (int (length P) - int (j + 1)) =
            Some (j + 1 + n, int (length P) - int (j + 1) - int n)"
        "j + 1 + n \<le> length P" "take n (drop (j + 1) P) = replicate n 42"
        "j + 1 + n < length P \<longrightarrow> P ! (j + 1 + n) \<noteq> 42"
        using skip_stars_spec [of "j + 1" 0 P "int (length P) - int (j + 1)"] j by auto
      have dj: "drop (Suc j) P = replicate n 42 @ drop (j + 1 + n) P"
        using n(3) append_take_drop_id [of n "drop (Suc j) P"] by (simp add: add.commute)
      have "set (drop (j + 1 + n) P) \<subseteq> {42} \<longleftrightarrow> j + 1 + n = length P"
      proof (cases "j + 1 + n < length P")
        case True
        then have "P ! (j + 1 + n) \<in> set (drop (j + 1 + n) P)" by (metis Cons_nth_drop_Suc list.set_intros(1))
        then show ?thesis using n(4) True by auto
      qed (use n(2) in simp)
      moreover have "set (drop (Suc j) P) \<subseteq> {42} \<longleftrightarrow> set (drop (j + 1 + n) P) \<subseteq> {42}" unfolding dj by auto
      ultimately have gn: "glob nc (parse_glob (drop (Suc j) P)) [] \<longleftrightarrow> int (length P) - int (j + 1) - int n = 0"
        using n(2) by (auto simp: glob_Nil parse_glob_stars)
      show ?thesis
      proof (cases "tok_accepts nc k (hd t)")
        case True
        then show ?thesis using ns gn ih n(1)
          by (simp only: u e g prod.case bind.bind_lunit if_True if_False a not_True_eq_False simp_thms)
            (cases "tl t = []"; simp add: glob_decides_def)
      next
        case False
        then show ?thesis using ns by (simp add: u e g)
      qed
    qed
  qed
qed

text \<open>C10: on a NUL terminated pattern \<open>stringmatchlen\<close> always returns, never reads past the terminator,
  and for a non-empty subject decides exactly whether the pattern, read as a list of glob tokens
  (stars, single bytes, classes with ranges, negation and escapes, an unclosed class included),
  matches the whole subject, with or without case.\<close>

theorem stringmatchlen_correct:
  assumes "str \<noteq> []"
  shows "stringmatchlen (pattern @ [0]) (int (length pattern)) str nocase =
    Some (glob nocase (parse_glob pattern) str)"
  using stringmatchlen_at_spec [of 0 pattern nocase str] assms
  by (simp add: stringmatchlen_def glob_decides_def)

text \<open>The witness matches \<open>h[^x-z]*o\<close> against \<open>hello\<close>.\<close>

theorem stringmatchlen_correct_witness:
  "[104, 101, 108, 108, 111 :: u8] \<noteq> [] \<and>
   stringmatchlen ([104, 91, 94, 120, 45, 122, 93, 42, 111] @ [0]) 9 [104, 101, 108, 108, 111] False = Some True"
proof -
  have "glob False (parse_glob [104, 91, 94, 120, 45, 122, 93, 42, 111]) [104, 101, 108, 108, 111]" by code_simp
  then show ?thesis
    using stringmatchlen_correct [of "[104, 101, 108, 108, 111]" "[104, 91, 94, 120, 45, 122, 93, 42, 111]" False]
    by simp
qed

text \<open>C16: the pattern \<open>*\<close>, and every other non-empty pattern of stars only, is not matched against the
  empty string although it stands for any sequence of bytes.\<close>

theorem stringmatchlen_star_empty:
  assumes "n > 0"
  shows "stringmatchlen (replicate n 42 @ [0]) (int n) [] nocase = Some False \<and>
    glob nocase (parse_glob (replicate n 42)) []"
  using stringmatchlen_at_spec [of 0 "replicate n 42" nocase "[]"] assms
  by (auto simp: stringmatchlen_def glob_decides_def glob_Nil parse_glob_stars)

theorem stringmatchlen_star_empty_witness:
  "(1 :: nat) > 0 \<and> stringmatchlen (replicate 1 42 @ [0]) 1 [] False = Some False"
  using stringmatchlen_star_empty [of 1 False] by simp

end
