(* ===== verification/Pubsub.thy ===== *)
theory Pubsub
  imports Networking Glob
begin

text \<open>Publish/subscribe (\<open>pubsub.c\<close>) and the keyspace notifications that go through it (\<open>notify.c\<close>).
  Messages between the nodes of a cluster (\<open>clusterPropagatePublish\<close>) and event subscriptions of
  modules are not part of the state.\<close>

section \<open>Subscriptions\<close>

definition clientSubscriptionsCount :: "client \<Rightarrow> nat" where
  "clientSubscriptionsCount cl = card (c_pubsub_channels cl) + length (c_pubsub_patterns cl)"

definition pubsubSubscribeChannel :: "redisServer \<Rightarrow> nat \<Rightarrow> bytes \<Rightarrow> (nat \<times> redisServer) option" where
  "pubsubSubscribeChannel s c channel =
     (let (retval, s) =
        (if channel \<notin> c_pubsub_channels (clients s c) then
           let s = upd_cl c (\<lambda>cl. cl\<lparr>c_pubsub_channels := insert channel (c_pubsub_channels cl)\<rparr>) s;
               cls = (case pubsub_channels s channel of None \<Rightarrow> [] | Some cls \<Rightarrow> cls) in
           (1, s\<lparr>pubsub_channels := (pubsub_channels s)(channel \<mapsto> cls @ [c])\<rparr>)
         else (0, s));
        s = addReply s c (shared_mbulkhdr 3);
        s = addReply s c shared_subscribebulk in
      do { s \<leftarrow> addReplyBulk s c channel;
           s \<leftarrow> addReplyLongLong s c (of_nat (clientSubscriptionsCount (clients s c)));
           Some (retval, s) })"

definition pubsubUnsubscribeChannel :: "redisServer \<Rightarrow> nat \<Rightarrow> bytes \<Rightarrow> bool \<Rightarrow> (nat \<times> redisServer) option" where
  "pubsubUnsubscribeChannel s c channel notify =
     do { (retval, s) \<leftarrow>
            (if channel \<in> c_pubsub_channels (clients s c) then
               let s = upd_cl c (\<lambda>cl. cl\<lparr>c_pubsub_channels := c_pubsub_channels cl - {channel}\<rparr>) s in
               do { cls \<leftarrow> pubsub_channels s channel;
                    if c \<in> set cls then
                      let cls = remove1 c cls in
                      Some (1, s\<lparr>pubsub_channels := (pubsub_channels s)(channel := if cls = [] then None else Some cls)\<rparr>)
                    else None }
             else Some (0, s));
          if notify then
            let s = addReply s c (shared_mbulkhdr 3);
                s = addReply s c shared_unsubscribebulk in
            do { s \<leftarrow> addReplyBulk s c channel;
                 s \<leftarrow> addReplyLongLong s c (of_nat (card (c_pubsub_channels (clients s c)) +
                                                   length (c_pubsub_patterns (clients s c))));
                 Some (retval, s) }
          else Some (retval, s) }"

definition pubsubSubscribePattern :: "redisServer \<Rightarrow> nat \<Rightarrow> bytes \<Rightarrow> (nat \<times> redisServer) option" where
  "pubsubSubscribePattern s c pattern =
     (let (retval, s) =
        (if pattern \<notin> set (c_pubsub_patterns (clients s c)) then
           let s = upd_cl c (\<lambda>cl. cl\<lparr>c_pubsub_patterns := c_pubsub_patterns cl @ [pattern]\<rparr>) s in
           (1, s\<lparr>pubsub_patterns := pubsub_patterns s @ [(c, pattern)]\<rparr>)
         else (0, s));
        s = addReply s c (shared_mbulkhdr 3);
        s = addReply s c shared_psubscribebulk in
      do { s \<leftarrow> addReplyBulk s c pattern;
           s \<leftarrow> addReplyLongLong s c (of_nat (clientSubscriptionsCount (clients s c)));
           Some (retval, s) })"

definition pubsubUnsubscribePattern :: "redisServer \<Rightarrow> nat \<Rightarrow> bytes \<Rightarrow> bool \<Rightarrow> (nat \<times> redisServer) option" where
  "pubsubUnsubscribePattern s c pattern notify =
     do { (retval, s) \<leftarrow>
            (if pattern \<in> set (c_pubsub_patterns (clients s c)) then
               let s = upd_cl c (\<lambda>cl. cl\<lparr>c_pubsub_patterns := remove1 pattern (c_pubsub_patterns cl)\<rparr>) s in
               if (c, pattern) \<in> set (pubsub_patterns s)
               then Some (1, s\<lparr>pubsub_patterns := remove1 (c, pattern) (pubsub_patterns s)\<rparr>)
               else None
             else Some (0, s));
          if notify then
            let s = addReply s c (shared_mbulkhdr 3);
                s = addReply s c shared_punsubscribebulk in
            do { s \<leftarrow> addReplyBulk s c pattern;
                 s \<leftarrow> addReplyLongLong s c (of_nat (card (c_pubsub_channels (clients s c)) +
                                                   length (c_pubsub_patterns (clients s c))));
                 Some (retval, s) }
          else Some (retval, s) }"

definition pubsubUnsubscribeAllChannels :: "redisServer \<Rightarrow> nat \<Rightarrow> bool \<Rightarrow> (nat \<times> redisServer) option" where
  "pubsubUnsubscribeAllChannels s c notify =
     do { (count, s) \<leftarrow> foldM (\<lambda>channel (count, s).
              do { (r, s) \<leftarrow> pubsubUnsubscribeChannel s c channel notify; Some (count + r, s) })
            (iter_order s (c_pubsub_channels (clients s c))) (0, s);
          if notify \<and> count = 0 then
            let s = addReply s c (shared_mbulkhdr 3);
                s = addReply s c shared_unsubscribebulk;
                s = addReply s c shared_nullbulk in
            do { s \<leftarrow> addReplyLongLong s c (of_nat (card (c_pubsub_channels (clients s c)) +
                                                   length (c_pubsub_patterns (clients s c))));
                 Some (count, s) }
          else Some (count, s) }"

definition pubsubUnsubscribeAllPatterns :: "redisServer \<Rightarrow> nat \<Rightarrow> bool \<Rightarrow> (nat \<times> redisServer) option" where
  "pubsubUnsubscribeAllPatterns s c notify =
     do { (count, s) \<leftarrow> foldM (\<lambda>pattern (count, s).
              do { (r, s) \<leftarrow> pubsubUnsubscribePattern s c pattern notify; Some (count + r, s) })
            (c_pubsub_patterns (clients s c)) (0, s);
          if notify \<and> count = 0 then
            let s = addReply s c (shared_mbulkhdr 3);
                s = addReply s c shared_punsubscribebulk;
                s = addReply s c shared_nullbulk in
            do { s \<leftarrow> addReplyLongLong s c (of_nat (card (c_pubsub_channels (clients s c)) +
                                                   length (c_pubsub_patterns (clients s c))));
                 Some (count, s) }
          else Some (count, s) }"

section \<open>Publishing\<close>

definition pubsubPublishMessage :: "redisServer \<Rightarrow> bytes \<Rightarrow> bytes \<Rightarrow> (nat \<times> redisServer) option" where
  "pubsubPublishMessage s channel message =
     do { (receivers, s) \<leftarrow>
            (case pubsub_channels s channel of
               None \<Rightarrow> Some (0, s)
             | Some cls \<Rightarrow>
                 foldM (\<lambda>c (receivers, s).
                   let s = addReply s c (shared_mbulkhdr 3);
                       s = addReply s c shared_messagebulk in
                   do { s \<leftarrow> addReplyBulk s c channel;
                        s \<leftarrow> addReplyBulk s c message;
                        Some (receivers + 1, s) }) cls (0, s));
          foldM (\<lambda>(c, pat) (receivers, s).
            do { m \<leftarrow> stringmatchlen (pat @ [0]) (int (length pat)) channel False;
                 if m then
                   let s = addReply s c (shared_mbulkhdr 4);
                       s = addReply s c shared_pmessagebulk in
                   do { s \<leftarrow> addReplyBulk s c pat;
                        s \<leftarrow> addReplyBulk s c channel;
                        s \<leftarrow> addReplyBulk s c message;
                        Some (receivers + 1, s) }
                 else Some (receivers, s) }) (pubsub_patterns s) (receivers, s) }"

section \<open>Keyspace events\<close>

definition NOTIFY_ALL :: "nflag set" where
  "NOTIFY_ALL = {NOTIFY_GENERIC, NOTIFY_STRING, NOTIFY_LIST, NOTIFY_SET, NOTIFY_HASH, NOTIFY_ZSET,
     NOTIFY_EXPIRED, NOTIFY_EVICTED, NOTIFY_STREAM}"

fun keyspaceEventsStringToFlags :: "string \<Rightarrow> nflag set option" where
  "keyspaceEventsStringToFlags [] = Some {}"
| "keyspaceEventsStringToFlags (c # p) =
     do { f \<leftarrow> (if c = CHR ''A'' then Some NOTIFY_ALL
               else if c = CHR ''g'' then Some {NOTIFY_GENERIC}
               else if c = CHR ''$'' then Some {NOTIFY_STRING}
               else if c = CHR ''l'' then Some {NOTIFY_LIST}
               else if c = CHR ''s'' then Some {NOTIFY_SET}
               else if c = CHR ''h'' then Some {NOTIFY_HASH}
               else if c = CHR ''z'' then Some {NOTIFY_ZSET}
               else if c = CHR ''x'' then Some {NOTIFY_EXPIRED}
               else if c = CHR ''e'' then Some {NOTIFY_EVICTED}
               else if c = CHR ''K'' then Some {NOTIFY_KEYSPACE}
               else if c = CHR ''E'' then Some {NOTIFY_KEYEVENT}
               else if c = CHR ''t'' then Some {NOTIFY_STREAM}
               else None);
          fs \<leftarrow> keyspaceEventsStringToFlags p;
          Some (f \<union> fs) }"

definition keyspaceEventsFlagsToString :: "nflag set \<Rightarrow> string" where
  "keyspaceEventsFlagsToString fl =
     (if NOTIFY_ALL \<subseteq> fl then ''A''
      else (if NOTIFY_GENERIC \<in> fl then ''g'' else '''') @
           (if NOTIFY_STRING \<in> fl then ''$'' else '''') @
           (if NOTIFY_LIST \<in> fl then ''l'' else '''') @
           (if NOTIFY_SET \<in> fl then ''s'' else '''') @
           (if NOTIFY_HASH \<in> fl then ''h'' else '''') @
           (if NOTIFY_ZSET \<in> fl then ''z'' else '''') @
           (if NOTIFY_EXPIRED \<in> fl then ''x'' else '''') @
           (if NOTIFY_EVICTED \<in> fl then ''e'' else '''') @
           (if NOTIFY_STREAM \<in> fl then ''t'' else '''')) @
     (if NOTIFY_KEYSPACE \<in> fl then ''K'' else '''') @
     (if NOTIFY_KEYEVENT \<in> fl then ''E'' else '''')"

definition notifyKeyspaceEvent :: "redisServer \<Rightarrow> nflag \<Rightarrow> string \<Rightarrow> bytes \<Rightarrow> nat \<Rightarrow> redisServer option" where
  "notifyKeyspaceEvent s type event key dbid =
     (if type \<notin> notify_keyspace_events s then Some s
      else
        do { buf \<leftarrow> ll2str 24 (of_nat dbid);
             s \<leftarrow> (if NOTIFY_KEYSPACE \<in> notify_keyspace_events s then
                    do { (_, s) \<leftarrow> pubsubPublishMessage s (lit ''__keyspace@'' @ buf @ lit ''__:'' @ key) (lit event); Some s }
                  else Some s);
             if NOTIFY_KEYEVENT \<in> notify_keyspace_events s then
               do { (_, s) \<leftarrow> pubsubPublishMessage s (lit ''__keyevent@'' @ buf @ lit ''__:'' @ lit event) key; Some s }
             else Some s })"

section \<open>Commands\<close>

definition forceCommandPropagation :: "redisServer \<Rightarrow> nat \<Rightarrow> pflag set \<Rightarrow> redisServer" where
  "forceCommandPropagation s c fl =
     (let s = (if PROPAGATE_REPL \<in> fl then set_flag c CLIENT_FORCE_REPL s else s) in
      if PROPAGATE_AOF \<in> fl then set_flag c CLIENT_FORCE_AOF s else s)"

definition subscribeCommand :: "redisServer \<Rightarrow> nat \<Rightarrow> redisServer option" where
  "subscribeCommand s c =
     do { s \<leftarrow> foldM (\<lambda>ch s. do { (_, s) \<leftarrow> pubsubSubscribeChannel s c ch; Some s }) (tl (argv s c)) s;
          Some (set_flag c CLIENT_PUBSUB s) }"

definition unsubscribeCommand :: "redisServer \<Rightarrow> nat \<Rightarrow> redisServer option" where
  "unsubscribeCommand s c =
     do { s \<leftarrow> (if length (argv s c) = 1 then do { (_, s) \<leftarrow> pubsubUnsubscribeAllChannels s c True; Some s }
               else foldM (\<lambda>ch s. do { (_, s) \<leftarrow> pubsubUnsubscribeChannel s c ch True; Some s }) (tl (argv s c)) s);
          Some (if clientSubscriptionsCount (clients s c) = 0 then clear_flags c {CLIENT_PUBSUB} s else s) }"

definition psubscribeCommand :: "redisServer \<Rightarrow> nat \<Rightarrow> redisServer option" where
  "psubscribeCommand s c =
     do { s \<leftarrow> foldM (\<lambda>p s. do { (_, s) \<leftarrow> pubsubSubscribePattern s c p; Some s }) (tl (argv s c)) s;
          Some (set_flag c CLIENT_PUBSUB s) }"

definition punsubscribeCommand :: "redisServer \<Rightarrow> nat \<Rightarrow> redisServer option" where
  "punsubscribeCommand s c =
     do { s \<leftarrow> (if length (argv s c) = 1 then do { (_, s) \<leftarrow> pubsubUnsubscribeAllPatterns s c True; Some s }
               else foldM (\<lambda>p s. do { (_, s) \<leftarrow> pubsubUnsubscribePattern s c p True; Some s }) (tl (argv s c)) s);
          Some (if clientSubscriptionsCount (clients s c) = 0 then clear_flags c {CLIENT_PUBSUB} s else s) }"

definition publishCommand :: "redisServer \<Rightarrow> nat \<Rightarrow> redisServer option" where
  "publishCommand s c =
     do { (receivers, s) \<leftarrow> pubsubPublishMessage s (argv s c ! 1) (argv s c ! 2);
          let s = (if cluster_enabled s then s else forceCommandPropagation s c {PROPAGATE_REPL}) in
          addReplyLongLong s c (of_nat receivers) }"

definition toupper :: "u8 \<Rightarrow> u8" where
  "toupper b = (if 97 \<le> b \<and> b \<le> 122 then b - 32 else b)"

definition addReplyHelp :: "redisServer \<Rightarrow> nat \<Rightarrow> string list \<Rightarrow> redisServer option" where
  "addReplyHelp s c help =
     (let cmd = map toupper (cstr (argv s c ! 0));
          (blenp, s) = addDeferredMultiBulkLength s c;
          s = addReplyStatusLength s c (cmd @ lit '' <subcommand> arg arg ... arg. Subcommands are:'');
          s = fold (\<lambda>h s. addReplyStatus s c h) help s in
      setDeferredMultiBulkLength s c blenp (length help + 1))"

definition addReplySubcommandSyntaxError :: "redisServer \<Rightarrow> nat \<Rightarrow> redisServer" where
  "addReplySubcommandSyntaxError s c =
     addReplyErrorFormat s c
       (lit ''Unknown subcommand or wrong number of arguments for '' @ [39] @ cstr (argv s c ! 1) @ [39] @ lit ''. Try '' @
        map toupper (cstr (argv s c ! 0)) @ lit '' HELP.'')"

definition pubsubCommand :: "redisServer \<Rightarrow> nat \<Rightarrow> redisServer option" where
  "pubsubCommand s c =
     (let av = argv s c; argc = length av in
      if argc = 2 \<and> strcaseeq (av ! 1) ''help'' then
        addReplyHelp s c
          [''CHANNELS [<pattern>] -- Return the currently active channels matching a pattern (default: all).'',
           ''NUMPAT -- Return number of subscriptions to patterns.'',
           ''NUMSUB [channel-1 .. channel-N] -- Returns the number of subscribers for the specified channels (excluding patterns, default: none).'']
      else if strcaseeq (av ! 1) ''channels'' \<and> (argc = 2 \<or> argc = 3) then
        let (replylen, s) = addDeferredMultiBulkLength s c in
        do { (mblen, s) \<leftarrow> foldM (\<lambda>channel (mblen, s).
                 do { m \<leftarrow> (if argc = 2 then Some True
                            else stringmatchlen (av ! 2 @ [0]) (int (length (av ! 2))) channel False);
                      if m then do { s \<leftarrow> addReplyBulk s c channel; Some (mblen + 1, s) } else Some (mblen, s) })
               (iter_order s (dom (pubsub_channels s))) (0, s);
             setDeferredMultiBulkLength s c replylen mblen }
      else if strcaseeq (av ! 1) ''numsub'' \<and> argc \<ge> 2 then
        do { s \<leftarrow> addReplyMultiBulkLen s c ((argc - 2) * 2);
             foldM (\<lambda>ch s. do { s \<leftarrow> addReplyBulk s c ch;
                                addReplyLongLong s c (case pubsub_channels s ch of Some l \<Rightarrow> of_nat (length l) | None \<Rightarrow> 0) })
               (drop 2 av) s }
      else if strcaseeq (av ! 1) ''numpat'' \<and> argc = 2 then
        addReplyLongLong s c (of_nat (length (pubsub_patterns s)))
      else Some (addReplySubcommandSyntaxError s c))"

section \<open>Round trip of the event classes\<close>

lemma eventsToFlags_append:
  "keyspaceEventsStringToFlags (p @ q) =
   do { a \<leftarrow> keyspaceEventsStringToFlags p; b \<leftarrow> keyspaceEventsStringToFlags q; Some (a \<union> b) }"
  by (induction p) (auto simp: Un_assoc bind_assoc split: bind_splits)

lemma event_class:
  "keyspaceEventsStringToFlags (if b then ''g'' else []) = Some (if b then {NOTIFY_GENERIC} else {})"
  "keyspaceEventsStringToFlags (if b then ''$'' else []) = Some (if b then {NOTIFY_STRING} else {})"
  "keyspaceEventsStringToFlags (if b then ''l'' else []) = Some (if b then {NOTIFY_LIST} else {})"
  "keyspaceEventsStringToFlags (if b then ''s'' else []) = Some (if b then {NOTIFY_SET} else {})"
  "keyspaceEventsStringToFlags (if b then ''h'' else []) = Some (if b then {NOTIFY_HASH} else {})"
  "keyspaceEventsStringToFlags (if b then ''z'' else []) = Some (if b then {NOTIFY_ZSET} else {})"
  "keyspaceEventsStringToFlags (if b then ''x'' else []) = Some (if b then {NOTIFY_EXPIRED} else {})"
  "keyspaceEventsStringToFlags (if b then ''e'' else []) = Some (if b then {NOTIFY_EVICTED} else {})"
  "keyspaceEventsStringToFlags (if b then ''t'' else []) = Some (if b then {NOTIFY_STREAM} else {})"
  "keyspaceEventsStringToFlags (if b then ''K'' else []) = Some (if b then {NOTIFY_KEYSPACE} else {})"
  "keyspaceEventsStringToFlags (if b then ''E'' else []) = Some (if b then {NOTIFY_KEYEVENT} else {})"
  "keyspaceEventsStringToFlags ''A'' = Some NOTIFY_ALL"
  by simp_all

text \<open>C15: \<open>keyspaceEventsStringToFlags\<close> undoes \<open>keyspaceEventsFlagsToString\<close>: every set of event classes
  is read back from the string that is shown for it.\<close>

theorem keyspaceEvents_roundtrip: "keyspaceEventsStringToFlags (keyspaceEventsFlagsToString fl) = Some fl"
proof -
  have mem_if: "(x \<in> (if b then {y} else {})) = (b \<and> x = y)" for x y :: nflag and b by simp
  show ?thesis
  proof (cases "NOTIFY_ALL \<subseteq> fl")
    case True
    have "f \<in> NOTIFY_ALL \<union> ((if NOTIFY_KEYSPACE \<in> fl then {NOTIFY_KEYSPACE} else {}) \<union>
        (if NOTIFY_KEYEVENT \<in> fl then {NOTIFY_KEYEVENT} else {})) \<longleftrightarrow> f \<in> fl" for f
      unfolding Un_iff mem_if using True by (cases f) (simp_all add: NOTIFY_ALL_def)
    then have "NOTIFY_ALL \<union> ((if NOTIFY_KEYSPACE \<in> fl then {NOTIFY_KEYSPACE} else {}) \<union>
        (if NOTIFY_KEYEVENT \<in> fl then {NOTIFY_KEYEVENT} else {})) = fl" by (rule set_eqI)
    then show ?thesis
      unfolding keyspaceEventsFlagsToString_def if_P [OF True] eventsToFlags_append event_class bind.bind_lunit
      by simp
  next
    case False
    show ?thesis
      unfolding keyspaceEventsFlagsToString_def if_not_P [OF False] eventsToFlags_append event_class bind.bind_lunit
    proof (rule arg_cong [of _ _ Some], rule set_eqI)
      fix f
      show "f \<in> ((if NOTIFY_GENERIC \<in> fl then {NOTIFY_GENERIC} else {}) \<union>
          ((if NOTIFY_STRING \<in> fl then {NOTIFY_STRING} else {}) \<union>
          ((if NOTIFY_LIST \<in> fl then {NOTIFY_LIST} else {}) \<union>
          ((if NOTIFY_SET \<in> fl then {NOTIFY_SET} else {}) \<union>
          ((if NOTIFY_HASH \<in> fl then {NOTIFY_HASH} else {}) \<union>
          ((if NOTIFY_ZSET \<in> fl then {NOTIFY_ZSET} else {}) \<union>
          ((if NOTIFY_EXPIRED \<in> fl then {NOTIFY_EXPIRED} else {}) \<union>
          ((if NOTIFY_EVICTED \<in> fl then {NOTIFY_EVICTED} else {}) \<union>
           (if NOTIFY_STREAM \<in> fl then {NOTIFY_STREAM} else {}))))))))) \<union>
          ((if NOTIFY_KEYSPACE \<in> fl then {NOTIFY_KEYSPACE} else {}) \<union>
           (if NOTIFY_KEYEVENT \<in> fl then {NOTIFY_KEYEVENT} else {})) \<longleftrightarrow> f \<in> fl"
        unfolding Un_iff mem_if by (cases f) simp_all
    qed
  qed
qed

end
