(* ===== verification/Replication.thy ===== *)
theory Replication
  imports Networking
begin

text \<open>What a master sends on (\<open>replication.c\<close>): the circular backlog, the stream of commands fed to
  the replicas and to the backlog, and the feed of clients in \<open>MONITOR\<close> mode.\<close>

section \<open>The backlog\<close>

definition CONFIG_REPL_BACKLOG_MIN_SIZE :: nat where "CONFIG_REPL_BACKLOG_MIN_SIZE = 1024 * 16"

definition createReplicationBacklog :: "redisServer \<Rightarrow> redisServer option" where
  "createReplicationBacklog s =
     (if repl_backlog s = None then
        Some (s\<lparr>repl_backlog := Some (replicate (repl_backlog_size s) None), repl_backlog_histlen := 0,
                repl_backlog_idx := 0, repl_backlog_off := master_repl_offset s + 1\<rparr>)
      else None)"

definition resizeReplicationBacklog :: "redisServer \<Rightarrow> int \<Rightarrow> redisServer" where
  "resizeReplicationBacklog s newsize =
     (let newsize = (if newsize < int CONFIG_REPL_BACKLOG_MIN_SIZE then int CONFIG_REPL_BACKLOG_MIN_SIZE else newsize) in
      if int (repl_backlog_size s) = newsize then s
      else
        let s = s\<lparr>repl_backlog_size := nat newsize\<rparr> in
        if repl_backlog s \<noteq> None then
          s\<lparr>repl_backlog := Some (replicate (repl_backlog_size s) None), repl_backlog_histlen := 0,
            repl_backlog_idx := 0, repl_backlog_off := master_repl_offset s + 1\<rparr>
        else s)"

definition freeReplicationBacklog :: "redisServer \<Rightarrow> redisServer option" where
  "freeReplicationBacklog s = (if slaves s = [] then Some (s\<lparr>repl_backlog := None\<rparr>) else None)"

partial_function (option) feedReplicationBacklog_loop ::
  "nat \<Rightarrow> mem \<Rightarrow> nat \<Rightarrow> nat \<Rightarrow> bytes \<Rightarrow> (mem \<times> nat \<times> nat) option" where
  "feedReplicationBacklog_loop sz m idx histlen p =
     (if p = [] then Some (m, idx, histlen)
      else
        let thislen = sz - idx;
            thislen = (if thislen > length p then length p else thislen) in
        do { m \<leftarrow> mem_store m idx (take thislen p);
             let idx = idx + thislen; idx = (if idx = sz then 0 else idx) in
             feedReplicationBacklog_loop sz m idx (histlen + thislen) (drop thislen p) })"

definition feedReplicationBacklog :: "redisServer \<Rightarrow> bytes \<Rightarrow> redisServer option" where
  "feedReplicationBacklog s p =
     (let s = s\<lparr>master_repl_offset := master_repl_offset s + int (length p)\<rparr> in
      do { m \<leftarrow> repl_backlog s;
           (m, idx, histlen) \<leftarrow> feedReplicationBacklog_loop (repl_backlog_size s) m (repl_backlog_idx s) (repl_backlog_histlen s) p;
           let histlen = (if histlen > repl_backlog_size s then repl_backlog_size s else histlen) in
           Some (s\<lparr>repl_backlog := Some m, repl_backlog_idx := idx, repl_backlog_histlen := histlen,
                   repl_backlog_off := master_repl_offset s - int histlen + 1\<rparr>) })"

text \<open>\<open>addReplyReplicationBacklog\<close>: the pieces of the buffer from index \<open>j\<close> on, \<open>len\<close> bytes in all.\<close>

partial_function (option) addReplyReplicationBacklog_loop ::
  "redisServer \<Rightarrow> nat \<Rightarrow> mem \<Rightarrow> int \<Rightarrow> int \<Rightarrow> redisServer option" where
  "addReplyReplicationBacklog_loop s c m j len =
     (if len = 0 then Some s
      else
        let thislen = (if int (repl_backlog_size s) - j < len then int (repl_backlog_size s) - j else len) in
        do { b \<leftarrow> (if 0 \<le> j \<and> 0 \<le> thislen then mem_load m (nat j) (nat thislen) else None);
             addReplyReplicationBacklog_loop (addReply s c b) c m 0 (len - thislen) })"

definition addReplyReplicationBacklog :: "redisServer \<Rightarrow> nat \<Rightarrow> int \<Rightarrow> (int \<times> redisServer) option" where
  "addReplyReplicationBacklog s c offset =
     (if repl_backlog_histlen s = 0 then Some (0, s)
      else
        let skip = offset - repl_backlog_off s;
            size = int (repl_backlog_size s);
            j = (int (repl_backlog_idx s) + (size - int (repl_backlog_histlen s))) mod size;
            j = (j + skip) mod size;
            len = int (repl_backlog_histlen s) - skip in
        do { m \<leftarrow> repl_backlog s;
             s \<leftarrow> addReplyReplicationBacklog_loop s c m j len;
             Some (int (repl_backlog_histlen s) - skip, s) })"

section \<open>The command stream\<close>

definition LONG_STR_SIZE :: nat where "LONG_STR_SIZE = 21"
definition PROTO_SHARED_SELECT_CMDS :: int where "PROTO_SHARED_SELECT_CMDS = 10"

text \<open>\<open>shared.select[dictid]\<close> or the same string made on the fly.\<close>

definition select_cmd :: "int \<Rightarrow> bytes option" where
  "select_cmd dictid =
     do { b \<leftarrow> ll2str (if dictid \<ge> 0 \<and> dictid < PROTO_SHARED_SELECT_CMDS then 64 else LONG_STR_SIZE) (of_int dictid);
          Some (lit ''*2'' @ crlf @ lit ''$6'' @ crlf @ lit ''SELECT'' @ crlf @ lit ''$'' @ dec (length b) @ crlf @ b @ crlf) }"

definition replicationFeedSlaves :: "redisServer \<Rightarrow> int \<Rightarrow> bytes list \<Rightarrow> redisServer option" where
  "replicationFeedSlaves s dictid av =
     (if masterhost s \<noteq> None then Some s
      else if repl_backlog s = None \<and> slaves s = [] then Some s
      else if slaves s \<noteq> [] \<and> repl_backlog s = None then None
      else
        do { s \<leftarrow> (if slaveseldb s \<noteq> dictid then
                    do { selectcmd \<leftarrow> select_cmd dictid;
                         s \<leftarrow> (if repl_backlog s \<noteq> None then feedReplicationBacklog s selectcmd else Some s);
                         Some (fold (\<lambda>slave s.
                           if c_replstate (clients s slave) = SLAVE_STATE_WAIT_BGSAVE_START then s
                           else addReply s slave selectcmd) (slaves s) s) }
                  else Some s);
             let s = s\<lparr>slaveseldb := dictid\<rparr> in
             do { s \<leftarrow> (if repl_backlog s \<noteq> None then
                    do { b \<leftarrow> ll2str (LONG_STR_SIZE + 2) (of_nat (length av));
                         s \<leftarrow> feedReplicationBacklog s (lit ''*'' @ b @ crlf);
                         foldM (\<lambda>a s.
                           do { b \<leftarrow> ll2str (LONG_STR_SIZE + 2) (of_nat (length a));
                                s \<leftarrow> feedReplicationBacklog s (lit ''$'' @ b @ crlf);
                                s \<leftarrow> feedReplicationBacklog s a;
                                feedReplicationBacklog s crlf }) av s }
                  else Some s);
             foldM (\<lambda>slave s.
               if c_replstate (clients s slave) = SLAVE_STATE_WAIT_BGSAVE_START then Some s
               else do { s \<leftarrow> addReplyMultiBulkLen s slave (length av);
                         foldM (\<lambda>a s. addReplyBulk s slave a) av s }) (slaves s) s } })"

definition replicationFeedSlavesFromMasterStream :: "redisServer \<Rightarrow> bytes \<Rightarrow> redisServer option" where
  "replicationFeedSlavesFromMasterStream s buf =
     do { s \<leftarrow> (if repl_backlog s \<noteq> None then feedReplicationBacklog s buf else Some s);
          Some (fold (\<lambda>slave s. if c_replstate (clients s slave) = SLAVE_STATE_WAIT_BGSAVE_START then s
                               else addReplyString s slave buf) (slaves s) s) }"

section \<open>Monitors\<close>

definition hexdigit :: "u8 \<Rightarrow> u8" where
  "hexdigit d = (if d < 10 then 48 + d else 87 + d)"

definition isprint :: "u8 \<Rightarrow> bool" where
  "isprint b \<longleftrightarrow> 32 \<le> b \<and> b \<le> 126"

definition repr_byte :: "u8 \<Rightarrow> bytes" where
  "repr_byte b =
     (if b = 92 \<or> b = 34 then [92, b]
      else if b = 10 then lit [CHR 0x5C, CHR ''n'']
      else if b = 13 then lit [CHR 0x5C, CHR ''r'']
      else if b = 9 then lit [CHR 0x5C, CHR ''t'']
      else if b = 7 then lit [CHR 0x5C, CHR ''a'']
      else if b = 8 then lit [CHR 0x5C, CHR ''b'']
      else if isprint b then [b]
      else [92, 120, hexdigit (b div 16), hexdigit (b mod 16)])"

definition sdscatrepr :: "bytes \<Rightarrow> bytes \<Rightarrow> bytes" where
  "sdscatrepr s p = s @ [34] @ concat (map repr_byte p) @ [34]"

text \<open>\<open>%06ld\<close> of a number of microseconds.\<close>

definition six_digits :: "nat \<Rightarrow> bytes" where
  "six_digits n = replicate (6 - length (dec n)) 48 @ dec n"

fun sep_reprs :: "bytes list \<Rightarrow> bytes" where
  "sep_reprs [] = []"
| "sep_reprs [a] = sdscatrepr [] a"
| "sep_reprs (a # b # as) = sdscatrepr [] a @ [32] @ sep_reprs (b # as)"

definition replicationFeedMonitors :: "redisServer \<Rightarrow> nat \<Rightarrow> nat \<Rightarrow> bytes list \<Rightarrow> redisServer" where
  "replicationFeedMonitors s c dictid av =
     (let (sec, usec) = timeofday s;
          cmdrepr = lit ''+'' @ dec sec @ lit ''.'' @ six_digits usec @ lit '' '';
          cmdrepr = cmdrepr @ lit ''['' @ dec dictid @
            (if CLIENT_LUA \<in> flags s c then lit '' lua] ''
             else if CLIENT_UNIX_SOCKET \<in> flags s c then lit '' unix:'' @ unixsocket s @ lit ''] ''
             else lit '' '' @ c_peerid (clients s c) @ lit ''] '');
          cmdrepr = cmdrepr @ sep_reprs av @ crlf in
      fold (\<lambda>monitor s. addReply s monitor cmdrepr) (monitors s) s)"

section \<open>The backlog is a suffix of the stream\<close>

definition lastn :: "nat \<Rightarrow> 'a list \<Rightarrow> 'a list" where
  "lastn n xs = drop (length xs - n) xs"

lemma length_lastn [simp]: "length (lastn n xs) = min n (length xs)"
  by (simp add: lastn_def)

lemma lastn_append_lastn: "lastn n (lastn n xs @ ys) = lastn n (xs @ ys)"
proof (cases "length xs \<le> n")
  case False
  then show ?thesis by (cases "n \<le> length ys") (simp_all add: lastn_def add.commute)
qed (simp add: lastn_def)

definition backlog_cells :: "nat \<Rightarrow> mem \<Rightarrow> nat \<Rightarrow> nat \<Rightarrow> mem" where
  "backlog_cells sz m idx histlen = (if histlen < sz then take histlen m else drop idx m @ take idx m)"

definition backlog_state :: "nat \<Rightarrow> mem \<Rightarrow> nat \<Rightarrow> nat \<Rightarrow> bytes \<Rightarrow> bool" where
  "backlog_state sz m idx histlen w \<longleftrightarrow>
     length m = sz \<and> idx < sz \<and> (histlen < sz \<longrightarrow> idx = histlen) \<and> backlog_cells sz m idx histlen = map Some w"

lemma backlog_state_length: "backlog_state sz m idx h w \<Longrightarrow> length w = min h sz"
  by (drule backlog_state_def [THEN iffD1], elim conjE, drule arg_cong [of _ _ length])
    (auto simp: backlog_cells_def split: if_splits)

lemma backlog_step:
  assumes st: "backlog_state sz m idx h w" and t: "length q \<le> sz - idx"
  shows "\<exists>m'. mem_store m idx q = Some m' \<and>
    backlog_state sz m' (if idx + length q = sz then 0 else idx + length q) (h + length q) (lastn sz (w @ q))"
proof -
  note st' = st [unfolded backlog_state_def]
  have l: "length m = sz" "idx < sz" "idx + length q \<le> sz" using st' t by auto
  define m' where "m' = take idx m @ map Some q @ drop (idx + length q) m"
  have s: "mem_store m idx q = Some m'" using l by (simp add: mem_store_def m'_def)
  have lm: "length m' = sz" using l by (simp add: m'_def)
  have lw: "length w = min h sz" by (rule backlog_state_length [OF st])
  have "backlog_cells sz m' (if idx + length q = sz then 0 else idx + length q) (h + length q) = map Some (lastn sz (w @ q))"
  proof (cases "h < sz")
    case True
    then have "take h m = map Some w" "idx = h" using st' by (auto simp: backlog_cells_def)
    then show ?thesis using True l lw by (auto simp: backlog_cells_def m'_def lastn_def)
  next
    case False
    then have w: "drop idx m @ take idx m = map Some w" using st' by (auto simp: backlog_cells_def)
    then have lw': "length w = sz" using l by (metis length_map length_append length_drop length_take min.absorb4 le_add_diff_inverse2 less_imp_le)
    have "map Some (lastn sz (w @ q)) = drop (length q) (map Some w) @ map Some q"
      using l lw' by (simp add: lastn_def drop_map)
    also have "\<dots> = drop (idx + length q) m @ take idx m @ map Some q"
      unfolding w [symmetric] using l by (simp add: add.commute)
    finally show ?thesis using False l by (auto simp: backlog_cells_def m'_def)
  qed
  moreover have "h + length q < sz \<longrightarrow> idx = h" using st' by auto
  ultimately show ?thesis using s l lm by (auto simp: backlog_state_def)
qed

lemma feed_loop:
  assumes "backlog_state sz m idx h w"
  shows "\<exists>m' idx'. feedReplicationBacklog_loop sz m idx h p = Some (m', idx', h + length p) \<and>
    backlog_state sz m' idx' (h + length p) (lastn sz (w @ p))"
  using assms
proof (induction "length p" arbitrary: m idx h w p rule: less_induct)
  case less
  show ?case
  proof (cases "p = []")
    case True
    then show ?thesis using less.prems backlog_state_length [OF less.prems]
      by (subst feedReplicationBacklog_loop.simps) (simp add: lastn_def)
  next
    case False
    define t where "t = (if sz - idx > length p then length p else sz - idx)"
    have idx: "idx < sz" using less.prems by (simp add: backlog_state_def)
    then have t: "0 < t" "t \<le> length p" "length (take t p) \<le> sz - idx" "length (take t p) = t" using False by (auto simp: t_def)
    obtain m1 where m1: "mem_store m idx (take t p) = Some m1"
      "backlog_state sz m1 (if idx + t = sz then 0 else idx + t) (h + t) (lastn sz (w @ take t p))"
      using backlog_step [OF less.prems t(3)] unfolding t(4) by blast
    obtain m2 idx2 where r: "feedReplicationBacklog_loop sz m1 (if idx + t = sz then 0 else idx + t) (h + t) (drop t p) =
        Some (m2, idx2, h + t + length (drop t p))"
      "backlog_state sz m2 idx2 (h + t + length (drop t p)) (lastn sz (lastn sz (w @ take t p) @ drop t p))"
      using less.hyps [OF _ m1(2), of "drop t p"] t False by auto
    have "h + t + length (drop t p) = h + length p" using t by simp
    moreover have "lastn sz (lastn sz (w @ take t p) @ drop t p) = lastn sz (w @ p)" by (simp add: lastn_append_lastn)
    moreover have "feedReplicationBacklog_loop sz m idx h p =
        feedReplicationBacklog_loop sz m1 (if idx + t = sz then 0 else idx + t) (h + t) (drop t p)"
      by (subst feedReplicationBacklog_loop.simps)
        (simp only: False if_False Let_def t_def [symmetric] m1(1) bind.bind_lunit)
    ultimately show ?thesis using r by simp
  qed
qed


text \<open>The backlog of a server holds the bytes \<open>w\<close>, the last of the stream of \<open>master_repl_offset\<close> bytes.\<close>

definition backlog_holds :: "redisServer \<Rightarrow> bytes \<Rightarrow> bool" where
  "backlog_holds s w \<longleftrightarrow> (case repl_backlog s of None \<Rightarrow> False | Some m \<Rightarrow>
     backlog_state (repl_backlog_size s) m (repl_backlog_idx s) (repl_backlog_histlen s) w \<and>
     repl_backlog_histlen s = length w \<and> repl_backlog_off s = master_repl_offset s - int (length w) + 1)"

lemma backlog_cells_cap: "backlog_cells sz m idx (if h > sz then sz else h) = backlog_cells sz m idx h"
  by (simp add: backlog_cells_def)

lemma feed_backlog:
  assumes "backlog_holds s w"
  shows "\<exists>m idx. feedReplicationBacklog s p = Some (s\<lparr>master_repl_offset := master_repl_offset s + int (length p),
        repl_backlog := Some m, repl_backlog_idx := idx,
        repl_backlog_histlen := min (repl_backlog_size s) (length w + length p),
        repl_backlog_off := master_repl_offset s + int (length p) - int (min (repl_backlog_size s) (length w + length p)) + 1\<rparr>) \<and>
    backlog_holds (s\<lparr>master_repl_offset := master_repl_offset s + int (length p), repl_backlog := Some m,
        repl_backlog_idx := idx, repl_backlog_histlen := min (repl_backlog_size s) (length w + length p),
        repl_backlog_off := master_repl_offset s + int (length p) - int (min (repl_backlog_size s) (length w + length p)) + 1\<rparr>)
      (lastn (repl_backlog_size s) (w @ p))"
proof -
  obtain m where m: "repl_backlog s = Some m" and h: "repl_backlog_histlen s = length w"
    and st: "backlog_state (repl_backlog_size s) m (repl_backlog_idx s) (length w) w"
    using assms by (auto simp: backlog_holds_def split: option.splits)
  obtain m' idx' where l: "feedReplicationBacklog_loop (repl_backlog_size s) m (repl_backlog_idx s) (length w) p =
      Some (m', idx', length w + length p)"
    and st': "backlog_state (repl_backlog_size s) m' idx' (length w + length p) (lastn (repl_backlog_size s) (w @ p))"
    using feed_loop [OF st] by blast
  let ?n = "min (repl_backlog_size s) (length w + length p)"
  have n: "(if length w + length p > repl_backlog_size s then repl_backlog_size s else length w + length p) = ?n" by simp
  have "backlog_state (repl_backlog_size s) m' idx' ?n (lastn (repl_backlog_size s) (w @ p))"
    using st' backlog_cells_cap [of "repl_backlog_size s" m' idx' "length w + length p", unfolded n]
    by (auto simp: backlog_state_def)
  then show ?thesis
    by (intro exI [of _ m'] exI [of _ idx']) (simp add: feedReplicationBacklog_def m h l n Let_def backlog_holds_def)
qed

text \<open>C8: feeding the backlog returns, stays inside the buffer and leaves it holding exactly the last
  bytes of the old contents followed by the new data, as many as the buffer has room for; the
  replication offset advances by the number of bytes fed.\<close>

theorem feedReplicationBacklog_suffix:
  assumes "backlog_holds s w"
  shows "\<exists>s'. feedReplicationBacklog s p = Some s' \<and>
    backlog_holds s' (lastn (repl_backlog_size s) (w @ p)) \<and>
    master_repl_offset s' = master_repl_offset s + int (length p) \<and>
    repl_backlog_size s' = repl_backlog_size s"
proof -
  obtain m idx where e: "feedReplicationBacklog s p = Some (s\<lparr>master_repl_offset := master_repl_offset s + int (length p),
        repl_backlog := Some m, repl_backlog_idx := idx,
        repl_backlog_histlen := min (repl_backlog_size s) (length w + length p),
        repl_backlog_off := master_repl_offset s + int (length p) - int (min (repl_backlog_size s) (length w + length p)) + 1\<rparr>)"
    and b: "backlog_holds (s\<lparr>master_repl_offset := master_repl_offset s + int (length p), repl_backlog := Some m,
        repl_backlog_idx := idx, repl_backlog_histlen := min (repl_backlog_size s) (length w + length p),
        repl_backlog_off := master_repl_offset s + int (length p) - int (min (repl_backlog_size s) (length w + length p)) + 1\<rparr>)
      (lastn (repl_backlog_size s) (w @ p))"
    using feed_backlog [OF assms] by blast
  show ?thesis using b by (intro exI [of _ "the (feedReplicationBacklog s p)"]) (simp add: e)
qed

lemma backlog_holds_create:
  "repl_backlog s = None \<Longrightarrow> 0 < repl_backlog_size s \<Longrightarrow>
   \<exists>s'. createReplicationBacklog s = Some s' \<and> backlog_holds s' [] \<and> repl_backlog_size s' = repl_backlog_size s"
  by (simp add: createReplicationBacklog_def backlog_holds_def backlog_state_def backlog_cells_def)

theorem feedReplicationBacklog_suffix_witness:
  "\<exists>s. backlog_holds s [] \<and> (\<exists>s'. feedReplicationBacklog s [1, 2, 3] = Some s' \<and> backlog_holds s' [2, 3] \<and>
     master_repl_offset s' = 3)"
proof -
  define s where "s = (init_server 1 (\<lambda>_. plain_client) [0] (\<lambda>_. []) Map.empty 1)\<lparr>repl_backlog_size := 2,
    repl_backlog := Some [None, None], repl_backlog_off := 1\<rparr>"
  have b: "backlog_holds s []"
    by (simp add: s_def init_server_def backlog_holds_def backlog_state_def backlog_cells_def)
  have "repl_backlog_size s = 2" "master_repl_offset s = 0" by (simp_all add: s_def init_server_def)
  then show ?thesis using feedReplicationBacklog_suffix [OF b, of "[1, 2, 3]"] b
    by (intro exI [of _ s]) (auto simp: lastn_def)
qed


section \<open>Partial resynchronisation reads the suffix back\<close>

lemma backlog_loop_done [simp]: "addReplyReplicationBacklog_loop s c m j 0 = Some s"
  by (subst addReplyReplicationBacklog_loop.simps) simp

lemma backlog_loop_piece:
  assumes "0 < n" "n = min (repl_backlog_size s - j) len" "mem_load m j n = Some b"
  shows "addReplyReplicationBacklog_loop s c m (int j) (int len) =
    addReplyReplicationBacklog_loop (addReplyString s c b) c m 0 (int (len - n))"
proof -
  have j: "j < repl_backlog_size s" "0 < len" using assms(1,2) by auto
  then have n: "(if int (repl_backlog_size s) - int j < int len then int (repl_backlog_size s) - int j else int len) = int n"
    using assms(2) by auto
  have "len \<noteq> 0" "n \<le> len" using j assms(2) by auto
  then show ?thesis using assms(3)
    by (subst addReplyReplicationBacklog_loop.simps) (simp only: n Let_def, simp add: of_nat_diff)
qed

lemma load_cells: "take n (drop j m) = map Some b \<Longrightarrow> j + n \<le> length m \<Longrightarrow> mem_load m j n = Some b"
  by (simp add: mem_load_def)

lemma backlog_loop_all:
  assumes st: "backlog_state (repl_backlog_size s) m (repl_backlog_idx s) (length w) w" and k: "k \<le> length w"
    and j: "j = (if length w < repl_backlog_size s then k
      else if repl_backlog_idx s + k < repl_backlog_size s then repl_backlog_idx s + k
      else repl_backlog_idx s + k - repl_backlog_size s)"
  shows "\<exists>s'. addReplyReplicationBacklog_loop s c m (int j) (int (length w - k)) = Some s' \<and>
    quiet s' = quiet s \<and> (\<forall>d. d \<noteq> c \<longrightarrow> clients s' d = clients s d) \<and>
    out (clients s' c) = out (clients s c) @ (if takes_output (clients s c) then drop k w else [])"
proof -
  let ?sz = "repl_backlog_size s" and ?idx = "repl_backlog_idx s"
  have m: "length m = ?sz" "?idx < ?sz" and lw: "length w \<le> ?sz"
    using st backlog_state_length [OF st] by (auto simp: backlog_state_def)
  consider (empty) "k = length w" | (part) "k < length w" "length w < ?sz"
    | (wrap) "k < length w" "length w = ?sz" "?idx + k < ?sz"
    | (tail) "k < length w" "length w = ?sz" "?idx + k \<ge> ?sz" using k lw by linarith
  then show ?thesis
  proof cases
    case empty
    then show ?thesis by simp
  next
    case part
    then have "take (length w) m = map Some w" using st by (simp add: backlog_state_def backlog_cells_def)
    then have "take (length w - k) (drop k m) = map Some (drop k w)" by (simp add: drop_map drop_take [symmetric])
    then have "mem_load m k (length w - k) = Some (drop k w)" using m part by (intro load_cells) auto
    moreover have "length w - k = min (?sz - k) (length w - k)" using part by simp
    ultimately have "addReplyReplicationBacklog_loop s c m (int k) (int (length w - k)) = Some (addReplyString s c (drop k w))"
      using backlog_loop_piece [of "length w - k" s k "length w - k"] part by simp
    then show ?thesis using part j by simp
  next
    case tail
    then have w: "drop ?idx m @ take ?idx m = map Some w" using st by (simp add: backlog_state_def backlog_cells_def)
    have "map Some (drop k w) = drop k (drop ?idx m @ take ?idx m)" by (simp add: w drop_map)
    also have "\<dots> = take (length w - k) (drop (?idx + k - ?sz) m)" using tail m by (simp add: drop_take add.commute)
    finally have "mem_load m (?idx + k - ?sz) (length w - k) = Some (drop k w)" using m tail by (intro load_cells) auto
    moreover have "length w - k = min (?sz - (?idx + k - ?sz)) (length w - k)" using tail m by simp
    ultimately have "addReplyReplicationBacklog_loop s c m (int j) (int (length w - k)) = Some (addReplyString s c (drop k w))"
      using backlog_loop_piece [of "length w - k" s j "length w - k"] tail j by simp
    then show ?thesis by simp
  next
    case wrap
    then have w: "drop ?idx m @ take ?idx m = map Some w" using st by (simp add: backlog_state_def backlog_cells_def)
    let ?n = "?sz - (?idx + k)"
    have w1: "drop k (map Some w) = drop (?idx + k) m @ take ?idx m"
      using w [symmetric] wrap m by (simp add: add.commute)
    then have "take ?n (drop k (map Some w)) = drop (?idx + k) m" "drop ?n (drop k (map Some w)) = take ?idx m"
      using m by simp_all
    then have a: "take ?n (drop (?idx + k) m) = map Some (take ?n (drop k w))"
      and b: "take ?idx m = map Some (drop ?n (drop k w))" using m by (simp_all add: drop_map take_map)
    have la: "mem_load m (?idx + k) ?n = Some (take ?n (drop k w))" using a m wrap by (intro load_cells) auto
    have lb: "mem_load m 0 ?idx = Some (drop ?n (drop k w))" using b m by (intro load_cells) auto
    have 1: "addReplyReplicationBacklog_loop s c m (int j) (int (length w - k)) =
        addReplyReplicationBacklog_loop (addReplyString s c (take ?n (drop k w))) c m 0 (int ?idx)"
      using backlog_loop_piece [of ?n s "?idx + k" "length w - k", OF _ _ la] wrap j by simp
    show ?thesis
    proof (cases "?idx = 0")
      case True
      then have "take ?n (drop k w) = drop k w" using wrap by simp
      then show ?thesis using 1 True by simp
    next
      case False
      have "addReplyReplicationBacklog_loop (addReplyString s c (take ?n (drop k w))) c m 0 (int ?idx) =
          Some (addReplyString (addReplyString s c (take ?n (drop k w))) c (drop ?n (drop k w)))"
        using backlog_loop_piece [of ?idx "addReplyString s c (take ?n (drop k w))" 0 ?idx] False m lb by simp
      then show ?thesis using 1 append_take_drop_id [of ?n "drop k w"] by simp
    qed
  qed
qed

text \<open>C9: a replica that asks for an offset the backlog still covers is sent exactly the bytes of the
  replication stream from that offset on, in one or two pieces, and the number of bytes is returned.\<close>

theorem addReplyReplicationBacklog_resumes:
  assumes "backlog_holds s w" "repl_backlog_off s \<le> offset" "offset \<le> repl_backlog_off s + int (length w)"
  shows "\<exists>s'. addReplyReplicationBacklog s c offset = Some (int (length w) - (offset - repl_backlog_off s), s') \<and>
    out (clients s' c) = out (clients s c) @
      (if takes_output (clients s c) then drop (nat (offset - repl_backlog_off s)) w else [])"
proof (cases "w = []")
  case True
  then show ?thesis using assms by (auto simp: addReplyReplicationBacklog_def backlog_holds_def split: option.splits)
next
  case False
  define k where "k = nat (offset - repl_backlog_off s)"
  have k: "offset - repl_backlog_off s = int k" "k \<le> length w" using assms by (auto simp: k_def)
  obtain m where m: "repl_backlog s = Some m" and h: "repl_backlog_histlen s = length w"
    and st: "backlog_state (repl_backlog_size s) m (repl_backlog_idx s) (length w) w"
    using assms(1) by (auto simp: backlog_holds_def split: option.splits)
  let ?sz = "repl_backlog_size s" and ?idx = "repl_backlog_idx s"
  have sz: "?idx < ?sz" "length w \<le> ?sz" and part: "length w < ?sz \<Longrightarrow> ?idx = length w"
    using st backlog_state_length [OF st] by (auto simp: backlog_state_def)
  define j where "j = (if length w < ?sz then k else if ?idx + k < ?sz then ?idx + k else ?idx + k - ?sz)"
  have "((int ?idx + (int ?sz - int (length w))) mod int ?sz + int k) mod int ?sz = (int ?idx + (int ?sz - int (length w)) + int k) mod int ?sz"
    by (simp add: mod_add_left_eq)
  also have "\<dots> = int j"
  proof (cases "length w < ?sz")
    case True
    then show ?thesis using part k(2) by (simp add: j_def)
  next
    case False
    then have "(?idx + k) mod ?sz = j" using sz k(2) by (auto simp: j_def mod_if)
    then show ?thesis using False sz by (simp flip: of_nat_add of_nat_mod)
  qed
  finally have j: "((int ?idx + (int ?sz - int (length w))) mod int ?sz + int k) mod int ?sz = int j" .
  have len: "int (length w) - int k = int (length w - k)" using k(2) by (simp add: of_nat_diff)
  obtain s' where s': "addReplyReplicationBacklog_loop s c m (int j) (int (length w - k)) = Some s'" "quiet s' = quiet s"
    "out (clients s' c) = out (clients s c) @ (if takes_output (clients s c) then drop k w else [])"
    using backlog_loop_all [OF st k(2) j_def] by blast
  have "repl_backlog_histlen s' = length w" using quiet_field [OF s'(2), of repl_backlog_histlen] h by (simp add: quiet_sel)
  then show ?thesis using s' False
    by (simp add: addReplyReplicationBacklog_def h m Let_def k(1) j len k_def [symmetric])
qed

theorem addReplyReplicationBacklog_resumes_witness:
  "\<exists>s. backlog_holds s [7, 8, 9] \<and> repl_backlog_off s \<le> 2 \<and> (2 :: int) \<le> repl_backlog_off s + 3 \<and>
     (\<exists>s'. addReplyReplicationBacklog s 0 2 = Some (2, s') \<and> out (clients s' 0) = [8, 9])"
proof -
  define s where "s = (init_server 1 (\<lambda>_. plain_client) [0] (\<lambda>_. []) Map.empty 1)\<lparr>repl_backlog_size := 3,
    repl_backlog := Some [Some 9, Some 7, Some 8], repl_backlog_idx := 1, repl_backlog_histlen := 3,
    repl_backlog_off := 1, master_repl_offset := 3\<rparr>"
  have b: "backlog_holds s [7, 8, 9]"
    by (simp add: s_def init_server_def backlog_holds_def backlog_state_def backlog_cells_def)
  have "repl_backlog_off s = 1" "clients s = (\<lambda>_. plain_client)" by (simp_all add: s_def)
  then show ?thesis using addReplyReplicationBacklog_resumes [OF b, of 2 0] b by (intro exI [of _ s]) auto
qed

end
