(* ===== verification/Aof.thy ===== *)
theory Aof
  imports Replication
begin

text \<open>The append only file as far as it is written in memory (\<open>aof.c\<close>): the text of a command, the
  translation of relative expires, the buffer that is flushed to the file and the blocks collected
  while a rewrite is in progress.  Writing to the file and to the pipe of the child are not
  modelled.\<close>

section \<open>The rewrite buffer\<close>

definition AOF_RW_BUF_BLOCK_SIZE :: nat where "AOF_RW_BUF_BLOCK_SIZE = 1024 * 1024 * 10"

function aofRewriteBufferAppend :: "bytes list \<Rightarrow> bytes \<Rightarrow> bytes list" where
  "aofRewriteBufferAppend bs str =
     (if str = [] then bs
      else
        let thislen = (if bs = [] then 0 else min (AOF_RW_BUF_BLOCK_SIZE - length (last bs)) (length str));
            bs = (if bs = [] then bs else butlast bs @ [last bs @ take thislen str]);
            str = drop thislen str in
        if str \<noteq> [] then aofRewriteBufferAppend (bs @ [[]]) str else bs)"
  by pat_completeness auto
termination
  by (relation "measures [\<lambda>(bs, str). length str,
      \<lambda>(bs, str). if bs = [] \<or> length (last bs) \<ge> AOF_RW_BUF_BLOCK_SIZE then 1 else (0 :: nat)]")
    (auto simp: AOF_RW_BUF_BLOCK_SIZE_def min_def split: if_splits)

declare aofRewriteBufferAppend.simps [simp del]

section \<open>The text of a command\<close>

definition catAppendOnlyGenericCommand :: "bytes \<Rightarrow> bytes list \<Rightarrow> bytes option" where
  "catAppendOnlyGenericCommand dst av =
     do { b \<leftarrow> ll2str 31 (of_nat (length av));
          foldM (\<lambda>a dst. do { b \<leftarrow> ll2str 31 (of_nat (length a));
                              Some (dst @ lit ''$'' @ b @ crlf @ a @ crlf) })
            av (dst @ lit ''*'' @ b @ crlf) }"

text \<open>\<open>strtoll\<close> of the C library in base 10: leading white space, a sign, digits; out of range values
  are the nearest limit.\<close>

fun strtoll_digits :: "nat \<Rightarrow> bytes \<Rightarrow> nat" where
  "strtoll_digits n [] = n"
| "strtoll_digits n (c # p) = (if 48 \<le> c \<and> c \<le> 57 then strtoll_digits (10 * n + unat (c - 48)) p else n)"

definition strtoll :: "bytes \<Rightarrow> i64" where
  "strtoll str =
     (let p = dropWhile (\<lambda>c. c = 32 \<or> 9 \<le> c \<and> c \<le> 13) str;
          (neg, p) = (if p \<noteq> [] \<and> hd p = 45 then (True, tl p) else if p \<noteq> [] \<and> hd p = 43 then (False, tl p) else (False, p));
          n = int (strtoll_digits 0 p); v = (if neg then - n else n) in
      of_int (max (- (2 ^ 63)) (min (2 ^ 63 - 1) v)))"

definition catAppendOnlyExpireAtCommand :: "redisServer \<Rightarrow> bytes \<Rightarrow> string \<Rightarrow> bytes \<Rightarrow> bytes \<Rightarrow> bytes option" where
  "catAppendOnlyExpireAtCommand s buf cmdproc key seconds =
     (let when = strtoll seconds;
          when = (if cmdproc \<in> {''expireCommand'', ''setexCommand'', ''expireatCommand''} then when * 1000 else when);
          when = (if cmdproc \<in> {''expireCommand'', ''pexpireCommand'', ''setexCommand'', ''psetexCommand''}
                  then when + mstime s else when) in
      do { b \<leftarrow> ll2str 32 when;
           catAppendOnlyGenericCommand buf [lit ''PEXPIREAT'', key, b] })"

definition nth_opt :: "'a list \<Rightarrow> nat \<Rightarrow> 'a option" where
  "nth_opt xs i = (if i < length xs then Some (xs ! i) else None)"

section \<open>Appending a command\<close>

text \<open>The text of the command proper, after the \<open>SELECT\<close> that may come first.\<close>

definition feedAppendOnlyFile_cmd :: "redisServer \<Rightarrow> redisCommand \<Rightarrow> bytes list \<Rightarrow> bytes \<Rightarrow> bytes option" where
  "feedAppendOnlyFile_cmd s cmd av buf =
     (if proc cmd \<in> {''expireCommand'', ''pexpireCommand'', ''expireatCommand''} then
        do { k \<leftarrow> nth_opt av 1; t \<leftarrow> nth_opt av 2; catAppendOnlyExpireAtCommand s buf (proc cmd) k t }
      else if proc cmd \<in> {''setexCommand'', ''psetexCommand''} then
        do { k \<leftarrow> nth_opt av 1; t \<leftarrow> nth_opt av 2; v \<leftarrow> nth_opt av 3;
             buf \<leftarrow> catAppendOnlyGenericCommand buf [lit ''SET'', k, v];
             catAppendOnlyExpireAtCommand s buf (proc cmd) k t }
      else if proc cmd = ''setCommand'' \<and> length av > 3 then
        do { buf \<leftarrow> catAppendOnlyGenericCommand buf (take 3 av);
             (exarg, pxarg) \<leftarrow> foldM (\<lambda>i (exarg, pxarg).
                 do { exarg \<leftarrow> (if strcaseeq (av ! i) ''ex'' then map_option Some (nth_opt av (i + 1)) else Some exarg);
                      pxarg \<leftarrow> (if strcaseeq (av ! i) ''px'' then map_option Some (nth_opt av (i + 1)) else Some pxarg);
                      Some (exarg, pxarg) }) [3..<length av] (None, None);
             if exarg \<noteq> None \<and> pxarg \<noteq> None then None
             else
               do { buf \<leftarrow> (case exarg of None \<Rightarrow> Some buf
                       | Some t \<Rightarrow> catAppendOnlyExpireAtCommand s buf ''expireCommand'' (av ! 1) t);
                    (case pxarg of None \<Rightarrow> Some buf
                       | Some t \<Rightarrow> catAppendOnlyExpireAtCommand s buf ''pexpireCommand'' (av ! 1) t) } }
      else catAppendOnlyGenericCommand buf av)"

definition feedAppendOnlyFile_select :: "redisServer \<Rightarrow> int \<Rightarrow> (bytes \<times> redisServer) option" where
  "feedAppendOnlyFile_select s dictid =
     (if dictid \<noteq> aof_selected_db s then
        do { b \<leftarrow> ll2str 64 (of_int dictid);
             Some (lit ''*2'' @ crlf @ lit ''$6'' @ crlf @ lit ''SELECT'' @ crlf @ lit ''$'' @ dec (length b) @ crlf @ b @ crlf,
                   s\<lparr>aof_selected_db := dictid\<rparr>) }
      else Some ([], s))"

definition feedAppendOnlyFile_store :: "redisServer \<Rightarrow> bytes \<Rightarrow> redisServer" where
  "feedAppendOnlyFile_store s buf =
     (let s = (if aof_state s = AOF_ON then s\<lparr>aof_buf := aof_buf s @ buf\<rparr> else s) in
      if aof_child_pid s \<noteq> - 1
      then s\<lparr>aof_rewrite_buf_blocks := aofRewriteBufferAppend (aof_rewrite_buf_blocks s) buf\<rparr> else s)"

definition feedAppendOnlyFile :: "redisServer \<Rightarrow> redisCommand \<Rightarrow> int \<Rightarrow> bytes list \<Rightarrow> redisServer option" where
  "feedAppendOnlyFile s cmd dictid av =
     do { (buf, s) \<leftarrow> feedAppendOnlyFile_select s dictid;
          buf \<leftarrow> feedAppendOnlyFile_cmd s cmd av buf;
          Some (feedAppendOnlyFile_store s buf) }"

section \<open>Propagation\<close>

definition propagate :: "redisServer \<Rightarrow> redisCommand \<Rightarrow> int \<Rightarrow> bytes list \<Rightarrow> pflag set \<Rightarrow> redisServer option" where
  "propagate s cmd dbid av fl =
     do { s \<leftarrow> (if aof_state s \<noteq> AOF_OFF \<and> PROPAGATE_AOF \<in> fl then feedAppendOnlyFile s cmd dbid av else Some s);
          if PROPAGATE_REPL \<in> fl then replicationFeedSlaves s dbid av else Some s }"

definition alsoPropagate :: "redisServer \<Rightarrow> redisCommand \<Rightarrow> int \<Rightarrow> bytes list \<Rightarrow> pflag set \<Rightarrow> redisServer" where
  "alsoPropagate s cmd dbid av target =
     (if loading s then s
      else s\<lparr>also_propagate := also_propagate s @ [\<lparr>op_cmd = cmd, op_dbid = dbid, op_argv = av, op_target = target\<rparr>]\<rparr>)"

definition preventCommandPropagation :: "redisServer \<Rightarrow> nat \<Rightarrow> redisServer" where
  "preventCommandPropagation s c = set_flag c CLIENT_PREVENT_AOF_PROP (set_flag c CLIENT_PREVENT_REPL_PROP s)"

definition preventCommandAOF :: "redisServer \<Rightarrow> nat \<Rightarrow> redisServer" where
  "preventCommandAOF s c = set_flag c CLIENT_PREVENT_AOF_PROP s"

definition preventCommandReplication :: "redisServer \<Rightarrow> nat \<Rightarrow> redisServer" where
  "preventCommandReplication s c = set_flag c CLIENT_PREVENT_REPL_PROP s"

section \<open>The rewrite buffer keeps everything, in order\<close>

lemma aofRewriteBufferAppend_concat: "concat (aofRewriteBufferAppend bs str) = concat bs @ str"
proof (induction bs str rule: aofRewriteBufferAppend.induct)
  case (1 bs str)
  define t where "t = (if bs = [] then 0 else min (AOF_RW_BUF_BLOCK_SIZE - length (last bs)) (length str))"
  define bs' where "bs' = (if bs = [] then bs else butlast bs @ [last bs @ take t str])"
  have c: "concat bs' = concat bs @ take t str"
  proof (cases bs rule: rev_cases)
    case (snoc ys y)
    then show ?thesis by (simp add: bs'_def)
  qed (simp add: bs'_def t_def)
  show ?case
  proof (cases "str = [] \<or> drop t str = []")
    case True
    then show ?thesis using c
      by (subst aofRewriteBufferAppend.simps) (auto simp: Let_def t_def [symmetric] bs'_def [symmetric])
  next
    case False
    then have "concat (aofRewriteBufferAppend (bs' @ [[]]) (drop t str)) = concat (bs' @ [[]]) @ drop t str"
      using "1.IH" [OF _ t_def bs'_def refl] by simp
    then show ?thesis using False c
      by (subst aofRewriteBufferAppend.simps) (simp add: Let_def t_def [symmetric] bs'_def [symmetric])
  qed
qed

end
