(* ===== verification/Crc16.thy ===== *)
theory Crc16
  imports Prelude
begin

text \<open>The CRC16 of \<open>crc16.c\<close> and the hash slot of a key in a cluster (\<open>keyHashSlot\<close> of \<open>cluster.c\<close>),
  with the bit by bit definition of the checksum as the reference for the table driven one.\<close>

section \<open>The table driven checksum\<close>

definition crc16tab :: "u16 list" where
  "crc16tab = [
    0x0000, 0x1021, 0x2042, 0x3063, 0x4084, 0x50a5, 0x60c6, 0x70e7,
    0x8108, 0x9129, 0xa14a, 0xb16b, 0xc18c, 0xd1ad, 0xe1ce, 0xf1ef,
    0x1231, 0x0210, 0x3273, 0x2252, 0x52b5, 0x4294, 0x72f7, 0x62d6,
    0x9339, 0x8318, 0xb37b, 0xa35a, 0xd3bd, 0xc39c, 0xf3ff, 0xe3de,
    0x2462, 0x3443, 0x0420, 0x1401, 0x64e6, 0x74c7, 0x44a4, 0x5485,
    0xa56a, 0xb54b, 0x8528, 0x9509, 0xe5ee, 0xf5cf, 0xc5ac, 0xd58d,
    0x3653, 0x2672, 0x1611, 0x0630, 0x76d7, 0x66f6, 0x5695, 0x46b4,
    0xb75b, 0xa77a, 0x9719, 0x8738, 0xf7df, 0xe7fe, 0xd79d, 0xc7bc,
    0x48c4, 0x58e5, 0x6886, 0x78a7, 0x0840, 0x1861, 0x2802, 0x3823,
    0xc9cc, 0xd9ed, 0xe98e, 0xf9af, 0x8948, 0x9969, 0xa90a, 0xb92b,
    0x5af5, 0x4ad4, 0x7ab7, 0x6a96, 0x1a71, 0x0a50, 0x3a33, 0x2a12,
    0xdbfd, 0xcbdc, 0xfbbf, 0xeb9e, 0x9b79, 0x8b58, 0xbb3b, 0xab1a,
    0x6ca6, 0x7c87, 0x4ce4, 0x5cc5, 0x2c22, 0x3c03, 0x0c60, 0x1c41,
    0xedae, 0xfd8f, 0xcdec, 0xddcd, 0xad2a, 0xbd0b, 0x8d68, 0x9d49,
    0x7e97, 0x6eb6, 0x5ed5, 0x4ef4, 0x3e13, 0x2e32, 0x1e51, 0x0e70,
    0xff9f, 0xefbe, 0xdfdd, 0xcffc, 0xbf1b, 0xaf3a, 0x9f59, 0x8f78,
    0x9188, 0x81a9, 0xb1ca, 0xa1eb, 0xd10c, 0xc12d, 0xf14e, 0xe16f,
    0x1080, 0x00a1, 0x30c2, 0x20e3, 0x5004, 0x4025, 0x7046, 0x6067,
    0x83b9, 0x9398, 0xa3fb, 0xb3da, 0xc33d, 0xd31c, 0xe37f, 0xf35e,
    0x02b1, 0x1290, 0x22f3, 0x32d2, 0x4235, 0x5214, 0x6277, 0x7256,
    0xb5ea, 0xa5cb, 0x95a8, 0x8589, 0xf56e, 0xe54f, 0xd52c, 0xc50d,
    0x34e2, 0x24c3, 0x14a0, 0x0481, 0x7466, 0x6447, 0x5424, 0x4405,
    0xa7db, 0xb7fa, 0x8799, 0x97b8, 0xe75f, 0xf77e, 0xc71d, 0xd73c,
    0x26d3, 0x36f2, 0x0691, 0x16b0, 0x6657, 0x7676, 0x4615, 0x5634,
    0xd94c, 0xc96d, 0xf90e, 0xe92f, 0x99c8, 0x89e9, 0xb98a, 0xa9ab,
    0x5844, 0x4865, 0x7806, 0x6827, 0x18c0, 0x08e1, 0x3882, 0x28a3,
    0xcb7d, 0xdb5c, 0xeb3f, 0xfb1e, 0x8bf9, 0x9bd8, 0xabbb, 0xbb9a,
    0x4a75, 0x5a54, 0x6a37, 0x7a16, 0x0af1, 0x1ad0, 0x2ab3, 0x3a92,
    0xfd2e, 0xed0f, 0xdd6c, 0xcd4d, 0xbdaa, 0xad8b, 0x9de8, 0x8dc9,
    0x7c26, 0x6c07, 0x5c64, 0x4c45, 0x3ca2, 0x2c83, 0x1ce0, 0x0cc1,
    0xef1f, 0xff3e, 0xcf5d, 0xdf7c, 0xaf9b, 0xbfba, 0x8fd9, 0x9ff8,
    0x6e17, 0x7e36, 0x4e55, 0x5e74, 0x2e93, 0x3eb2, 0x0ed1, 0x1ef0]"

definition crc16_step :: "u8 \<Rightarrow> u16 \<Rightarrow> u16" where
  "crc16_step b crc = push_bit 8 crc XOR crc16tab ! unat ((drop_bit 8 crc XOR ucast b) AND 0x00FF)"

definition crc16 :: "bytes \<Rightarrow> u16" where
  "crc16 buf = fold crc16_step buf 0"

section \<open>Hash slots\<close>

text \<open>The first index from \<open>i\<close> on that holds \<open>c\<close>, or the length of the key.\<close>

function find_from :: "u8 \<Rightarrow> bytes \<Rightarrow> nat \<Rightarrow> nat" where
  "find_from c key i = (if i < length key then if key ! i = c then i else find_from c key (i + 1) else i)"
  by pat_completeness auto
termination by (relation "measure (\<lambda>(c, key, i). length key - i)") auto

definition keyHashSlot :: "bytes \<Rightarrow> nat" where
  "keyHashSlot key =
     (let keylen = length key; s = find_from 123 key 0 in
      if s = keylen then unat (crc16 key AND 0x3FFF)
      else
        let e = find_from 125 key (s + 1) in
        if e = keylen \<or> e = s + 1 then unat (crc16 key AND 0x3FFF)
        else unat (crc16 (take (e - s - 1) (drop (s + 1) key)) AND 0x3FFF))"

section \<open>The bit by bit checksum\<close>

text \<open>CRC16 with polynomial 1021 (hexadecimal), most significant bit first: divide by the generator.\<close>

definition crc_shift :: "u16 \<Rightarrow> u16" where
  "crc_shift w = push_bit 1 w XOR (if bit w 15 then 0x1021 else 0)"

definition crc16_ref :: "bytes \<Rightarrow> u16" where
  "crc16_ref buf = fold (\<lambda>b crc. (crc_shift ^^ 8) (crc XOR push_bit 8 (ucast b))) buf 0"

lemma crc_shift_xor: "crc_shift (a XOR b) = crc_shift a XOR crc_shift b"
  by (auto simp: crc_shift_def push_bit_xor bit_simps xor.assoc xor.left_commute xor.commute)

lemma crc_shift_pow_xor: "(crc_shift ^^ n) (a XOR b) = (crc_shift ^^ n) a XOR (crc_shift ^^ n) b"
  by (induction n arbitrary: a b) (simp_all add: crc_shift_xor)

definition crc_entry :: "u16 \<Rightarrow> u16" where
  "crc_entry i = (crc_shift ^^ 8) (push_bit 8 i)"

lemma crc_entry_xor: "crc_entry (a XOR b) = crc_entry a XOR crc_entry b"
  by (simp add: crc_entry_def push_bit_xor crc_shift_pow_xor)

lemma crc_entry_add:
  assumes "i < 2 ^ n" "n < 16"
  shows "crc_entry (of_nat (i + 2 ^ n)) = crc_entry (of_nat i) XOR crc_entry (2 ^ n)"
proof -
  have "take_bit n i = i" using assms(1) by (simp add: take_bit_nat_eq_self)
  then have t: "take_bit n (of_nat i :: u16) = of_nat i" by (metis of_nat_take_bit)
  have "(of_nat i :: u16) AND 2 ^ n = 0"
    by (subst t [symmetric], rule bit_eqI) (auto simp: bit_simps)
  then have "(of_nat (i + 2 ^ n) :: u16) = of_nat i XOR 2 ^ n"
    by (simp add: disjunctive_add_eq_xor)
  then show ?thesis by (simp only: crc_entry_xor)
qed

definition crc_table :: "nat \<Rightarrow> u16 list" where
  "crc_table n = map (\<lambda>i. crc_entry (of_nat i)) [0..<2 ^ n]"

lemma crc_table_Suc: "n < 16 \<Longrightarrow> crc_table (Suc n) = crc_table n @ map (\<lambda>x. x XOR crc_entry (2 ^ n)) (crc_table n)"
proof -
  assume n: "n < 16"
  have "[0..<2 ^ Suc n] = [0..<2 ^ n] @ map (\<lambda>i. i + 2 ^ n) [0..<2 ^ n]"
    using upt_add_eq_append [of 0 "2 ^ n" "2 ^ n"] map_add_upt [of "2 ^ n" "2 ^ n"] by (simp only: power_Suc mult_2 add_0 le0)
  then show ?thesis using crc_entry_add [OF _ n] by (simp add: crc_table_def o_def)
qed

lemma crc_entry_bits:
  "crc_entry 1 = 0x1021" "crc_entry 2 = 0x2042" "crc_entry 4 = 0x4084" "crc_entry 8 = 0x8108"
  "crc_entry 16 = 0x1231" "crc_entry 32 = 0x2462" "crc_entry 64 = 0x48c4" "crc_entry 128 = 0x9188"
  by code_simp+

lemma crc16tab_eq: "crc16tab = crc_table 8"
proof -
  have "crc_entry 0 = 0" by code_simp
  then have 0: "crc_table 0 = [0]" by (simp add: crc_table_def)
  have 1: "crc_table 1 = [0, 0x1021]" using crc_table_Suc [of 0] by (simp add: 0 crc_entry_bits)
  have 2: "crc_table 2 = crc_table 1 @ map (\<lambda>x. x XOR 0x2042) (crc_table 1)"
    using crc_table_Suc [of 1] by (simp add: crc_entry_bits numeral_2_eq_2)
  have 3: "crc_table 3 = crc_table 2 @ map (\<lambda>x. x XOR 0x4084) (crc_table 2)"
    using crc_table_Suc [of 2] by (simp add: crc_entry_bits)
  have 4: "crc_table 4 = crc_table 3 @ map (\<lambda>x. x XOR 0x8108) (crc_table 3)"
    using crc_table_Suc [of 3] by (simp add: crc_entry_bits)
  have 5: "crc_table 5 = crc_table 4 @ map (\<lambda>x. x XOR 0x1231) (crc_table 4)"
    using crc_table_Suc [of 4] by (simp add: crc_entry_bits)
  have 6: "crc_table 6 = crc_table 5 @ map (\<lambda>x. x XOR 0x2462) (crc_table 5)"
    using crc_table_Suc [of 5] by (simp add: crc_entry_bits)
  have 7: "crc_table 7 = crc_table 6 @ map (\<lambda>x. x XOR 0x48c4) (crc_table 6)"
    using crc_table_Suc [of 6] by (simp add: crc_entry_bits)
  have 8: "crc_table 8 = crc_table 7 @ map (\<lambda>x. x XOR 0x9188) (crc_table 7)"
    using crc_table_Suc [of 7] by (simp add: crc_entry_bits)
  show ?thesis unfolding crc16tab_def 8 7 6 5 4 3 2 1 by simp
qed

lemma crc_shift_low: "(\<And>k. bit w k \<Longrightarrow> k < 16 - n) \<Longrightarrow> n \<le> 16 \<Longrightarrow> (crc_shift ^^ n) w = push_bit n w"
proof (induction n)
  case (Suc n)
  have "(crc_shift ^^ n) w = push_bit n w"
    using Suc.prems by (intro Suc.IH) (auto dest: Suc.prems(1) simp: less_diff_conv)
  moreover have "\<not> bit (push_bit n w) 15" using Suc.prems by (auto simp: bit_simps dest!: Suc.prems(1))
  moreover have "crc_shift (push_bit n w) = push_bit (Suc n) w" if "\<not> bit (push_bit n w) 15"
    using that by (simp add: crc_shift_def push_bit_push_bit del: push_bit_Suc)
  ultimately show ?case by simp
qed simp

lemma crc_table_nth: "k < 2 ^ n \<Longrightarrow> crc_table n ! k = crc_entry (of_nat k)"
  by (simp add: crc_table_def)

lemma crc16_step_ref: "crc16_step b crc = (crc_shift ^^ 8) (crc XOR push_bit 8 (ucast b))"
proof -
  define i where "i = drop_bit 8 crc XOR (ucast b :: u16)"
  have m8: "(0x00FF :: u16) = mask 8" by (simp add: mask_eq_exp_minus_1)
  have mask: "i AND 0x00FF = i"
    unfolding m8 by (rule bit_eqI) (auto simp: i_def bit_simps dest: bit_imp_le_length)
  have "i = take_bit 8 i" using mask by (simp only: m8 take_bit_eq_mask)
  then have lt: "unat i < 2 ^ 8" by (metis take_bit_nat_less_exp unsigned_take_bit_eq)
  have split: "crc XOR push_bit 8 (ucast b) = push_bit 8 i XOR take_bit 8 crc"
    by (rule bit_eqI) (auto simp: i_def bit_simps)
  have low: "(crc_shift ^^ 8) (take_bit 8 crc) = push_bit 8 (take_bit 8 crc)"
    by (rule crc_shift_low) (auto simp: bit_simps)
  have "push_bit 8 (take_bit 8 crc) = push_bit 8 crc" by (rule bit_eqI) (auto simp: bit_simps)
  then show ?thesis
    unfolding crc16_step_def i_def [symmetric] mask crc16tab_eq crc_table_nth [OF lt] split crc_shift_pow_xor low
    by (simp add: crc_entry_def xor.commute)
qed

text \<open>C13: the table driven CRC16 is the bit by bit division by the generator polynomial 1021.\<close>

theorem crc16_bitwise: "crc16 buf = crc16_ref buf"
  unfolding crc16_def crc16_ref_def by (simp add: crc16_step_ref [abs_def])

declare find_from.simps [simp del]

lemma find_from_props:
  "i \<le> length key \<Longrightarrow> i \<le> find_from c key i \<and> find_from c key i \<le> length key \<and>
   (\<forall>j. i \<le> j \<and> j < find_from c key i \<longrightarrow> key ! j \<noteq> c) \<and>
   (find_from c key i < length key \<longrightarrow> key ! find_from c key i = c)"
proof (induction c key i rule: find_from.induct)
  case (1 c key i)
  show ?case
  proof (cases "i < length key \<and> key ! i \<noteq> c")
    case True
    then have "find_from c key i = find_from c key (i + 1)" by (subst find_from.simps) simp
    then show ?thesis using "1.IH" True by (metis Suc_eq_plus1 Suc_leD Suc_leI le_antisym not_less_eq_eq)
  next
    case False
    then have "find_from c key i = i" by (subst find_from.simps) auto
    then show ?thesis using False "1.prems" by auto
  qed
qed

lemma find_from_eq:
  assumes "c \<notin> set t"
  shows "find_from c (a @ t @ c # b) (length a) = length a + length t"
proof -
  let ?k = "a @ t @ c # b" and ?f = "find_from c (a @ t @ c # b) (length a)"
  note p = find_from_props [of "length a" ?k c]
  have "?f \<le> length a + length t"
  proof (rule ccontr)
    assume "\<not> ?f \<le> length a + length t"
    moreover have "length a \<le> length a + length t" "length a \<le> length ?k" by simp_all
    ultimately have "?k ! (length a + length t) \<noteq> c" using p by (meson not_le)
    then show False by (simp add: nth_append)
  qed
  moreover have "\<not> ?f < length a + length t"
  proof
    assume l: "?f < length a + length t"
    then have "?k ! ?f = t ! (?f - length a)" using p by (auto simp: nth_append)
    moreover have "?k ! ?f = c" using p l by simp
    ultimately show False using assms l p by (metis add.commute diff_less_mono in_set_conv_nth length_append le_add1 less_diff_conv2)
  qed
  ultimately show ?thesis by simp
qed

text \<open>C14: a key with a hash tag is placed by the tag alone: whatever stands before the first brace and
  after the closing one does not matter, so all keys with the same tag share a slot; and a slot is
  always one of the 16384.\<close>

theorem keyHashSlot_tag:
  assumes "123 \<notin> set a" "125 \<notin> set t" "t \<noteq> []"
  shows "keyHashSlot (a @ 123 # t @ 125 # b) = unat (crc16 t) mod 16384 \<and> keyHashSlot key < 16384"
proof
  have m: "(0x3FFF :: u16) = mask 14" by (simp add: mask_eq_exp_minus_1)
  have u: "unat (w AND 0x3FFF) = unat w mod 16384" for w :: u16
    unfolding m take_bit_eq_mask [symmetric] unsigned_take_bit_eq by (simp add: take_bit_eq_mod)
  let ?k = "a @ 123 # t @ 125 # b"
  have s: "find_from 123 ?k 0 = length a" using find_from_eq [of 123 a "[]" "t @ 125 # b"] assms(1) by simp
  have e: "find_from 125 ?k (length a + 1) = length a + 1 + length t"
    using find_from_eq [of 125 t "a @ [123]" b] assms(2) by simp
  show "keyHashSlot ?k = unat (crc16 t) mod 16384"
    using assms(3) by (simp add: keyHashSlot_def s e [simplified] Let_def u)
  show "keyHashSlot key < 16384" by (simp add: keyHashSlot_def Let_def u)
qed

theorem keyHashSlot_tag_witness:
  "123 \<notin> set [97 :: u8] \<and> 125 \<notin> set [98 :: u8] \<and>
   keyHashSlot ([97] @ 123 # [98] @ 125 # [99]) = unat (crc16 [98]) mod 16384"
  using keyHashSlot_tag [of "[97]" "[98]" "[99]" "[]"] by simp

end
