(* ===== verification/Object.thy ===== *)
theory Object
  imports Networking
begin

text \<open>Objects (\<open>object.c\<close>) with the access clocks they carry (\<open>evict.c\<close>): creation, the encodings of
  strings, and reading numbers out of them.  Reference counts are not modelled: an object is a value,
  and one that comes from an argument vector is not shared.  The shared small integers are the
  integer encoded object without an access time of its own.\<close>

section \<open>Access clocks\<close>

definition LRU_CLOCK_MAX :: nat where "LRU_CLOCK_MAX = 2 ^ 24 - 1"
definition LRU_CLOCK_RESOLUTION :: nat where "LRU_CLOCK_RESOLUTION = 1000"
definition LFU_INIT_VAL :: nat where "LFU_INIT_VAL = 5"
definition RAND_MAX :: nat where "RAND_MAX = 2147483647"

definition getLRUClock :: "redisServer \<Rightarrow> nat" where
  "getLRUClock s = (nat (sint (mstime s)) div LRU_CLOCK_RESOLUTION) mod (LRU_CLOCK_MAX + 1)"

definition LRU_CLOCK :: "redisServer \<Rightarrow> nat" where
  "LRU_CLOCK s = (if 1000 div hz s \<le> LRU_CLOCK_RESOLUTION then lruclock s else getLRUClock s)"

definition estimateObjectIdleTime :: "redisServer \<Rightarrow> robj \<Rightarrow> nat" where
  "estimateObjectIdleTime s ob =
     (let lruclock = LRU_CLOCK s in
      if lruclock \<ge> lru ob then (lruclock - lru ob) * LRU_CLOCK_RESOLUTION
      else (lruclock + (LRU_CLOCK_MAX - lru ob)) * LRU_CLOCK_RESOLUTION)"

definition LFUGetTimeInMinutes :: "redisServer \<Rightarrow> nat" where
  "LFUGetTimeInMinutes s = nat (unixtime s) div 60 mod 65536"

definition LFUTimeElapsed :: "redisServer \<Rightarrow> nat \<Rightarrow> nat" where
  "LFUTimeElapsed s ldt =
     (let now = LFUGetTimeInMinutes s in if now \<ge> ldt then now - ldt else 65535 - ldt + now)"

text \<open>\<open>rand()\<close> is the head of \<open>rand_seq\<close>; the comparison of the two quotients is taken exactly.\<close>

definition LFULogIncr :: "redisServer \<Rightarrow> nat \<Rightarrow> nat \<times> redisServer" where
  "LFULogIncr s counter =
     (if counter = 255 then (255, s)
      else
        let r = rand_seq s 0; s = s\<lparr>rand_seq := \<lambda>i. rand_seq s (Suc i)\<rparr>;
            baseval = counter - LFU_INIT_VAL in
        (if r * (baseval * lfu_log_factor s + 1) < RAND_MAX then counter + 1 else counter, s))"

definition LFUDecrAndReturn :: "redisServer \<Rightarrow> robj \<Rightarrow> nat" where
  "LFUDecrAndReturn s ob =
     (let ldt = lru ob div 256; counter = lru ob mod 256;
          num_periods = (if lfu_decay_time s \<noteq> 0 then LFUTimeElapsed s ldt div lfu_decay_time s else 0) in
      if num_periods \<noteq> 0 then (if num_periods > counter then 0 else counter - num_periods) else counter)"

definition updateLFU :: "redisServer \<Rightarrow> robj \<Rightarrow> robj \<times> redisServer" where
  "updateLFU s val =
     (let counter = LFUDecrAndReturn s val; (counter, s) = LFULogIncr s counter in
      (val\<lparr>lru := LFUGetTimeInMinutes s * 256 + counter\<rparr>, s))"

section \<open>Creation\<close>

definition createObject :: "redisServer \<Rightarrow> optr \<Rightarrow> robj" where
  "createObject s p =
     \<lparr>ptr = p,
      lru = (if MAXMEMORY_FLAG_LFU \<in> maxmemory_policy s then LFUGetTimeInMinutes s * 256 + LFU_INIT_VAL
             else LRU_CLOCK s)\<rparr>"

definition createRawStringObject :: "redisServer \<Rightarrow> bytes \<Rightarrow> robj" where
  "createRawStringObject s b = createObject s (Str_RAW b)"

definition createEmbeddedStringObject :: "redisServer \<Rightarrow> bytes \<Rightarrow> robj" where
  "createEmbeddedStringObject s b =
     \<lparr>ptr = Str_EMBSTR b,
      lru = (if MAXMEMORY_FLAG_LFU \<in> maxmemory_policy s then LFUGetTimeInMinutes s * 256 + LFU_INIT_VAL
             else LRU_CLOCK s)\<rparr>"

definition OBJ_ENCODING_EMBSTR_SIZE_LIMIT :: nat where "OBJ_ENCODING_EMBSTR_SIZE_LIMIT = 44"
definition OBJ_SHARED_INTEGERS :: int where "OBJ_SHARED_INTEGERS = 10000"

definition createStringObject :: "redisServer \<Rightarrow> bytes \<Rightarrow> robj" where
  "createStringObject s b =
     (if length b \<le> OBJ_ENCODING_EMBSTR_SIZE_LIMIT then createEmbeddedStringObject s b
      else createRawStringObject s b)"

definition shared_integers :: "i64 \<Rightarrow> robj" where
  "shared_integers v = \<lparr>ptr = Str_INT v, lru = 0\<rparr>"

definition no_shared_integers :: "mflag set" where
  "no_shared_integers = {MAXMEMORY_FLAG_LRU, MAXMEMORY_FLAG_LFU}"

definition createStringObjectFromLongLongWithOptions :: "redisServer \<Rightarrow> i64 \<Rightarrow> bool \<Rightarrow> robj" where
  "createStringObjectFromLongLongWithOptions s v valueobj =
     (let valueobj = (if maxmemory s = 0 \<or> maxmemory_policy s \<inter> no_shared_integers = {} then False else valueobj) in
      if sint v \<ge> 0 \<and> sint v < OBJ_SHARED_INTEGERS \<and> \<not> valueobj then shared_integers v
      else createObject s (Str_INT v))"

definition createStringObjectFromLongLong :: "redisServer \<Rightarrow> i64 \<Rightarrow> robj" where
  "createStringObjectFromLongLong s v = createStringObjectFromLongLongWithOptions s v False"

definition createStringObjectFromLongLongForValue :: "redisServer \<Rightarrow> i64 \<Rightarrow> robj" where
  "createStringObjectFromLongLongForValue s v = createStringObjectFromLongLongWithOptions s v True"

definition dupStringObject :: "redisServer \<Rightarrow> robj \<Rightarrow> robj option" where
  "dupStringObject s ob =
     (case ptr ob of
        Str_RAW b \<Rightarrow> Some (createRawStringObject s b)
      | Str_EMBSTR b \<Rightarrow> Some (createEmbeddedStringObject s b)
      | Str_INT n \<Rightarrow> Some (createObject s (Str_INT n))
      | _ \<Rightarrow> None)"

section \<open>Types and encodings\<close>

definition checkType :: "redisServer \<Rightarrow> nat \<Rightarrow> robj \<Rightarrow> objtype \<Rightarrow> bool \<times> redisServer" where
  "checkType s c ob ty = (if otype ob \<noteq> ty then (True, addReply s c shared_wrongtypeerr) else (False, s))"

definition isSdsRepresentableAsLongLong :: "bytes \<Rightarrow> i64 option" where
  "isSdsRepresentableAsLongLong b = string2ll b"

definition isObjectRepresentableAsLongLong :: "robj \<Rightarrow> i64 option option" where
  "isObjectRepresentableAsLongLong ob =
     (case ptr ob of
        Str_INT n \<Rightarrow> Some (Some n)
      | Str_RAW b \<Rightarrow> Some (isSdsRepresentableAsLongLong b)
      | Str_EMBSTR b \<Rightarrow> Some (isSdsRepresentableAsLongLong b)
      | _ \<Rightarrow> None)"

definition tryObjectEncoding_sds :: "redisServer \<Rightarrow> robj \<Rightarrow> bool \<Rightarrow> bytes \<Rightarrow> robj" where
  "tryObjectEncoding_sds s ob raw b =
     (case (if length b \<le> 20 then string2l b else None) of
        Some v \<Rightarrow>
          if (maxmemory s = 0 \<or> maxmemory_policy s \<inter> no_shared_integers = {}) \<and>
             sint v \<ge> 0 \<and> sint v < OBJ_SHARED_INTEGERS
          then shared_integers v
          else if raw then ob\<lparr>ptr := Str_INT v\<rparr>
          else createStringObjectFromLongLongForValue s v
      | None \<Rightarrow>
          if length b \<le> OBJ_ENCODING_EMBSTR_SIZE_LIMIT then
            (if \<not> raw then ob else createEmbeddedStringObject s b)
          else ob)"

definition tryObjectEncoding :: "redisServer \<Rightarrow> robj \<Rightarrow> robj option" where
  "tryObjectEncoding s ob =
     (case ptr ob of
        Str_RAW b \<Rightarrow> Some (tryObjectEncoding_sds s ob True b)
      | Str_EMBSTR b \<Rightarrow> Some (tryObjectEncoding_sds s ob False b)
      | Str_INT n \<Rightarrow> Some ob
      | _ \<Rightarrow> None)"

definition getDecodedObject :: "redisServer \<Rightarrow> robj \<Rightarrow> robj option" where
  "getDecodedObject s ob =
     (case ptr ob of
        Str_RAW b \<Rightarrow> Some ob
      | Str_EMBSTR b \<Rightarrow> Some ob
      | Str_INT n \<Rightarrow> do { b \<leftarrow> ll2str 32 n; Some (createStringObject s b) }
      | _ \<Rightarrow> None)"

text \<open>\<open>memcmp\<close> as a sign; the result of \<open>compareStringObjects\<close> is an \<open>int\<close>, and so is the difference of
  the two lengths.\<close>

fun memcmp :: "bytes \<Rightarrow> bytes \<Rightarrow> int" where
  "memcmp (x # xs) (y # ys) = (if x = y then memcmp xs ys else if x < y then - 1 else 1)"
| "memcmp _ _ = 0"

definition string_bytes :: "nat \<Rightarrow> robj \<Rightarrow> bytes option" where
  "string_bytes n ob =
     (case ptr ob of Str_RAW b \<Rightarrow> Some b | Str_EMBSTR b \<Rightarrow> Some b | Str_INT v \<Rightarrow> ll2str n v | _ \<Rightarrow> None)"

definition compareStringObjects :: "robj \<Rightarrow> robj \<Rightarrow> int option" where
  "compareStringObjects a b =
     do { astr \<leftarrow> string_bytes 128 a; bstr \<leftarrow> string_bytes 128 b;
          let minlen = (if length astr < length bstr then length astr else length bstr);
              cmp = memcmp (take minlen astr) (take minlen bstr) in
          Some (if cmp = 0 then sint (of_int (int (length astr) - int (length bstr)) :: u32) else cmp) }"

definition equalStringObjects :: "robj \<Rightarrow> robj \<Rightarrow> bool option" where
  "equalStringObjects a b =
     (case (ptr a, ptr b) of
        (Str_INT m, Str_INT n) \<Rightarrow> Some (m = n)
      | _ \<Rightarrow> do { r \<leftarrow> compareStringObjects a b; Some (r = 0) })"

definition stringObjectLen :: "robj \<Rightarrow> nat option" where
  "stringObjectLen ob =
     (case ptr ob of
        Str_RAW b \<Rightarrow> Some (length b)
      | Str_EMBSTR b \<Rightarrow> Some (length b)
      | Str_INT n \<Rightarrow> Some (unat (sdigits10 n))
      | _ \<Rightarrow> None)"

section \<open>Numbers\<close>

text \<open>The outer option is the failed assertion or panic, the inner one \<open>C_ERR\<close>.\<close>

definition getLongLongFromObject :: "robj option \<Rightarrow> i64 option option" where
  "getLongLongFromObject ob =
     (case ob of
        None \<Rightarrow> Some (Some 0)
      | Some ob \<Rightarrow>
          (case ptr ob of
             Str_RAW b \<Rightarrow> Some (string2ll b)
           | Str_EMBSTR b \<Rightarrow> Some (string2ll b)
           | Str_INT n \<Rightarrow> Some (Some n)
           | _ \<Rightarrow> None))"

definition getLongLongFromObjectOrReply ::
  "redisServer \<Rightarrow> nat \<Rightarrow> robj option \<Rightarrow> string option \<Rightarrow> (i64 option \<times> redisServer) option" where
  "getLongLongFromObjectOrReply s c ob msg =
     do { r \<leftarrow> getLongLongFromObject ob;
          Some (case r of
             None \<Rightarrow> (None, addReplyError s c (case msg of Some m \<Rightarrow> m | None \<Rightarrow> ''value is not an integer or out of range''))
           | Some v \<Rightarrow> (Some v, s)) }"

definition getLongFromObjectOrReply ::
  "redisServer \<Rightarrow> nat \<Rightarrow> robj option \<Rightarrow> string option \<Rightarrow> (i64 option \<times> redisServer) option" where
  "getLongFromObjectOrReply s c ob msg =
     do { (r, s) \<leftarrow> getLongLongFromObjectOrReply s c ob msg;
          Some (case r of
             None \<Rightarrow> (None, s)
           | Some v \<Rightarrow>
               if sint v < sint LLONG_MIN \<or> sint v > sint LLONG_MAX
               then (None, addReplyError s c (case msg of Some m \<Rightarrow> m | None \<Rightarrow> ''value is out of range''))
               else (Some v, s)) }"

definition strEncoding :: "robj \<Rightarrow> string" where
  "strEncoding ob =
     (case ptr ob of
        Str_RAW _ \<Rightarrow> ''raw'' | Str_EMBSTR _ \<Rightarrow> ''embstr'' | Str_INT _ \<Rightarrow> ''int''
      | List_QUICKLIST _ \<Rightarrow> ''quicklist''
      | Set_INTSET _ \<Rightarrow> ''intset'' | Set_HT _ \<Rightarrow> ''hashtable''
      | Zset_ZIPLIST _ \<Rightarrow> ''ziplist'' | Zset_SKIPLIST _ \<Rightarrow> ''skiplist''
      | Hash_ZIPLIST _ \<Rightarrow> ''ziplist'' | Hash_HT _ \<Rightarrow> ''hashtable''
      | Stream_RAX _ \<Rightarrow> ''unknown'' | Module_VAL _ _ \<Rightarrow> ''raw'')"

end
