(* ===== verification/Frame.thy ===== *)
theory Frame
  imports Pubsub Aof Crc16 Object
begin

text \<open>What the rest of the server may rely on when it writes replies, publishes events and propagates
  commands.  \<open>core\<close> erases the state these side effects change (output buffers, replication backlog
  and append only buffer) together with access times and statistics; the relation \<open>rel\<close> connects a
  server with its core and with the output of one client, so that a command is verified against an
  abstract run on the core.\<close>

section \<open>The core of the state\<close>

definition core_obj :: "robj \<Rightarrow> robj" where
  "core_obj ob = ob\<lparr>lru := 0\<rparr>"

definition core_db :: "redisDb \<Rightarrow> redisDb" where
  "core_db db = db\<lparr>d_dict := \<lambda>k. map_option core_obj (d_dict db k)\<rparr>"

definition erase :: "redisServer \<Rightarrow> redisServer" where
  "erase s = s\<lparr>dbs := map core_db (dbs s), rand_seq := \<lambda>_. 0, stat_keyspace_hits := 0, stat_keyspace_misses := 0,
     stat_expiredkeys := 0, stat_numcommands := 0, cmd_stats := \<lambda>_. (0, 0), aof_selected_db := 0, aof_buf := [],
     aof_rewrite_buf_blocks := [], repl_backlog := None, repl_backlog_idx := 0, repl_backlog_histlen := 0,
     repl_backlog_off := 0, master_repl_offset := 0, slaveseldb := 0, slowlog := [], slowlog_entry_id := 0,
     latency_events := Map.empty\<rparr>"

definition core :: "redisServer \<Rightarrow> redisServer" where
  "core s = erase (quiet s)"

lemma core_quiet: "quiet s' = quiet s \<Longrightarrow> core s' = core s"
  by (simp add: core_def)

lemma core_sel [simp]:
  shows "dbs (core s) = map core_db (dbs s)" "clients (core s) c = quiet_client (clients s c)"
    "client_list (core s) = client_list s" "slaves (core s) = slaves s"
    "monitors (core s) = monitors s" "current_client (core s) = current_client s"
    "sv_master (core s) = sv_master s" "masterhost (core s) = masterhost s"
    "repl_slave_ro (core s) = repl_slave_ro s" "repl_state (core s) = repl_state s"
    "loading (core s) = loading s" "lua_caller (core s) = lua_caller s"
    "lua_time_start (core s) = lua_time_start s" "lua_timedout (core s) = lua_timedout s"
    "mstime (core s) = mstime s" "unixtime (core s) = unixtime s" "timeofday (core s) = timeofday s"
    "iter_order (core s) = iter_order s" "dirty (core s) = dirty s"
    "lazyfree_lazy_expire (core s) = lazyfree_lazy_expire s"
    "lazyfree_lazy_server_del (core s) = lazyfree_lazy_server_del s"
    "cluster_enabled (core s) = cluster_enabled s" "slots_to_keys (core s) = slots_to_keys s"
    "slots_keys_count (core s) = slots_keys_count s" "maxmemory (core s) = maxmemory s"
    "maxmemory_policy (core s) = maxmemory_policy s" "rdb_child_pid (core s) = rdb_child_pid s"
    "aof_child_pid (core s) = aof_child_pid s" "pubsub_channels (core s) = pubsub_channels s"
    "pubsub_patterns (core s) = pubsub_patterns s" "notify_keyspace_events (core s) = notify_keyspace_events s"
    "ready_keys (core s) = ready_keys s" "aof_state (core s) = aof_state s"
    "also_propagate (core s) = also_propagate s" "slaveKeysWithExpire (core s) = slaveKeysWithExpire s"
    "requirepass (core s) = requirepass s" "saveparamslen (core s) = saveparamslen s"
    "commands (core s) = commands s" "orig_commands (core s) = orig_commands s" "proto_max_bulk_len (core s) = proto_max_bulk_len s"
  by (simp_all add: core_def erase_def quiet_def)

lemma core_erased [simp]:
  "core (s\<lparr>rand_seq := v1\<rparr>) = core s" "core (s\<lparr>stat_keyspace_hits := v2\<rparr>) = core s"
  "core (s\<lparr>stat_keyspace_misses := v2\<rparr>) = core s" "core (s\<lparr>stat_expiredkeys := v2\<rparr>) = core s"
  "core (s\<lparr>stat_numcommands := v2\<rparr>) = core s" "core (s\<lparr>cmd_stats := v3\<rparr>) = core s"
  "core (s\<lparr>aof_selected_db := v4\<rparr>) = core s" "core (s\<lparr>aof_buf := v5\<rparr>) = core s"
  "core (s\<lparr>aof_rewrite_buf_blocks := v6\<rparr>) = core s" "core (s\<lparr>repl_backlog := v7\<rparr>) = core s"
  "core (s\<lparr>repl_backlog_idx := v2\<rparr>) = core s" "core (s\<lparr>repl_backlog_histlen := v2\<rparr>) = core s"
  "core (s\<lparr>repl_backlog_off := v4\<rparr>) = core s" "core (s\<lparr>master_repl_offset := v4\<rparr>) = core s"
  "core (s\<lparr>slaveseldb := v4\<rparr>) = core s" "core (s\<lparr>slowlog := v8\<rparr>) = core s"
  "core (s\<lparr>slowlog_entry_id := v2\<rparr>) = core s" "core (s\<lparr>latency_events := v9\<rparr>) = core s"
  by (simp_all add: core_def erase_def quiet_def)

lemma core_kept [simp]:
  "core (s\<lparr>dirty := v1\<rparr>) = (core s)\<lparr>dirty := v1\<rparr>"
  "core (s\<lparr>slots_to_keys := v2\<rparr>) = (core s)\<lparr>slots_to_keys := v2\<rparr>"
  "core (s\<lparr>slots_keys_count := v3\<rparr>) = (core s)\<lparr>slots_keys_count := v3\<rparr>"
  "core (s\<lparr>ready_keys := v4\<rparr>) = (core s)\<lparr>ready_keys := v4\<rparr>"
  "core (s\<lparr>slaveKeysWithExpire := v5\<rparr>) = (core s)\<lparr>slaveKeysWithExpire := v5\<rparr>"
  "core (s\<lparr>also_propagate := v6\<rparr>) = (core s)\<lparr>also_propagate := v6\<rparr>"
  by (simp_all add: core_def erase_def quiet_def)

lemma core_upd_db: "core_db (f (db_of s d)) = g (core_db (db_of s d)) \<Longrightarrow> core (upd_db d f s) = upd_db d g (core s)"
  by (cases "d < length (dbs s)") (simp_all add: core_def erase_def quiet_def upd_db_def map_update list_update_beyond)

lemma core_upd_cl:
  assumes "quiet_client (f (clients s c)) = g (quiet_client (clients s c))"
  shows "core (upd_cl c f s) = upd_cl c g (core s)"
proof -
  have "(\<lambda>d. quiet_client (((clients s)(c := f (clients s c))) d)) =
      (\<lambda>d. quiet_client (clients s d))(c := g (quiet_client (clients s c)))" using assms by auto
  then show ?thesis by (simp add: core_def erase_def quiet_def upd_cl_def)
qed

lemma core_set_flag: "fl \<notin> {CLIENT_PENDING_WRITE, CLIENT_CLOSE_ASAP} \<Longrightarrow> core (set_flag c fl s) = set_flag c fl (core s)"
  unfolding set_flag_def by (rule core_upd_cl) (simp add: quiet_client_def insert_Diff_if)

lemma core_clear_flags: "core (clear_flags c fs s) = clear_flags c fs (core s)"
proof -
  have "A - fs - B = A - B - fs" for A B :: "cflag set" by blast
  then show ?thesis unfolding clear_flags_def by (intro core_upd_cl) (simp add: quiet_client_def)
qed

lemma core_cl [simp]:
  "c_fd (quiet_client cl) = c_fd cl" "c_db (quiet_client cl) = c_db cl" "c_argv (quiet_client cl) = c_argv cl"
  "c_cmd (quiet_client cl) = c_cmd cl" "c_commands (quiet_client cl) = c_commands cl"
  "c_lastcmd (quiet_client cl) = c_lastcmd cl"
  "c_mstate_cmd_flags (quiet_client cl) = c_mstate_cmd_flags cl" "c_watched_keys (quiet_client cl) = c_watched_keys cl"
  "c_pubsub_channels (quiet_client cl) = c_pubsub_channels cl" "c_pubsub_patterns (quiet_client cl) = c_pubsub_patterns cl"
  "c_flags (quiet_client cl) = c_flags cl - {CLIENT_PENDING_WRITE, CLIENT_CLOSE_ASAP}"
  "takes_output (quiet_client cl) = takes_output cl"
  by (simp_all add: quiet_client_def takes_output_def)

lemma core_db_sel [simp]:
  "d_dict (core_db db) k = map_option core_obj (d_dict db k)" "d_expires (core_db db) = d_expires db"
  "d_blocking_keys (core_db db) = d_blocking_keys db" "d_ready_keys (core_db db) = d_ready_keys db"
  "d_watched_keys (core_db db) = d_watched_keys db"
  by (simp_all add: core_db_def)

lemma core_obj_sel [simp]: "ptr (core_obj ob) = ptr ob" "otype (core_obj ob) = otype ob" "str_of (core_obj ob) = str_of ob"
  "core_obj (ob\<lparr>lru := n\<rparr>) = core_obj ob"
  by (simp_all add: core_obj_def otype_def str_of_def)

section \<open>Side effects leave the core alone\<close>

text \<open>The clients that take part in publishing, replication or monitoring get output that no command
  of theirs asked for; the others are bystanders.\<close>

definition pubsub_clients :: "redisServer \<Rightarrow> nat set" where
  "pubsub_clients s = (\<Union>l \<in> ran (pubsub_channels s). set l) \<union> fst ` set (pubsub_patterns s)"

definition bystander :: "redisServer \<Rightarrow> nat \<Rightarrow> bool" where
  "bystander s c \<longleftrightarrow> c \<notin> set (slaves s) \<and> c \<notin> set (monitors s) \<and> c \<notin> pubsub_clients s"

lemma bystander_core [simp]: "bystander (core s) c = bystander s c"
  by (simp add: bystander_def pubsub_clients_def)

text \<open>\<open>aside A s s'\<close>: from \<open>s\<close> to \<open>s'\<close> only output was queued, for clients of \<open>A\<close>.\<close>

definition aside :: "nat set \<Rightarrow> redisServer \<Rightarrow> redisServer \<Rightarrow> bool" where
  "aside A s s' \<longleftrightarrow> quiet s' = quiet s \<and> (\<forall>c. c \<notin> A \<longrightarrow> clients s' c = clients s c)"

lemma aside_refl [simp]: "aside A s s"
  by (simp add: aside_def)

lemma aside_trans: "aside A s s' \<Longrightarrow> aside A s' s'' \<Longrightarrow> aside A s s''"
  by (simp add: aside_def)

lemma aside_reply: "aside A s s' \<Longrightarrow> c \<in> A \<Longrightarrow> aside A s (addReplyString s' c str)"
  unfolding aside_def by (metis addReplyString_quiet addReplyString_other)

lemma stringmatchlen_total: "stringmatchlen (p @ [0]) (int (length p)) t nc = Some (glob_decides nc p t)"
  using stringmatchlen_at_spec [of 0 p nc t] by (simp add: stringmatchlen_def)

lemma publish_aside:
  "\<exists>r s'. pubsubPublishMessage s channel message = Some (r, s') \<and> aside (pubsub_clients s) s s'"
proof -
  let ?A = "pubsub_clients s" and ?P = "\<lambda>(r :: nat, s'). aside (pubsub_clients s) s s'"
  define one where "one = (\<lambda>c (receivers :: nat, s).
      let s = addReply s c (shared_mbulkhdr 3); s = addReply s c shared_messagebulk in
      do { s \<leftarrow> addReplyBulk s c channel; s \<leftarrow> addReplyBulk s c message; Some (receivers + 1, s) })"
  have "\<exists>u. (case pubsub_channels s channel of None \<Rightarrow> Some (0, s) | Some cls \<Rightarrow> foldM one cls (0, s)) = Some u \<and> ?P u"
  proof (cases "pubsub_channels s channel")
    case (Some cls)
    then have "set cls \<subseteq> ?A" by (auto simp: pubsub_clients_def intro: ranI)
    then show ?thesis
      unfolding Some option.case
      by (intro foldM_total [of ?P]) (auto simp: one_def Let_def intro!: aside_reply)
  qed simp
  then obtain u where u: "(case pubsub_channels s channel of None \<Rightarrow> Some (0, s) | Some cls \<Rightarrow> foldM one cls (0, s)) =
      Some u" "?P u" by blast
  obtain r1 s1 where rs: "u = (r1, s1)" by (rule prod.exhaust)
  have 1: "aside ?A s s1" using u(2) by (simp add: rs)
  have p: "pubsub_patterns s1 = pubsub_patterns s"
    using 1 by (simp add: aside_def quiet_fields [of s1 s])
  define two where "two = (\<lambda>(c, pat) (receivers :: nat, s).
      do { m \<leftarrow> stringmatchlen (pat @ [0]) (int (length pat)) channel False;
           if m then
             let s = addReply s c (shared_mbulkhdr 4); s = addReply s c shared_pmessagebulk in
             do { s \<leftarrow> addReplyBulk s c pat; s \<leftarrow> addReplyBulk s c channel; s \<leftarrow> addReplyBulk s c message;
                  Some (receivers + 1, s) }
           else Some (receivers, s) })"
  have two: "\<exists>v. two (c, pat) (r, t) = Some v \<and> ?P v" if "c \<in> ?A" "aside ?A s t" for c pat r t
    using that by (auto simp: two_def stringmatchlen_total Let_def intro!: aside_reply)
  have "\<exists>v. foldM two (pubsub_patterns s1) (r1, s1) = Some v \<and> ?P v"
  proof (rule foldM_total)
    show "\<exists>v. two x t = Some v \<and> ?P v" if "x \<in> set (pubsub_patterns s1)" "?P t" for x t
      using two [of "fst x" "snd t" "snd x" "fst t"] that by (auto simp: p pubsub_clients_def)
  qed (simp add: 1)
  then show ?thesis
    using u(1) unfolding pubsubPublishMessage_def one_def [symmetric] two_def [symmetric] rs by auto
qed

lemma pubsub_clients_aside: "aside A s s' \<Longrightarrow> pubsub_clients s' = pubsub_clients s"
  by (simp add: aside_def pubsub_clients_def quiet_fields [of s' s])

lemma publish_if_aside:
  "\<exists>s'. (if b then do { (_, s) \<leftarrow> pubsubPublishMessage s channel message; Some s } else Some s) = Some s' \<and>
    aside (pubsub_clients s) s s'"
  using publish_aside [of s channel message] by auto

lemma notify_aside: "\<exists>s'. notifyKeyspaceEvent s ty ev key d = Some s' \<and> aside (pubsub_clients s) s s'"
proof (cases "ty \<in> notify_keyspace_events s")
  case True
  obtain s1 where 1: "(if NOTIFY_KEYSPACE \<in> notify_keyspace_events s then
      do { (_, s) \<leftarrow> pubsubPublishMessage s (lit ''__keyspace@'' @ decimal (of_nat d) @ lit ''__:'' @ key) (lit ev); Some s }
      else Some s) = Some s1" "aside (pubsub_clients s) s s1"
    using publish_if_aside by blast
  obtain s2 where 2: "(if NOTIFY_KEYEVENT \<in> notify_keyspace_events s1 then
      do { (_, s) \<leftarrow> pubsubPublishMessage s1 (lit ''__keyevent@'' @ decimal (of_nat d) @ lit ''__:'' @ lit ev) key; Some s }
      else Some s1) = Some s2" "aside (pubsub_clients s1) s1 s2"
    using publish_if_aside by blast
  have "notifyKeyspaceEvent s ty ev key d = Some s2"
    using True 1(1) 2(1) by (simp add: notifyKeyspaceEvent_def)
  then show ?thesis using aside_trans [OF 1(2)] 2(2) pubsub_clients_aside [OF 1(2)] by auto
qed (simp add: notifyKeyspaceEvent_def)

subsection \<open>The replication stream\<close>

text \<open>\<open>fed w p s s'\<close>: the backlog of \<open>s\<close> holds \<open>w\<close> and \<open>s'\<close> is \<open>s\<close> with the bytes \<open>p\<close> fed to the backlog.\<close>

definition no_backlog :: "redisServer \<Rightarrow> redisServer" where
  "no_backlog s = s\<lparr>master_repl_offset := 0, repl_backlog := None, repl_backlog_idx := 0, repl_backlog_histlen := 0,
     repl_backlog_off := 0\<rparr>"

definition fed :: "bytes \<Rightarrow> bytes \<Rightarrow> redisServer \<Rightarrow> redisServer \<Rightarrow> bool" where
  "fed w p s s' \<longleftrightarrow> backlog_holds s' (lastn (repl_backlog_size s) (w @ p)) \<and>
     master_repl_offset s' = master_repl_offset s + int (length p) \<and> no_backlog s' = no_backlog s"

lemma feed_fed:
  assumes "backlog_holds s w"
  shows "\<exists>s'. feedReplicationBacklog s p = Some s' \<and> fed w p s s'"
proof -
  obtain m idx where 1: "feedReplicationBacklog s p = Some (s\<lparr>master_repl_offset := master_repl_offset s + int (length p),
        repl_backlog := Some m, repl_backlog_idx := idx,
        repl_backlog_histlen := min (repl_backlog_size s) (length w + length p),
        repl_backlog_off := master_repl_offset s + int (length p) - int (min (repl_backlog_size s) (length w + length p)) + 1\<rparr>)"
    and 2: "backlog_holds (s\<lparr>master_repl_offset := master_repl_offset s + int (length p), repl_backlog := Some m,
        repl_backlog_idx := idx, repl_backlog_histlen := min (repl_backlog_size s) (length w + length p),
        repl_backlog_off := master_repl_offset s + int (length p) - int (min (repl_backlog_size s) (length w + length p)) + 1\<rparr>)
      (lastn (repl_backlog_size s) (w @ p))"
    using feed_backlog [OF assms] by blast
  show ?thesis unfolding 1 fed_def using 2 by (simp add: no_backlog_def)
qed

lemma no_backlog_size: "no_backlog s' = no_backlog s \<Longrightarrow> repl_backlog_size s' = repl_backlog_size s"
  by (drule arg_cong [of _ _ repl_backlog_size]) (simp add: no_backlog_def)

lemma fed_trans:
  assumes "fed w p s s1" "fed (lastn (repl_backlog_size s) (w @ p)) q s1 s2"
  shows "fed w (p @ q) s s2"
proof -
  have "repl_backlog_size s1 = repl_backlog_size s" using assms(1) no_backlog_size [of s1 s] by (simp add: fed_def)
  then show ?thesis using assms by (simp add: fed_def lastn_append_lastn)
qed

lemma fed_holds: "fed w p s s' \<Longrightarrow> backlog_holds s' (lastn (repl_backlog_size s) (w @ p))"
  by (simp add: fed_def)

lemma feed_next:
  assumes "fed w p s s1"
  shows "\<exists>s2. feedReplicationBacklog s1 q = Some s2 \<and> fed w (p @ q) s s2"
  using feed_fed [OF fed_holds [OF assms], of q] fed_trans [OF assms] by blast

text \<open>A command as it is sent to replicas.\<close>

definition resp :: "bytes list \<Rightarrow> bytes" where
  "resp av = item ''*'' (of_nat (length av)) @ concat (map bulk av)"

lemma feed_args:
  "fed w p s s1 \<Longrightarrow>
   \<exists>s2. foldM (\<lambda>a s. do { b \<leftarrow> ll2str (LONG_STR_SIZE + 2) (of_nat (length a));
                         s \<leftarrow> feedReplicationBacklog s (lit ''$'' @ b @ crlf);
                         s \<leftarrow> feedReplicationBacklog s a;
                         feedReplicationBacklog s crlf }) av s1 = Some s2 \<and> fed w (p @ concat (map bulk av)) s s2"
proof (induction av arbitrary: p s1)
  case (Cons a av)
  let ?h = "lit ''$'' @ decimal (of_nat (length a)) @ crlf"
  obtain s2 where 2: "feedReplicationBacklog s1 ?h = Some s2" "fed w (p @ ?h) s s2" using feed_next [OF Cons.prems] by blast
  obtain s3 where 3: "feedReplicationBacklog s2 a = Some s3" "fed w ((p @ ?h) @ a) s s3" using feed_next [OF 2(2)] by blast
  obtain s4 where 4: "feedReplicationBacklog s3 crlf = Some s4" "fed w (((p @ ?h) @ a) @ crlf) s s4"
    using feed_next [OF 3(2)] by blast
  have "((p @ ?h) @ a) @ crlf = p @ bulk a" by (simp add: bulk_def item_def)
  then show ?case using Cons.IH [of "p @ bulk a" s4] 2 3 4 by (simp add: LONG_STR_SIZE_def)
qed simp

text \<open>A procedure that queues \<open>str\<close> for the client it is given.\<close>

definition sends :: "bytes \<Rightarrow> (nat \<Rightarrow> redisServer \<Rightarrow> redisServer option) \<Rightarrow> bool" where
  "sends str f \<longleftrightarrow> (\<forall>c s. \<exists>s'. f c s = Some s' \<and> aside {c} s s' \<and>
     out (clients s' c) = out (clients s c) @ (if takes_output (clients s c) then str else []))"

lemma sends_reply: "sends str (\<lambda>c s. Some (addReplyString s c str))"
  by (auto simp: sends_def intro: aside_reply)

lemma aside_takes: "aside A s s' \<Longrightarrow> takes_output (clients s' c) = takes_output (clients s c)"
  unfolding aside_def by (rule takes_output_quiet, rule quiet_clients) simp

lemma sends_bind: "sends a f \<Longrightarrow> sends b g \<Longrightarrow> sends (a @ b) (\<lambda>c s. do { s \<leftarrow> f c s; g c s })"
  unfolding sends_def
proof (intro allI)
  fix c s
  assume f: "\<forall>c s. \<exists>s'. f c s = Some s' \<and> aside {c} s s' \<and>
      out (clients s' c) = out (clients s c) @ (if takes_output (clients s c) then a else [])"
    and g: "\<forall>c s. \<exists>s'. g c s = Some s' \<and> aside {c} s s' \<and>
      out (clients s' c) = out (clients s c) @ (if takes_output (clients s c) then b else [])"
  obtain s1 where 1: "f c s = Some s1" "aside {c} s s1"
    "out (clients s1 c) = out (clients s c) @ (if takes_output (clients s c) then a else [])" using f by blast
  obtain s2 where 2: "g c s1 = Some s2" "aside {c} s1 s2"
    "out (clients s2 c) = out (clients s1 c) @ (if takes_output (clients s1 c) then b else [])" using g by blast
  show "\<exists>s'. f c s \<bind> g c = Some s' \<and> aside {c} s s' \<and>
      out (clients s' c) = out (clients s c) @ (if takes_output (clients s c) then a @ b else [])"
    using 1 2 aside_trans [OF 1(2) 2(2)] aside_takes [OF 1(2)] by simp
qed

lemma sends_bulk: "sends (bulk a) (\<lambda>c s. addReplyBulk s c a)"
  using sends_bind [OF sends_bind [OF sends_reply sends_reply] sends_reply, of "item ''$'' (of_nat (length a))" a crlf]
  by (simp add: bulk_def)

lemma sends_args: "sends (concat (map bulk av)) (\<lambda>c s. foldM (\<lambda>a s. addReplyBulk s c a) av s)"
proof (induction av)
  case Nil
  then show ?case by (simp add: sends_def)
next
  case (Cons a av)
  then show ?case using sends_bind [OF sends_bulk [of a] Cons] by simp
qed

lemma sends_resp: "sends (resp av) (\<lambda>c s. do { s \<leftarrow> addReplyMultiBulkLen s c (length av); foldM (\<lambda>a s. addReplyBulk s c a) av s })"
  using sends_bind [OF sends_reply sends_args, of "item ''*'' (of_nat (length av))" av] by (simp add: resp_def)

abbreviation online :: "redisServer \<Rightarrow> nat \<Rightarrow> bool" where
  "online s c \<equiv> c_replstate (clients s c) \<noteq> SLAVE_STATE_WAIT_BGSAVE_START"

lemma foldM_slaves:
  assumes "sends str f"
  shows "\<exists>s'. foldM (\<lambda>c s. if c_replstate (clients s c) = SLAVE_STATE_WAIT_BGSAVE_START then Some s else f c s) l s = Some s' \<and>
    aside (set l) s s' \<and>
    (distinct l \<longrightarrow> (\<forall>c \<in> set l. out (clients s' c) = out (clients s c) @ (if online s c \<and> takes_output (clients s c) then str else [])))"
proof (induction l arbitrary: s)
  case (Cons c l)
  obtain s1 where 1: "(if c_replstate (clients s c) = SLAVE_STATE_WAIT_BGSAVE_START then Some s else f c s) = Some s1"
    "aside {c} s s1"
    "out (clients s1 c) = out (clients s c) @ (if online s c \<and> takes_output (clients s c) then str else [])"
    using assms by (cases "online s c") (force simp: sends_def)+
  obtain s2 where 2: "foldM (\<lambda>c s. if c_replstate (clients s c) = SLAVE_STATE_WAIT_BGSAVE_START then Some s else f c s) l s1 = Some s2"
    "aside (set l) s1 s2"
    "distinct l \<longrightarrow> (\<forall>c \<in> set l. out (clients s2 c) = out (clients s1 c) @ (if online s1 c \<and> takes_output (clients s1 c) then str else []))"
    using Cons.IH [of s1] by blast
  have "aside (set (c # l)) s s2" using 1(2) 2(2) by (simp add: aside_def)
  moreover have "out (clients s2 d) = out (clients s d) @ (if online s d \<and> takes_output (clients s d) then str else [])"
    if "distinct (c # l)" "d \<in> set (c # l)" for d
  proof (cases "d = c")
    case True
    then have "clients s2 d = clients s1 d" using that 2(2) by (auto simp: aside_def)
    then show ?thesis using True 1(3) by simp
  next
    case False
    then have "clients s1 d = clients s d" using 1(2) by (auto simp: aside_def)
    then show ?thesis using 2(3) that False by simp
  qed
  ultimately show ?case using 1(1) 2(1) by (auto simp: Let_def)
qed simp

text \<open>\<open>streamed w p s s'\<close>: the bytes \<open>p\<close> went to the backlog and to every replica that is online.\<close>

definition silent :: "redisServer \<Rightarrow> redisServer" where
  "silent s = quiet (no_backlog (s\<lparr>slaveseldb := 0\<rparr>))"

definition streamed :: "bytes \<Rightarrow> bytes \<Rightarrow> redisServer \<Rightarrow> redisServer \<Rightarrow> bool" where
  "streamed w p s s' \<longleftrightarrow> silent s' = silent s \<and> backlog_holds s' (lastn (repl_backlog_size s) (w @ p)) \<and>
     master_repl_offset s' = master_repl_offset s + int (length p) \<and>
     (\<forall>c. c \<notin> set (slaves s) \<longrightarrow> clients s' c = clients s c) \<and>
     (distinct (slaves s) \<longrightarrow> (\<forall>c \<in> set (slaves s).
        out (clients s' c) = out (clients s c) @ (if online s c \<and> takes_output (clients s c) then p else [])))"

lemma silent_quiet: "quiet s' = quiet s \<Longrightarrow> silent s' = silent s"
proof -
  have "silent s = (no_backlog (quiet s))\<lparr>slaveseldb := 0\<rparr>" for s by (simp add: silent_def no_backlog_def quiet_def)
  then show "quiet s' = quiet s \<Longrightarrow> silent s' = silent s" by simp
qed

lemma silent_no_backlog: "no_backlog s' = no_backlog s \<Longrightarrow> silent s' = silent s"
proof -
  have "silent s = quiet ((no_backlog s)\<lparr>slaveseldb := 0\<rparr>)" for s by (simp add: silent_def no_backlog_def quiet_def)
  then show "no_backlog s' = no_backlog s \<Longrightarrow> silent s' = silent s" by simp
qed

lemma core_silent: "silent s' = silent s \<Longrightarrow> core s' = core s"
proof -
  have "core s = erase (silent s)" for s by (simp add: core_def erase_def silent_def no_backlog_def quiet_def)
  then show "silent s' = silent s \<Longrightarrow> core s' = core s" by simp
qed

lemma silent_fields:
  assumes "silent s' = silent s"
  shows "slaves s' = slaves s" "repl_backlog_size s' = repl_backlog_size s"
    "quiet_client (clients s' c) = quiet_client (clients s c)" "masterhost s' = masterhost s"
    "orig_commands s' = orig_commands s" "aof_selected_db s' = aof_selected_db s"
  using arg_cong [OF assms, of slaves] arg_cong [OF assms, of repl_backlog_size] arg_cong [OF assms, of masterhost]
    arg_cong [OF assms, of "\<lambda>s. clients s c"] arg_cong [OF assms, of orig_commands] arg_cong [OF assms, of aof_selected_db]
  by (simp_all add: silent_def no_backlog_def quiet_def)

lemma online_quiet: "quiet_client cl' = quiet_client cl \<Longrightarrow> c_replstate cl' = c_replstate cl"
  by (rule quiet_client_fields)

lemma streamed_trans:
  assumes 1: "streamed w p s s1" and 2: "streamed (lastn (repl_backlog_size s) (w @ p)) q s1 s2"
  shows "streamed w (p @ q) s s2"
proof -
  have f: "silent s1 = silent s" using 1 by (simp add: streamed_def)
  note fs = silent_fields [OF f]
  have "out (clients s2 c) = out (clients s c) @ (if online s c \<and> takes_output (clients s c) then p @ q else [])"
    if "distinct (slaves s)" "c \<in> set (slaves s)" for c
    using 1 2 that online_quiet [OF fs(3) [of c]] takes_output_quiet [OF fs(3) [of c]]
    by (simp add: streamed_def fs(1))
  then show ?thesis using 1 2 by (simp add: streamed_def fs(1,2) lastn_append_lastn)
qed

lemma streamed_step:
  assumes "fed w p s s1" "sends p f"
  shows "\<exists>s2. foldM (\<lambda>c s. if c_replstate (clients s c) = SLAVE_STATE_WAIT_BGSAVE_START then Some s else f c s)
      (slaves s1) s1 = Some s2 \<and> streamed w p s s2"
proof -
  have b: "no_backlog s1 = no_backlog s" using assms(1) by (simp add: fed_def)
  have cl: "clients s1 = clients s" "slaves s1 = slaves s"
    using arg_cong [OF b, of clients] arg_cong [OF b, of slaves] by (simp_all add: no_backlog_def)
  obtain s2 where 2: "foldM (\<lambda>c s. if c_replstate (clients s c) = SLAVE_STATE_WAIT_BGSAVE_START then Some s else f c s)
      (slaves s1) s1 = Some s2" "aside (set (slaves s1)) s1 s2"
    "distinct (slaves s1) \<longrightarrow> (\<forall>c \<in> set (slaves s1).
       out (clients s2 c) = out (clients s1 c) @ (if online s1 c \<and> takes_output (clients s1 c) then p else []))"
    using foldM_slaves [OF assms(2)] by blast
  have q: "quiet s2 = quiet s1" using 2(2) by (simp add: aside_def)
  have "silent s2 = silent s" using silent_quiet [OF q] silent_no_backlog [OF b] by simp
  moreover have "backlog_holds s2 x = backlog_holds s1 x" "master_repl_offset s2 = master_repl_offset s1" for x
    by (simp_all add: backlog_holds_def quiet_fields [OF q] split: option.split)
  ultimately show ?thesis using 2 assms(1) unfolding streamed_def fed_def aside_def cl by auto
qed

text \<open>The stream of a command for database \<open>dictid\<close>: a \<open>SELECT\<close> first when the replicas are on another one.\<close>

definition stream :: "redisServer \<Rightarrow> int \<Rightarrow> bytes list \<Rightarrow> bytes" where
  "stream s dictid av =
     (if slaveseldb s \<noteq> dictid then resp [lit ''SELECT'', decimal (of_int dictid)] else []) @ resp av"

lemma select_cmd_resp: "select_cmd d = Some (resp [lit ''SELECT'', decimal (of_int d)])"
proof -
  have "length (decimal (of_int d)) < 2 ^ 63" using length_decimal_le [of "of_int d"] by simp
  moreover have "decimal 2 = dec 2" "decimal 6 = dec 6"
    using decimal_of_nat [of 2] decimal_of_nat [of 6] by simp_all
  ultimately show ?thesis
    by (simp add: select_cmd_def LONG_STR_SIZE_def resp_def bulk_def item_def decimal_of_nat lit_def dec_small)
qed

lemma backlog_holds_cong:
  "repl_backlog s' = repl_backlog s \<Longrightarrow> repl_backlog_size s' = repl_backlog_size s \<Longrightarrow>
   repl_backlog_idx s' = repl_backlog_idx s \<Longrightarrow> repl_backlog_histlen s' = repl_backlog_histlen s \<Longrightarrow>
   repl_backlog_off s' = repl_backlog_off s \<Longrightarrow> master_repl_offset s' = master_repl_offset s \<Longrightarrow>
   backlog_holds s' w = backlog_holds s w"
  by (simp add: backlog_holds_def split: option.split)

lemma backlog_present: "backlog_holds s w \<Longrightarrow> repl_backlog s \<noteq> None"
  by (cases "repl_backlog s") (simp_all add: backlog_holds_def)

lemma streamed_seldb: "streamed w p s s1 \<Longrightarrow> streamed w p s (s1\<lparr>slaveseldb := d\<rparr>)"
  using backlog_holds_cong [of "s1\<lparr>slaveseldb := d\<rparr>" s1]
  by (simp add: streamed_def silent_def no_backlog_def)

lemma streamed_refl: "backlog_holds s w \<Longrightarrow> streamed w [] s s"
proof -
  assume h: "backlog_holds s w"
  then have "length w \<le> repl_backlog_size s"
    by (auto simp: backlog_holds_def split: option.splits dest: backlog_state_length)
  then have "lastn (repl_backlog_size s) w = w" by (simp add: lastn_def)
  then show ?thesis using h by (simp add: streamed_def)
qed

lemma feedSlaves_select:
  assumes h: "backlog_holds s w"
  shows "\<exists>s'. (if slaveseldb s \<noteq> dictid then
      do { selectcmd \<leftarrow> select_cmd dictid;
           s \<leftarrow> (if repl_backlog s \<noteq> None then feedReplicationBacklog s selectcmd else Some s);
           Some (fold (\<lambda>slave s. if c_replstate (clients s slave) = SLAVE_STATE_WAIT_BGSAVE_START then s
                                 else addReply s slave selectcmd) (slaves s) s) }
      else Some s) = Some s' \<and>
    streamed w (if slaveseldb s \<noteq> dictid then resp [lit ''SELECT'', decimal (of_int dictid)] else []) s s'"
proof (cases "slaveseldb s = dictid")
  case True
  then show ?thesis using streamed_refl [OF h] by simp
next
  case False
  let ?p = "resp [lit ''SELECT'', decimal (of_int dictid)]"
  have b: "repl_backlog s \<noteq> None" using backlog_present [OF h] .
  obtain s1 where 1: "feedReplicationBacklog s ?p = Some s1" "fed w ?p s s1" using feed_fed [OF h] by blast
  obtain s2 where 2: "foldM (\<lambda>c s. if c_replstate (clients s c) = SLAVE_STATE_WAIT_BGSAVE_START then Some s
      else Some (addReplyString s c ?p)) (slaves s1) s1 = Some s2" "streamed w ?p s s2"
    using streamed_step [OF 1(2) sends_reply] by blast
  have "foldM (\<lambda>c s. if c_replstate (clients s c) = SLAVE_STATE_WAIT_BGSAVE_START then Some s
      else Some (addReplyString s c ?p)) (slaves s1) s1 =
      Some (fold (\<lambda>slave s. if c_replstate (clients s slave) = SLAVE_STATE_WAIT_BGSAVE_START then s
                                 else addReply s slave ?p) (slaves s1) s1)"
    by (rule foldM_Some) simp
  then show ?thesis using 1 2 False b by (simp add: select_cmd_resp)
qed

lemma feedSlaves_stream:
  assumes "masterhost s = None" and h: "backlog_holds s w"
  shows "\<exists>s'. replicationFeedSlaves s dictid av = Some s' \<and> streamed w (stream s dictid av) s s' \<and> slaveseldb s' = dictid"
proof -
  have b: "repl_backlog s \<noteq> None" using backlog_present [OF h] .
  let ?p = "if slaveseldb s \<noteq> dictid then resp [lit ''SELECT'', decimal (of_int dictid)] else []"
  obtain s1 where 1: "(if slaveseldb s \<noteq> dictid then
      do { selectcmd \<leftarrow> select_cmd dictid;
           s \<leftarrow> (if repl_backlog s \<noteq> None then feedReplicationBacklog s selectcmd else Some s);
           Some (fold (\<lambda>slave s. if c_replstate (clients s slave) = SLAVE_STATE_WAIT_BGSAVE_START then s
                                 else addReply s slave selectcmd) (slaves s) s) }
      else Some s) = Some s1" "streamed w ?p s s1" using feedSlaves_select [OF h] by blast
  let ?s2 = "s1\<lparr>slaveseldb := dictid\<rparr>" and ?w = "lastn (repl_backlog_size s) (w @ ?p)"
  have 2: "streamed w ?p s ?s2" using streamed_seldb [OF 1(2)] .
  then have h2: "backlog_holds ?s2 ?w" by (simp add: streamed_def)
  have b2: "repl_backlog ?s2 \<noteq> None" using backlog_present [OF h2] .
  let ?h = "lit ''*'' @ decimal (of_nat (length av)) @ crlf"
  obtain s3 where 3: "feedReplicationBacklog ?s2 ?h = Some s3" "fed ?w ?h ?s2 s3" using feed_fed [OF h2] by blast
  obtain s4 where 4: "foldM (\<lambda>a s. do { b \<leftarrow> ll2str (LONG_STR_SIZE + 2) (of_nat (length a));
                         s \<leftarrow> feedReplicationBacklog s (lit ''$'' @ b @ crlf);
                         s \<leftarrow> feedReplicationBacklog s a;
                         feedReplicationBacklog s crlf }) av s3 = Some s4" "fed ?w (resp av) ?s2 s4"
    using feed_args [OF 3(2), of av] by (auto simp: resp_def item_def)
  obtain s5 where 5: "foldM (\<lambda>slave s. if c_replstate (clients s slave) = SLAVE_STATE_WAIT_BGSAVE_START then Some s
      else do { s \<leftarrow> addReplyMultiBulkLen s slave (length av); foldM (\<lambda>a s. addReplyBulk s slave a) av s })
      (slaves s4) s4 = Some s5" "streamed ?w (resp av) ?s2 s5"
    using streamed_step [OF 4(2) sends_resp] by blast
  have "streamed w (?p @ resp av) s s5" using streamed_trans [OF 2] 5(2) by blast
  moreover have "slaveseldb s5 = dictid"
  proof -
    have "no_backlog s4 = no_backlog ?s2" using 4(2) by (simp add: fed_def)
    then have "slaveseldb s4 = dictid" by (drule_tac arg_cong [of _ _ slaveseldb]) (simp add: no_backlog_def)
    moreover have "quiet s5 = quiet s4" using foldM_slaves [OF sends_resp, of av "slaves s4" s4] 5(1) by (auto simp: aside_def)
    ultimately show ?thesis by (simp add: quiet_fields [of s5 s4])
  qed
  moreover have "replicationFeedSlaves s dictid av = Some s5"
    unfolding replicationFeedSlaves_def Let_def 1(1)
    using assms(1) b b2 3(1) 4(1) 5(1) by (auto simp: LONG_STR_SIZE_def)
  ultimately show ?thesis by (auto simp: stream_def)
qed

subsection \<open>The append only file\<close>

lemma catGeneric_resp [simp]: "catAppendOnlyGenericCommand dst av = Some (dst @ resp av)"
proof -
  have "foldM (\<lambda>a dst. do { b \<leftarrow> ll2str 31 (of_nat (length a)); Some (dst @ lit ''$'' @ b @ crlf @ a @ crlf) }) av d =
      Some (d @ concat (map bulk av))" for d
    by (induction av arbitrary: d) (simp_all add: bulk_def item_def)
  then show ?thesis by (simp add: catAppendOnlyGenericCommand_def resp_def item_def)
qed

definition no_aof :: "redisServer \<Rightarrow> redisServer" where
  "no_aof s = s\<lparr>aof_selected_db := 0, aof_buf := [], aof_rewrite_buf_blocks := []\<rparr>"

lemma no_aof_upd [simp]: "no_aof (s\<lparr>aof_selected_db := a\<rparr>) = no_aof s" "no_aof (s\<lparr>aof_buf := b\<rparr>) = no_aof s"
  "no_aof (s\<lparr>aof_rewrite_buf_blocks := r\<rparr>) = no_aof s"
  by (simp_all add: no_aof_def)

lemma feedAof_frame:
  assumes "feedAppendOnlyFile s cmd d av = Some s'"
  shows "no_aof s' = no_aof s"
proof -
  obtain b0 s0 b1 where 1: "feedAppendOnlyFile_select s d = Some (b0, s0)" "s' = feedAppendOnlyFile_store s0 b1"
    using assms by (auto simp: feedAppendOnlyFile_def bind_eq_Some_conv)
  have "no_aof s0 = no_aof s" using 1(1) by (auto simp: feedAppendOnlyFile_select_def split: if_splits)
  then show ?thesis by (simp add: 1(2) feedAppendOnlyFile_store_def Let_def)
qed

definition plain_feed :: "string set" where
  "plain_feed = - {''expireCommand'', ''pexpireCommand'', ''expireatCommand'', ''setexCommand'', ''psetexCommand'', ''setCommand''}"

lemma feedAof_plain: "proc cmd \<in> plain_feed \<Longrightarrow> \<exists>s'. feedAppendOnlyFile s cmd d av = Some s'"
  by (auto simp: feedAppendOnlyFile_def feedAppendOnlyFile_select_def feedAppendOnlyFile_cmd_def plain_feed_def)

section \<open>The invariant of propagation\<close>

definition prop_ok :: "redisServer \<Rightarrow> bool" where
  "prop_ok s \<longleftrightarrow> (repl_backlog s = None \<longrightarrow> slaves s = []) \<and> (repl_backlog s \<noteq> None \<longrightarrow> (\<exists>w. backlog_holds s w)) \<and>
     (\<exists>cmd. orig_commands s (lit ''del'') = Some cmd \<and> proc cmd = ''delCommand'') \<and>
     (\<exists>cmd. orig_commands s (lit ''multi'') = Some cmd \<and> proc cmd = ''multiCommand'')"

lemma prop_ok_cong:
  "repl_backlog s' = repl_backlog s \<Longrightarrow> repl_backlog_size s' = repl_backlog_size s \<Longrightarrow>
   repl_backlog_idx s' = repl_backlog_idx s \<Longrightarrow> repl_backlog_histlen s' = repl_backlog_histlen s \<Longrightarrow>
   repl_backlog_off s' = repl_backlog_off s \<Longrightarrow> master_repl_offset s' = master_repl_offset s \<Longrightarrow>
   slaves s' = slaves s \<Longrightarrow> orig_commands s' = orig_commands s \<Longrightarrow> prop_ok s' = prop_ok s"
  using backlog_holds_cong [of s' s] by (simp add: prop_ok_def)

lemma prop_ok_quiet: "quiet s' = quiet s \<Longrightarrow> prop_ok s' = prop_ok s"
  by (rule prop_ok_cong; rule quiet_fields; assumption)

lemma feedSlaves_ok:
  assumes "prop_ok s"
  shows "\<exists>s'. replicationFeedSlaves s d av = Some s' \<and> core s' = core s \<and> prop_ok s' \<and>
    (\<forall>c. c \<notin> set (slaves s) \<longrightarrow> clients s' c = clients s c)"
proof (cases "masterhost s = None \<and> repl_backlog s \<noteq> None")
  case True
  then obtain w where "backlog_holds s w" using assms by (auto simp: prop_ok_def)
  then obtain s' where 1: "replicationFeedSlaves s d av = Some s'" "streamed w (stream s d av) s s'"
    using feedSlaves_stream True by blast
  have f: "silent s' = silent s" using 1(2) by (simp add: streamed_def)
  have h: "backlog_holds s' (lastn (repl_backlog_size s) (w @ stream s d av))" using 1(2) by (simp add: streamed_def)
  then have "prop_ok s'" using assms backlog_present [OF h] by (auto simp: prop_ok_def silent_fields [OF f])
  then show ?thesis using 1 core_silent [OF f] by (simp add: streamed_def)
next
  case False
  then have "replicationFeedSlaves s d av = Some s" using assms
    by (cases "masterhost s") (auto simp: replicationFeedSlaves_def prop_ok_def)
  then show ?thesis using assms by simp
qed

lemma core_no_aof: "no_aof s' = no_aof s \<Longrightarrow> core s' = core s"
proof -
  have "core s = erase (quiet (no_aof s))" for s by (simp add: core_def erase_def no_aof_def quiet_def)
  then show "no_aof s' = no_aof s \<Longrightarrow> core s' = core s" by simp
qed

lemma no_aof_fields:
  assumes "no_aof s' = no_aof s"
  shows "repl_backlog s' = repl_backlog s" "repl_backlog_size s' = repl_backlog_size s"
   "repl_backlog_idx s' = repl_backlog_idx s" "repl_backlog_histlen s' = repl_backlog_histlen s"
   "repl_backlog_off s' = repl_backlog_off s" "master_repl_offset s' = master_repl_offset s"
   "slaves s' = slaves s" "orig_commands s' = orig_commands s" "clients s' = clients s"
  using arg_cong [OF assms, of repl_backlog] arg_cong [OF assms, of repl_backlog_size]
    arg_cong [OF assms, of repl_backlog_idx] arg_cong [OF assms, of repl_backlog_histlen]
    arg_cong [OF assms, of repl_backlog_off] arg_cong [OF assms, of master_repl_offset]
    arg_cong [OF assms, of slaves] arg_cong [OF assms, of orig_commands] arg_cong [OF assms, of clients]
  by (simp_all add: no_aof_def)

lemma feedAof_ok:
  assumes "feedAppendOnlyFile s cmd d av = Some s'"
  shows "core s' = core s" "prop_ok s' = prop_ok s" "clients s' = clients s" "slaves s' = slaves s"
proof -
  note f = feedAof_frame [OF assms]
  show "core s' = core s" using core_no_aof [OF f] .
  show "prop_ok s' = prop_ok s" by (rule prop_ok_cong; rule no_aof_fields [OF f])
  show "clients s' = clients s" "slaves s' = slaves s" by (rule no_aof_fields [OF f])+
qed

section \<open>The simulation relation\<close>

text \<open>\<open>rel c s x y\<close>: the server \<open>s\<close> has core \<open>x\<close> and satisfies the invariant of propagation, and the
  output queued for the client \<open>c\<close>, if it is a bystander, is \<open>y\<close>.\<close>

definition rel :: "nat \<Rightarrow> redisServer \<Rightarrow> redisServer \<Rightarrow> bytes \<Rightarrow> bool" where
  "rel c s x y \<longleftrightarrow> core s = x \<and> prop_ok s \<and> (bystander s c \<longrightarrow> out (clients s c) = y)"

definition says :: "redisServer \<Rightarrow> nat \<Rightarrow> bytes \<Rightarrow> bytes" where
  "says x c str = (if takes_output (clients x c) then str else [])"

lemma rel_reply: "rel c s x y \<Longrightarrow> rel c (addReplyString s c str) x (y @ says x c str)"
  by (auto simp: rel_def says_def core_quiet [of "addReplyString s c str" s] prop_ok_quiet [of "addReplyString s c str" s]
      bystander_def pubsub_clients_def)

lemma bystander_cong: "core s' = core s \<Longrightarrow> bystander s' c = bystander s c"
  by (metis bystander_core)

lemma rel_notify: "rel c s x y \<Longrightarrow> \<exists>s'. notifyKeyspaceEvent s ty ev key d = Some s' \<and> rel c s' x y"
proof -
  assume r: "rel c s x y"
  obtain s' where 1: "notifyKeyspaceEvent s ty ev key d = Some s'" "aside (pubsub_clients s) s s'"
    using notify_aside by blast
  have q: "quiet s' = quiet s" and cl: "\<And>c. bystander s c \<Longrightarrow> clients s' c = clients s c"
    using 1(2) by (auto simp: aside_def bystander_def)
  show ?thesis using 1(1) r core_quiet [OF q] prop_ok_quiet [OF q] cl bystander_cong [OF core_quiet [OF q]]
    by (simp add: rel_def)
qed

lemma rel_feedSlaves: "rel c s x y \<Longrightarrow> \<exists>s'. replicationFeedSlaves s d av = Some s' \<and> rel c s' x y"
proof -
  assume r: "rel c s x y"
  obtain s' where 1: "replicationFeedSlaves s d av = Some s'" "core s' = core s" "prop_ok s'"
    "\<forall>c. c \<notin> set (slaves s) \<longrightarrow> clients s' c = clients s c"
    using feedSlaves_ok r by (metis rel_def)
  then show ?thesis using r bystander_cong [OF 1(2)] by (auto simp: rel_def bystander_def)
qed

lemma rel_feedAof: "rel c s x y \<Longrightarrow> feedAppendOnlyFile s cmd d av = Some s' \<Longrightarrow> rel c s' x y"
  using bystander_cong [of s' s] by (simp add: rel_def feedAof_ok)

lemma rel_upd:
  assumes "rel c s x y" "core s' = x'" "prop_ok s' = prop_ok s" "bystander s' c = bystander s c"
    "out (clients s' c) = out (clients s c)"
  shows "rel c s' x' y"
  using assms by (simp add: rel_def)

lemma says_append: "says x c a @ says x c b = says x c (a @ b)"
  by (simp add: says_def)

declare reply_bulk_def [simp del] addReplyErrorLength_def [simp del] addReplyStatusLength_def [simp del]

lemma rel_reply_bulk: "rel c s x y \<Longrightarrow> rel c (reply_bulk s c b) x (y @ says x c (bulk b))"
proof -
  assume "rel c s x y"
  then show ?thesis
    using rel_reply [OF rel_reply [OF rel_reply], of c s x y "item ''$'' (of_nat (length b))" b crlf]
    by (simp add: reply_bulk_def bulk_def says_append)
qed

definition err_line :: "bytes \<Rightarrow> bytes" where
  "err_line str = (if str = [] \<or> hd str \<noteq> 45 then lit ''-ERR '' else []) @ str @ crlf"

definition status_line :: "bytes \<Rightarrow> bytes" where
  "status_line str = lit ''+'' @ str @ crlf"

lemma rel_reply_error: "rel c s x y \<Longrightarrow> rel c (addReplyErrorLength s c str) x (y @ says x c (err_line str))"
proof -
  assume r: "rel c s x y"
  show ?thesis
    using rel_reply [OF rel_reply [OF rel_reply [OF r]], of "lit ''-ERR ''" str crlf] rel_reply [OF rel_reply [OF r], of str crlf]
    by (simp add: addReplyErrorLength_def err_line_def says_append)
qed

lemma rel_reply_status: "rel c s x y \<Longrightarrow> rel c (addReplyStatusLength s c str) x (y @ says x c (status_line str))"
proof -
  assume r: "rel c s x y"
  show ?thesis using rel_reply [OF rel_reply [OF rel_reply [OF r]], of "lit ''+''" str crlf]
    by (simp add: addReplyStatusLength_def status_line_def says_append del: lit_char)
qed

lemma relI: "prop_ok s \<Longrightarrow> rel c s (core s) (out (clients s c))"
  by (simp add: rel_def)

end
