(* ===== verification/Db.thy ===== *)
theory Db
  imports Frame
begin

text \<open>The key space (\<open>db.c\<close>, with the parts of \<open>lazyfree.c\<close>, \<open>expire.c\<close>, \<open>multi.c\<close> and \<open>blocked.c\<close> it
  calls): lookups, creation, replacement and deletion of keys, expires, the hooks for watched keys
  and blocked clients, and the index of keys by cluster slot.  A database is given by its index.
  Freeing memory in the background has no effect on the model: the synchronous and the asynchronous
  deletion differ in the command they propagate.\<close>

section \<open>Keys by slot\<close>

definition slotToKeyUpdateKey :: "redisServer \<Rightarrow> bytes \<Rightarrow> bool \<Rightarrow> redisServer" where
  "slotToKeyUpdateKey s key add =
     (let hashslot = keyHashSlot key;
          s = s\<lparr>slots_keys_count := (slots_keys_count s)(hashslot := slots_keys_count s hashslot + (if add then 1 else - 1))\<rparr> in
      if add then s\<lparr>slots_to_keys := insert (hashslot, key) (slots_to_keys s)\<rparr>
      else s\<lparr>slots_to_keys := slots_to_keys s - {(hashslot, key)}\<rparr>)"

definition slotToKeyAdd :: "redisServer \<Rightarrow> bytes \<Rightarrow> redisServer" where
  "slotToKeyAdd s key = slotToKeyUpdateKey s key True"

definition slotToKeyDel :: "redisServer \<Rightarrow> bytes \<Rightarrow> redisServer" where
  "slotToKeyDel s key = slotToKeyUpdateKey s key False"

definition slotToKeyFlush :: "redisServer \<Rightarrow> redisServer" where
  "slotToKeyFlush s = s\<lparr>slots_to_keys := {}, slots_keys_count := \<lambda>_. 0\<rparr>"

definition slotToKeyFlushAsync :: "redisServer \<Rightarrow> redisServer" where
  "slotToKeyFlushAsync s = s\<lparr>slots_to_keys := {}, slots_keys_count := \<lambda>_. 0\<rparr>"

section \<open>Hooks: blocked clients and watched keys\<close>

definition signalKeyAsReady :: "redisServer \<Rightarrow> nat \<Rightarrow> bytes \<Rightarrow> redisServer" where
  "signalKeyAsReady s d key =
     (if d_blocking_keys (db_of s d) key = None then s
      else if key \<in> d_ready_keys (db_of s d) then s
      else upd_db d (\<lambda>db. db\<lparr>d_ready_keys := insert key (d_ready_keys db)\<rparr>)
             (s\<lparr>ready_keys := ready_keys s @ [(d, key)]\<rparr>))"

definition touchWatchedKey :: "redisServer \<Rightarrow> nat \<Rightarrow> bytes \<Rightarrow> redisServer" where
  "touchWatchedKey s d key =
     (case d_watched_keys (db_of s d) key of
        None \<Rightarrow> s
      | Some cs \<Rightarrow> fold (\<lambda>c s. set_flag c CLIENT_DIRTY_CAS s) cs s)"

text \<open>\<open>dbid\<close> is \<open>None\<close> for a flush of all databases.\<close>

definition touchWatchedKeysOnFlush :: "redisServer \<Rightarrow> nat option \<Rightarrow> redisServer" where
  "touchWatchedKeysOnFlush s dbid =
     fold (\<lambda>c s.
       fold (\<lambda>(d, key) s.
         if (dbid = None \<or> dbid = Some d) \<and> d_dict (db_of s d) key \<noteq> None then set_flag c CLIENT_DIRTY_CAS s else s)
         (c_watched_keys (clients s c)) s)
       (client_list s) s"

definition signalModifiedKey :: "redisServer \<Rightarrow> nat \<Rightarrow> bytes \<Rightarrow> redisServer" where
  "signalModifiedKey s d key = touchWatchedKey s d key"

definition signalFlushedDb :: "redisServer \<Rightarrow> nat option \<Rightarrow> redisServer" where
  "signalFlushedDb s dbid = touchWatchedKeysOnFlush s dbid"

section \<open>Expires and deletion\<close>

text \<open>\<open>removeExpire\<close> and \<open>getExpire\<close> assert that a key with an expire is a key of the database.\<close>

definition removeExpire :: "redisServer \<Rightarrow> nat \<Rightarrow> bytes \<Rightarrow> (bool \<times> redisServer) option" where
  "removeExpire s d key =
     (if d_dict (db_of s d) key = None then None
      else Some (d_expires (db_of s d) key \<noteq> None,
                 upd_db d (\<lambda>db. db\<lparr>d_expires := (d_expires db)(key := None)\<rparr>) s))"

definition rememberSlaveKeyWithExpire :: "redisServer \<Rightarrow> nat \<Rightarrow> bytes \<Rightarrow> redisServer" where
  "rememberSlaveKeyWithExpire s d key =
     (let m = (case slaveKeysWithExpire s of None \<Rightarrow> Map.empty | Some m \<Rightarrow> m);
          s = s\<lparr>slaveKeysWithExpire := Some m\<rparr> in
      if d > 63 then s
      else
        let dbids = (case m key of None \<Rightarrow> 0 | Some b \<Rightarrow> b) in
        s\<lparr>slaveKeysWithExpire := Some (m(key \<mapsto> dbids OR push_bit d 1))\<rparr>)"

definition flushSlaveKeysWithExpireList :: "redisServer \<Rightarrow> redisServer" where
  "flushSlaveKeysWithExpireList s = s\<lparr>slaveKeysWithExpire := None\<rparr>"

text \<open>The client is \<open>None\<close> when the expire is not set by a command of a user.\<close>

definition setExpire :: "redisServer \<Rightarrow> nat option \<Rightarrow> nat \<Rightarrow> bytes \<Rightarrow> i64 \<Rightarrow> redisServer option" where
  "setExpire s c d key when =
     (if d_dict (db_of s d) key = None then None
      else
        let s = upd_db d (\<lambda>db. db\<lparr>d_expires := (d_expires db)(key \<mapsto> when)\<rparr>) s;
            writable_slave = (masterhost s \<noteq> None \<and> \<not> repl_slave_ro s) in
        Some (case c of
            Some c \<Rightarrow> if writable_slave \<and> CLIENT_MASTER \<notin> flags s c then rememberSlaveKeyWithExpire s d key else s
          | None \<Rightarrow> s))"

definition getExpire :: "redisServer \<Rightarrow> nat \<Rightarrow> bytes \<Rightarrow> i64 option" where
  "getExpire s d key =
     (case d_expires (db_of s d) key of
        None \<Rightarrow> Some (- 1)
      | Some when \<Rightarrow> if d_dict (db_of s d) key = None then None else Some when)"

definition propagateExpire :: "redisServer \<Rightarrow> nat \<Rightarrow> bytes \<Rightarrow> bool \<Rightarrow> redisServer option" where
  "propagateExpire s d key lazy =
     (let av = [if lazy then lit ''UNLINK'' else lit ''DEL'', key] in
      do { s \<leftarrow> (if aof_state s \<noteq> AOF_OFF then
                  do { cmd \<leftarrow> orig_commands s (lit ''del''); feedAppendOnlyFile s cmd (int d) av }
                else Some s);
           replicationFeedSlaves s (int d) av })"

definition keyIsExpired :: "redisServer \<Rightarrow> nat \<Rightarrow> bytes \<Rightarrow> bool option" where
  "keyIsExpired s d key =
     do { when \<leftarrow> getExpire s d key;
          if sint when < 0 then Some False
          else if loading s then Some False
          else
            let now = (if lua_caller s \<noteq> None then lua_time_start s else mstime s) in
            Some (sint now > sint when) }"

definition dbSyncDelete :: "redisServer \<Rightarrow> nat \<Rightarrow> bytes \<Rightarrow> bool \<times> redisServer" where
  "dbSyncDelete s d key =
     (let s = upd_db d (\<lambda>db. db\<lparr>d_expires := (d_expires db)(key := None)\<rparr>) s in
      if d_dict (db_of s d) key \<noteq> None then
        let s = upd_db d (\<lambda>db. db\<lparr>d_dict := (d_dict db)(key := None)\<rparr>) s in
        (True, if cluster_enabled s then slotToKeyDel s key else s)
      else (False, s))"

definition dbAsyncDelete :: "redisServer \<Rightarrow> nat \<Rightarrow> bytes \<Rightarrow> bool \<times> redisServer" where
  "dbAsyncDelete s d key =
     (let s = upd_db d (\<lambda>db. db\<lparr>d_expires := (d_expires db)(key := None)\<rparr>) s;
          de = d_dict (db_of s d) key;
          s = upd_db d (\<lambda>db. db\<lparr>d_dict := (d_dict db)(key := None)\<rparr>) s in
      if de \<noteq> None then (True, if cluster_enabled s then slotToKeyDel s key else s) else (False, s))"

definition dbDelete :: "redisServer \<Rightarrow> nat \<Rightarrow> bytes \<Rightarrow> bool \<times> redisServer" where
  "dbDelete s d key = (if lazyfree_lazy_server_del s then dbAsyncDelete s d key else dbSyncDelete s d key)"

definition expireIfNeeded :: "redisServer \<Rightarrow> nat \<Rightarrow> bytes \<Rightarrow> (bool \<times> redisServer) option" where
  "expireIfNeeded s d key =
     do { expired \<leftarrow> keyIsExpired s d key;
          if \<not> expired then Some (False, s)
          else if masterhost s \<noteq> None then Some (True, s)
          else
            let s = s\<lparr>stat_expiredkeys := stat_expiredkeys s + 1\<rparr> in
            do { s \<leftarrow> propagateExpire s d key (lazyfree_lazy_expire s);
                 s \<leftarrow> notifyKeyspaceEvent s NOTIFY_EXPIRED ''expired'' key d;
                 Some (if lazyfree_lazy_expire s then dbAsyncDelete s d key else dbSyncDelete s d key) } }"

section \<open>Lookups\<close>

definition lookupKey :: "redisServer \<Rightarrow> nat \<Rightarrow> bytes \<Rightarrow> bool \<Rightarrow> robj option \<times> redisServer" where
  "lookupKey s d key notouch =
     (case d_dict (db_of s d) key of
        None \<Rightarrow> (None, s)
      | Some val \<Rightarrow>
          if rdb_child_pid s = - 1 \<and> aof_child_pid s = - 1 \<and> \<not> notouch then
            let (val, s) = (if MAXMEMORY_FLAG_LFU \<in> maxmemory_policy s then updateLFU s val
                            else (val\<lparr>lru := LRU_CLOCK s\<rparr>, s)) in
            (Some val, upd_db d (\<lambda>db. db\<lparr>d_dict := (d_dict db)(key \<mapsto> val)\<rparr>) s)
          else (Some val, s))"

definition lookupKeyReadWithFlags :: "redisServer \<Rightarrow> nat \<Rightarrow> bytes \<Rightarrow> bool \<Rightarrow> (robj option \<times> redisServer) option" where
  "lookupKeyReadWithFlags s d key notouch =
     do { (expired, s) \<leftarrow> expireIfNeeded s d key;
          if expired \<and>
             (masterhost s = None \<or>
              (case current_client s of
                 None \<Rightarrow> False
               | Some cc \<Rightarrow> current_client s \<noteq> sv_master s \<and>
                   (case c_cmd (clients s cc) of None \<Rightarrow> False | Some cmd \<Rightarrow> CMD_READONLY \<in> cm_flags cmd)))
          then Some (None, s\<lparr>stat_keyspace_misses := stat_keyspace_misses s + 1\<rparr>)
          else
            let (val, s) = lookupKey s d key notouch in
            Some (val, if val = None then s\<lparr>stat_keyspace_misses := stat_keyspace_misses s + 1\<rparr>
                       else s\<lparr>stat_keyspace_hits := stat_keyspace_hits s + 1\<rparr>) }"

definition lookupKeyRead :: "redisServer \<Rightarrow> nat \<Rightarrow> bytes \<Rightarrow> (robj option \<times> redisServer) option" where
  "lookupKeyRead s d key = lookupKeyReadWithFlags s d key False"

definition lookupKeyWrite :: "redisServer \<Rightarrow> nat \<Rightarrow> bytes \<Rightarrow> (robj option \<times> redisServer) option" where
  "lookupKeyWrite s d key =
     do { (expired, s) \<leftarrow> expireIfNeeded s d key; Some (lookupKey s d key False) }"

definition lookupKeyReadOrReply :: "redisServer \<Rightarrow> nat \<Rightarrow> bytes \<Rightarrow> bytes \<Rightarrow> (robj option \<times> redisServer) option" where
  "lookupKeyReadOrReply s c key reply =
     do { (ob, s) \<leftarrow> lookupKeyRead s (c_db (clients s c)) key;
          Some (ob, if ob = None then addReply s c reply else s) }"

definition lookupKeyWriteOrReply :: "redisServer \<Rightarrow> nat \<Rightarrow> bytes \<Rightarrow> bytes \<Rightarrow> (robj option \<times> redisServer) option" where
  "lookupKeyWriteOrReply s c key reply =
     do { (ob, s) \<leftarrow> lookupKeyWrite s (c_db (clients s c)) key;
          Some (ob, if ob = None then addReply s c reply else s) }"

section \<open>Writing keys\<close>

definition dbAdd :: "redisServer \<Rightarrow> nat \<Rightarrow> bytes \<Rightarrow> robj \<Rightarrow> redisServer option" where
  "dbAdd s d key val =
     (if d_dict (db_of s d) key \<noteq> None then None
      else
        let s = upd_db d (\<lambda>db. db\<lparr>d_dict := (d_dict db)(key \<mapsto> val)\<rparr>) s;
            s = (if otype val = OBJ_LIST \<or> otype val = OBJ_ZSET then signalKeyAsReady s d key else s) in
        Some (if cluster_enabled s then slotToKeyAdd s key else s))"

definition dbOverwrite :: "redisServer \<Rightarrow> nat \<Rightarrow> bytes \<Rightarrow> robj \<Rightarrow> redisServer option" where
  "dbOverwrite s d key val =
     (case d_dict (db_of s d) key of
        None \<Rightarrow> None
      | Some old \<Rightarrow>
          let val = (if MAXMEMORY_FLAG_LFU \<in> maxmemory_policy s then val\<lparr>lru := lru old\<rparr> else val) in
          Some (upd_db d (\<lambda>db. db\<lparr>d_dict := (d_dict db)(key \<mapsto> val)\<rparr>) s))"

definition setKey :: "redisServer \<Rightarrow> nat \<Rightarrow> bytes \<Rightarrow> robj \<Rightarrow> redisServer option" where
  "setKey s d key val =
     do { (ob, s) \<leftarrow> lookupKeyWrite s d key;
          s \<leftarrow> (if ob = None then dbAdd s d key val else dbOverwrite s d key val);
          (_, s) \<leftarrow> removeExpire s d key;
          Some (signalModifiedKey s d key) }"

definition dbExists :: "redisServer \<Rightarrow> nat \<Rightarrow> bytes \<Rightarrow> bool" where
  "dbExists s d key = (d_dict (db_of s d) key \<noteq> None)"

text \<open>An object that is not shared and raw encoded is returned as it is.\<close>

definition dbUnshareStringValue :: "redisServer \<Rightarrow> nat \<Rightarrow> bytes \<Rightarrow> robj \<Rightarrow> (robj \<times> redisServer) option" where
  "dbUnshareStringValue s d key ob =
     (case ptr ob of
        Str_RAW b \<Rightarrow> Some (ob, s)
      | _ \<Rightarrow>
          do { decoded \<leftarrow> getDecodedObject s ob;
               b \<leftarrow> (case ptr decoded of Str_RAW b \<Rightarrow> Some b | Str_EMBSTR b \<Rightarrow> Some b | _ \<Rightarrow> None);
               let ob = createRawStringObject s b in
               do { s \<leftarrow> dbOverwrite s d key ob;
                    ob \<leftarrow> d_dict (db_of s d) key;
                    Some (ob, s) } })"

definition emptyDbAsync :: "redisServer \<Rightarrow> nat \<Rightarrow> redisServer" where
  "emptyDbAsync s d = upd_db d (\<lambda>db. db\<lparr>d_dict := Map.empty, d_expires := Map.empty\<rparr>) s"

definition emptyDb :: "redisServer \<Rightarrow> int \<Rightarrow> bool \<Rightarrow> int \<times> redisServer" where
  "emptyDb s dbnum async =
     (if dbnum < - 1 \<or> dbnum \<ge> int (length (dbs s)) then (- 1, s)
      else
        let (startdb, enddb) = (if dbnum = - 1 then (0, int (length (dbs s)) - 1) else (dbnum, dbnum));
            (removed, s) = fold (\<lambda>j (removed, s).
                (removed + int (card (dom (d_dict (db_of s j)))),
                 if async then emptyDbAsync s j
                 else upd_db j (\<lambda>db. db\<lparr>d_dict := Map.empty, d_expires := Map.empty\<rparr>) s))
              [nat startdb..<nat (enddb + 1)] (0, s);
            s = (if cluster_enabled s then (if async then slotToKeyFlushAsync s else slotToKeyFlush s) else s) in
        (removed, if dbnum = - 1 then flushSlaveKeysWithExpireList s else s))"

definition selectDb :: "redisServer \<Rightarrow> nat \<Rightarrow> int \<Rightarrow> bool \<times> redisServer" where
  "selectDb s c dbid =
     (if dbid < 0 \<or> dbid \<ge> int (length (dbs s)) then (False, s)
      else (True, upd_cl c (\<lambda>cl. cl\<lparr>c_db := nat dbid\<rparr>) s))"

section \<open>The key space on the core\<close>

text \<open>What the operations do once their side effects are erased: a key that is past its time is
  removed when it is looked at (on a master), a deletion removes value, expire and slot entry.\<close>

definition now :: "redisServer \<Rightarrow> i64" where
  "now x = (if lua_caller x \<noteq> None then lua_time_start x else mstime x)"

definition expired :: "redisServer \<Rightarrow> nat \<Rightarrow> bytes \<Rightarrow> bool" where
  "expired x d k = (case d_expires (db_of x d) k of
     None \<Rightarrow> False | Some w \<Rightarrow> 0 \<le> sint w \<and> \<not> loading x \<and> sint w < sint (now x))"

definition del_key :: "nat \<Rightarrow> bytes \<Rightarrow> redisServer \<Rightarrow> redisServer" where
  "del_key d k x =
     (let present = (d_dict (db_of x d) k \<noteq> None);
          x = upd_db d (\<lambda>db. db\<lparr>d_expires := (d_expires db)(k := None), d_dict := (d_dict db)(k := None)\<rparr>) x in
      if present \<and> cluster_enabled x then slotToKeyDel x k else x)"

definition expire_key :: "nat \<Rightarrow> bytes \<Rightarrow> redisServer \<Rightarrow> redisServer" where
  "expire_key d k x = (if expired x d k \<and> masterhost x = None then del_key d k x else x)"

definition add_key :: "nat \<Rightarrow> bytes \<Rightarrow> optr \<Rightarrow> redisServer \<Rightarrow> redisServer" where
  "add_key d k p x =
     (let x = upd_db d (\<lambda>db. db\<lparr>d_dict := (d_dict db)(k \<mapsto> \<lparr>ptr = p, lru = 0\<rparr>)\<rparr>) x;
          x = (if otype \<lparr>ptr = p, lru = 0\<rparr> \<in> {OBJ_LIST, OBJ_ZSET} then signalKeyAsReady x d k else x) in
      if cluster_enabled x then slotToKeyAdd x k else x)"

definition put_key :: "nat \<Rightarrow> bytes \<Rightarrow> optr \<Rightarrow> redisServer \<Rightarrow> redisServer" where
  "put_key d k p x = upd_db d (\<lambda>db. db\<lparr>d_dict := (d_dict db)(k \<mapsto> \<lparr>ptr = p, lru = 0\<rparr>)\<rparr>) x"

definition set_exp :: "nat \<Rightarrow> bytes \<Rightarrow> i64 option \<Rightarrow> redisServer \<Rightarrow> redisServer" where
  "set_exp d k t x = upd_db d (\<lambda>db. db\<lparr>d_expires := (d_expires db)(k := t)\<rparr>) x"

definition has_key :: "redisServer \<Rightarrow> nat \<Rightarrow> bytes \<Rightarrow> bool" where
  "has_key x d k \<longleftrightarrow> d_dict (db_of x d) k \<noteq> None"

text \<open>What a lookup for reading sees: on a replica a key past its time is still there for its master.\<close>

definition hides_expired :: "redisServer \<Rightarrow> bool" where
  "hides_expired x \<longleftrightarrow> masterhost x = None \<or>
     (case current_client x of
        None \<Rightarrow> False
      | Some cc \<Rightarrow> current_client x \<noteq> sv_master x \<and>
          (case c_cmd (clients x cc) of None \<Rightarrow> False | Some cmd \<Rightarrow> CMD_READONLY \<in> cm_flags cmd))"

definition read_key :: "redisServer \<Rightarrow> nat \<Rightarrow> bytes \<Rightarrow> optr option" where
  "read_key x d k =
     (if expired x d k \<and> hides_expired x then None else map_option ptr (d_dict (db_of x d) k))"

definition write_key :: "redisServer \<Rightarrow> nat \<Rightarrow> bytes \<Rightarrow> optr option" where
  "write_key x d k =
     (if expired x d k \<and> masterhost x = None then None else map_option ptr (d_dict (db_of x d) k))"

text \<open>Every key with an expire is a key of the database.\<close>

definition dbs_ok :: "redisServer \<Rightarrow> bool" where
  "dbs_ok x \<longleftrightarrow> (\<forall>d < length (dbs x). dom (d_expires (db_of x d)) \<subseteq> dom (d_dict (db_of x d)))"

subsection \<open>Reading and writing databases\<close>

lemma upd_db_sel [simp]:
  "length (dbs (upd_db d f x)) = length (dbs x)"
  "d < length (dbs x) \<Longrightarrow> dbs (upd_db d f x) ! e = (if e = d then f (dbs x ! d) else dbs x ! e)"
  "clients (upd_db d f x) = clients x" "masterhost (upd_db d f x) = masterhost x" "loading (upd_db d f x) = loading x"
  "lua_caller (upd_db d f x) = lua_caller x" "lua_time_start (upd_db d f x) = lua_time_start x"
  "mstime (upd_db d f x) = mstime x" "cluster_enabled (upd_db d f x) = cluster_enabled x"
  "slots_to_keys (upd_db d f x) = slots_to_keys x" "slots_keys_count (upd_db d f x) = slots_keys_count x"
  "dirty (upd_db d f x) = dirty x" "repl_slave_ro (upd_db d f x) = repl_slave_ro x"
  "maxmemory_policy (upd_db d f x) = maxmemory_policy x" "client_list (upd_db d f x) = client_list x"
  "current_client (upd_db d f x) = current_client x" "sv_master (upd_db d f x) = sv_master x"
  "lazyfree_lazy_expire (upd_db d f x) = lazyfree_lazy_expire x"
  "lazyfree_lazy_server_del (upd_db d f x) = lazyfree_lazy_server_del x"
  "ready_keys (upd_db d f x) = ready_keys x" "slaveKeysWithExpire (upd_db d f x) = slaveKeysWithExpire x"
  "bystander (upd_db d f x) = bystander x" "prop_ok (upd_db d f x) = prop_ok x"
  by (auto simp: upd_db_def bystander_def pubsub_clients_def prop_ok_def backlog_holds_def fun_eq_iff split: option.split)

lemma upd_db_field: "(\<And>db. F (f db) = F db) \<Longrightarrow> F (dbs (upd_db d f x) ! e) = F (dbs x ! e)"
  by (cases "d < length (dbs x)") (simp_all add: upd_db_def nth_list_update list_update_beyond)

lemma core_map: "(\<lambda>j. map_option core_obj ((m(k := v)) j)) = (\<lambda>j. map_option core_obj (m j))(k := map_option core_obj v)"
  by auto

lemma rel_upd_db:
  assumes "rel c s x y" "core_db (f (db_of s d)) = g (core_db (db_of s d))"
  shows "rel c (upd_db d f s) (upd_db d g x) y"
  using assms(1) core_upd_db [of f s d g, OF assms(2)] by (simp add: rel_def)

lemma rel_len: "rel c s x y \<Longrightarrow> length (dbs s) = length (dbs x)"
  by (auto simp: rel_def)

lemma rel_db: "rel c s x y \<Longrightarrow> d < length (dbs x) \<Longrightarrow> db_of x d = core_db (db_of s d)"
  by (auto simp: rel_def)

subsection \<open>Operations that act on the core alone\<close>

text \<open>\<open>lifts n F\<close>: on a server with \<open>n\<close> databases \<open>F\<close> does to the core what it does to the server, and touches
  neither the output of a client nor the propagation.\<close>

definition lifts :: "nat \<Rightarrow> (redisServer \<Rightarrow> redisServer) \<Rightarrow> bool" where
  "lifts n F \<longleftrightarrow> (\<forall>s. length (dbs s) = n \<longrightarrow> core (F s) = F (core s) \<and> prop_ok (F s) = prop_ok s \<and>
     length (dbs (F s)) = n \<and>
     (\<forall>c. bystander (F s) c = bystander s c \<and> out (clients (F s) c) = out (clients s c)))"

lemma rel_lifts: "lifts (length (dbs x)) F \<Longrightarrow> rel c s x y \<Longrightarrow> rel c (F s) (F x) y"
  by (auto simp: lifts_def rel_def)

lemma lifts_id: "lifts n (\<lambda>s. s)"
  by (simp add: lifts_def)

lemma lifts_comp: "lifts n F \<Longrightarrow> lifts n G \<Longrightarrow> lifts n (\<lambda>s. F (G s))"
  by (simp add: lifts_def)

lemma lifts_fold: "(\<And>a. a \<in> set l \<Longrightarrow> lifts n (F a)) \<Longrightarrow> lifts n (fold F l)"
proof (induction l)
  case (Cons a l)
  then show ?case using lifts_comp [of n "fold F l" "F a"] by simp
qed (simp add: lifts_def)

lemma lifts_cases:
  assumes "\<And>s. length (dbs s) = n \<Longrightarrow> b (core s) = b s" "\<And>v. lifts n (F v)"
  shows "lifts n (\<lambda>s. F (b s) s)"
  using assms by (simp add: lifts_def)

lemma lifts_set_flag:
  assumes "fl \<notin> {CLIENT_PENDING_WRITE, CLIENT_CLOSE_ASAP}"
  shows "lifts n (set_flag c fl)"
  using core_set_flag [OF assms]
  by (auto simp: lifts_def clients_set_flag set_flag_def upd_cl_def prop_ok_def backlog_holds_def bystander_def
      pubsub_clients_def out_def split: option.split)

lemma lifts_clear_flags: "lifts n (clear_flags c fs)"
  using core_clear_flags
  by (auto simp: lifts_def clear_flags_def upd_cl_def prop_ok_def backlog_holds_def bystander_def
      pubsub_clients_def out_def split: option.split)

lemma lifts_fields:
  "lifts n (\<lambda>s. s\<lparr>dirty := dirty s + m\<rparr>)"
  "lifts n (\<lambda>s. s\<lparr>slots_to_keys := f1 (slots_to_keys s)\<rparr>)"
  "lifts n (\<lambda>s. s\<lparr>slots_keys_count := f2 (slots_keys_count s)\<rparr>)"
  "lifts n (\<lambda>s. s\<lparr>ready_keys := f3 (ready_keys s)\<rparr>)"
  "lifts n (\<lambda>s. s\<lparr>slaveKeysWithExpire := f4 (slaveKeysWithExpire s)\<rparr>)"
  "lifts n (\<lambda>s. s\<lparr>also_propagate := f5 (also_propagate s)\<rparr>)"
  by (simp_all add: lifts_def prop_ok_def backlog_holds_def bystander_def pubsub_clients_def cong: option.case_cong)

lemma lifts_upd_db: "(\<And>db. core_db (f db) = f (core_db db)) \<Longrightarrow> lifts n (upd_db d f)"
  by (simp add: lifts_def core_upd_db)

lemma lifts_slot: "lifts n (\<lambda>s. slotToKeyUpdateKey s k b)"
proof -
  let ?h = "keyHashSlot k"
  have eq: "(\<lambda>s. slotToKeyUpdateKey s k b) = (\<lambda>s.
      (\<lambda>s. s\<lparr>slots_to_keys := (if b then insert (?h, k) (slots_to_keys s) else slots_to_keys s - {(?h, k)})\<rparr>)
        (s\<lparr>slots_keys_count := (slots_keys_count s)(?h := slots_keys_count s ?h + (if b then 1 else - 1))\<rparr>))"
    by (simp add: slotToKeyUpdateKey_def fun_eq_iff Let_def)
  show ?thesis unfolding eq
    by (rule lifts_comp [of n "\<lambda>s. s\<lparr>slots_to_keys := (if b then insert (?h, k) (slots_to_keys s) else slots_to_keys s - {(?h, k)})\<rparr>"],
        rule lifts_fields(2) [of n "\<lambda>st. if b then insert (?h, k) st else st - {(?h, k)}"],
        rule lifts_fields(3) [of n "\<lambda>m. m(?h := m ?h + (if b then 1 else - 1))"])
qed

lemma lifts_touch:
  assumes "d < n"
  shows "lifts n (\<lambda>s. signalModifiedKey s d k)"
  unfolding signalModifiedKey_def touchWatchedKey_def
proof (rule lifts_cases [where b = "\<lambda>s. d_watched_keys (db_of s d) k"])
  show "lifts n (\<lambda>s. case v of None \<Rightarrow> s | Some cs \<Rightarrow> fold (\<lambda>c. set_flag c CLIENT_DIRTY_CAS) cs s)" for v
    by (cases v) (simp_all add: lifts_id lifts_fold lifts_set_flag)
qed (use assms in simp)

lemma lifts_ready:
  assumes "d < n"
  shows "lifts n (\<lambda>s. signalKeyAsReady s d k)"
  unfolding signalKeyAsReady_def
proof (rule lifts_cases [where b = "\<lambda>s. d_blocking_keys (db_of s d) k = None"],
    goal_cases)
  case (2 v)
  show ?case
  proof (cases v)
    case False
    have "lifts n (\<lambda>s. if k \<in> d_ready_keys (db_of s d) then s
        else upd_db d (\<lambda>db. db\<lparr>d_ready_keys := insert k (d_ready_keys db)\<rparr>) (s\<lparr>ready_keys := ready_keys s @ [(d, k)]\<rparr>))"
    proof (rule lifts_cases [where b = "\<lambda>s. k \<in> d_ready_keys (db_of s d)"], goal_cases)
      case (2 v)
      then show ?case
        by (cases v) (auto intro!: lifts_id lifts_comp [of n "upd_db d f" for f] lifts_upd_db
            lifts_fields(4) [of n "\<lambda>l. l @ [(d, k)]"] simp: core_db_def)
    qed (use assms in simp)
    then show ?thesis using False by simp
  qed (simp add: lifts_id)
qed (use assms in simp)

subsection \<open>Deletion and expiry\<close>

lemma upd_db_upd_db [simp]: "d < length (dbs s) \<Longrightarrow> upd_db d f (upd_db d g s) = upd_db d (\<lambda>db. f (g db)) s"
  by (simp add: upd_db_def)

lemma upd_db_cong: "f (db_of s d) = g (db_of s d) \<Longrightarrow> upd_db d f s = upd_db d g s"
  by (simp add: upd_db_def)

lemma dbSyncDelete_eq: "d < length (dbs s) \<Longrightarrow> dbSyncDelete s d k = (has_key s d k, del_key d k s)"
proof (cases "d_dict (db_of s d) k")
  case None
  then have "(d_dict (db_of s d))(k := None) = d_dict (db_of s d)" by (simp add: fun_upd_idem)
  then show "d < length (dbs s) \<Longrightarrow> ?thesis" using None
    by (simp add: dbSyncDelete_def del_key_def has_key_def Let_def) (rule upd_db_cong, simp)
qed (simp add: dbSyncDelete_def del_key_def has_key_def Let_def)

lemma dbAsyncDelete_eq: "d < length (dbs s) \<Longrightarrow> dbAsyncDelete s d k = (has_key s d k, del_key d k s)"
  by (cases "d_dict (db_of s d) k") (simp_all add: dbAsyncDelete_def del_key_def has_key_def Let_def)

lemma dbDelete_eq: "d < length (dbs s) \<Longrightarrow> dbDelete s d k = (has_key s d k, del_key d k s)"
  by (simp add: dbDelete_def dbSyncDelete_eq dbAsyncDelete_eq)

lemma db_of_core: "d < length (dbs s) \<Longrightarrow> db_of (core s) d = core_db (db_of s d)"
  by simp

lemma lifts_del:
  assumes "d < n"
  shows "lifts n (del_key d k)"
proof -
  let ?u = "upd_db d (\<lambda>db. db\<lparr>d_expires := (d_expires db)(k := None), d_dict := (d_dict db)(k := None)\<rparr>)"
  have u: "lifts n ?u" by (rule lifts_upd_db) (simp add: core_db_def core_map del: fun_upd_apply)
  have "lifts n (\<lambda>s. if d_dict (db_of s d) k \<noteq> None \<and> cluster_enabled s then slotToKeyUpdateKey (?u s) k False else ?u s)"
  proof (rule lifts_cases [where b = "\<lambda>s. d_dict (db_of s d) k \<noteq> None \<and> cluster_enabled s"], goal_cases)
    case (1 s)
    then show ?case using assms by (simp add: db_of_core)
  next
    case (2 v)
    then show ?case by (cases v) (simp_all add: u lifts_comp [OF lifts_slot u])
  qed
  then show ?thesis unfolding del_key_def [abs_def] Let_def slotToKeyDel_def by simp
qed

lemma expired_core [simp]: "d < length (dbs s) \<Longrightarrow> expired (core s) d k = expired s d k"
  by (simp add: expired_def now_def cong: option.case_cong)

lemma has_key_core [simp]: "d < length (dbs s) \<Longrightarrow> has_key (core s) d k = has_key s d k"
  by (simp add: has_key_def)

lemma dbs_ok_core [simp]: "dbs_ok (core s) = dbs_ok s"
  by (auto simp: dbs_ok_def dom_def)

lemma dbs_okD: "dbs_ok s \<Longrightarrow> d < length (dbs s) \<Longrightarrow> d_expires (db_of s d) k = Some w \<Longrightarrow> has_key s d k"
  by (auto simp: dbs_ok_def has_key_def)

lemma keyIsExpired_eq: "dbs_ok s \<Longrightarrow> d < length (dbs s) \<Longrightarrow> keyIsExpired s d k = Some (expired s d k)"
  using dbs_okD [of s d k]
  by (cases "d_expires (db_of s d) k")
    (auto simp: keyIsExpired_def getExpire_def expired_def has_key_def now_def)

lemma expired_has: "dbs_ok s \<Longrightarrow> d < length (dbs s) \<Longrightarrow> expired s d k \<Longrightarrow> has_key s d k"
  using dbs_okD [of s d k] by (cases "d_expires (db_of s d) k") (auto simp: expired_def)

lemma rel_propagateExpire:
  assumes "rel c s x y"
  shows "\<exists>s'. propagateExpire s d k lazy = Some s' \<and> rel c s' x y"
proof -
  let ?av = "[if lazy then lit ''UNLINK'' else lit ''DEL'', k]"
  obtain s1 where 1: "(if aof_state s \<noteq> AOF_OFF then
        do { cmd \<leftarrow> orig_commands s (lit ''del''); feedAppendOnlyFile s cmd (int d) ?av } else Some s) = Some s1" "rel c s1 x y"
  proof (cases "aof_state s = AOF_OFF")
    case False
    obtain cmd where c: "orig_commands s (lit ''del'') = Some cmd" "proc cmd = ''delCommand''"
      using assms by (auto simp: rel_def prop_ok_def)
    then obtain s1 where "feedAppendOnlyFile s cmd (int d) ?av = Some s1"
      using feedAof_plain [of cmd s] by (auto simp: plain_feed_def)
    then show ?thesis using that False c rel_feedAof [OF assms] by simp
  qed (use assms that in simp)
  then show ?thesis using rel_feedSlaves [OF 1(2)] by (auto simp: propagateExpire_def Let_def)
qed

lemma rel_expireIfNeeded:
  assumes r: "rel c s x y" and ok: "dbs_ok x" and d: "d < length (dbs x)"
  shows "\<exists>s'. expireIfNeeded s d k = Some (expired x d k, s') \<and> rel c s' (expire_key d k x) y"
proof -
  have x: "x = core s" using r by (simp add: rel_def)
  have d': "d < length (dbs s)" and ok': "dbs_ok s" using d ok by (simp_all add: x)
  note e = keyIsExpired_eq [OF ok' d', of k]
  show ?thesis
  proof (cases "expired s d k \<and> masterhost s = None")
    case False
    then show ?thesis using r d' by (auto simp: expireIfNeeded_def e expire_key_def x)
  next
    case True
    let ?s = "s\<lparr>stat_expiredkeys := stat_expiredkeys s + 1\<rparr>"
    have "rel c ?s x y"
      by (rule rel_upd [OF r]) (simp_all add: x prop_ok_def backlog_holds_def bystander_def pubsub_clients_def cong: option.case_cong)
    then obtain s1 where 1: "propagateExpire ?s d k (lazyfree_lazy_expire s) = Some s1" "rel c s1 x y"
      using rel_propagateExpire by blast
    obtain s2 where 2: "notifyKeyspaceEvent s1 NOTIFY_EXPIRED ''expired'' k d = Some s2" "rel c s2 x y"
      using rel_notify [OF 1(2)] by blast
    have l: "d < length (dbs s2)" using rel_len [OF 2(2)] d by simp
    have "has_key s2 d k" using 2(2) expired_has [OF ok' d'] True l d' by (metis has_key_core rel_def x)
    moreover have "rel c (del_key d k s2) (del_key d k x) y" using rel_lifts [OF lifts_del [OF d] 2(2)] .
    ultimately show ?thesis using True 1 2 l d'
      by (auto simp: expireIfNeeded_def e expire_key_def x dbSyncDelete_eq dbAsyncDelete_eq)
  qed
qed

subsection \<open>Lookups\<close>

lemma updateLFU_core:
  assumes "updateLFU s ob = (ob', s')"
  shows "core_obj ob' = core_obj ob" "\<exists>r. s' = s\<lparr>rand_seq := r\<rparr>"
proof -
  have "\<exists>r. snd (LFULogIncr s n) = s\<lparr>rand_seq := r\<rparr>" for n
    by (cases "n = 255") (auto simp: LFULogIncr_def Let_def intro: exI [of _ "rand_seq s"])
  then show "\<exists>r. s' = s\<lparr>rand_seq := r\<rparr>" using assms by (auto simp: updateLFU_def Let_def split_beta)
  show "core_obj ob' = core_obj ob" using assms by (auto simp: updateLFU_def Let_def split_beta)
qed

lemma rel_rand: "rel c s x y \<Longrightarrow> rel c (s\<lparr>rand_seq := r\<rparr>) x y"
  by (rule rel_upd) (auto simp: rel_def prop_ok_def backlog_holds_def bystander_def pubsub_clients_def cong: option.case_cong)

lemma rel_touch_obj:
  assumes r: "rel c s x y" and d: "d < length (dbs x)" and k: "d_dict (db_of s d) k = Some val" "core_obj val' = core_obj val"
  shows "rel c (upd_db d (\<lambda>db. db\<lparr>d_dict := (d_dict db)(k \<mapsto> val')\<rparr>) s) x y"
proof -
  have "core_db ((db_of s d)\<lparr>d_dict := (d_dict (db_of s d))(k \<mapsto> val')\<rparr>) = core_db (db_of s d)"
    using k by (auto simp: core_db_def core_map fun_upd_idem_iff simp del: fun_upd_apply)
  then show ?thesis
    using rel_upd_db [OF r, of "\<lambda>db. db\<lparr>d_dict := (d_dict db)(k \<mapsto> val')\<rparr>" d "\<lambda>db. db"] by (simp add: upd_db_def)
qed

lemma rel_lookupKey:
  assumes r: "rel c s x y" and d: "d < length (dbs x)"
  shows "\<exists>v s'. lookupKey s d k nt = (v, s') \<and> map_option ptr v = map_option ptr (d_dict (db_of x d) k) \<and>
    v = d_dict (db_of s' d) k \<and> rel c s' x y"
proof (cases "d_dict (db_of s d) k")
  case None
  then show ?thesis using r rel_db [OF r d] by (simp add: lookupKey_def)
next
  case (Some val)
  have l: "d < length (dbs s)" using rel_len [OF r] d by simp
  have p: "map_option ptr (d_dict (db_of x d) k) = Some (ptr val)" using Some rel_db [OF r d] by simp
  show ?thesis
  proof (cases "rdb_child_pid s = - 1 \<and> aof_child_pid s = - 1 \<and> \<not> nt")
    case True
    obtain val' s1 where 1: "(if MAXMEMORY_FLAG_LFU \<in> maxmemory_policy s then updateLFU s val else (val\<lparr>lru := LRU_CLOCK s\<rparr>, s)) = (val', s1)"
      by (rule prod.exhaust)
    have 2: "core_obj val' = core_obj val" "\<exists>r. s1 = s\<lparr>rand_seq := r\<rparr>"
      using 1 updateLFU_core [of s val] by (auto split: if_splits intro: exI [of _ "rand_seq s"])
    then have 3: "rel c s1 x y" "dbs s1 = dbs s" using rel_rand [OF r] by auto
    have "ptr val' = ptr val" using 2(1) by (metis core_obj_sel(1))
    then show ?thesis using True Some 1 l 3 rel_touch_obj [OF 3(1) d, of k val val'] 2 unfolding p
      by (simp add: lookupKey_def)
  qed (use Some r p in \<open>auto simp: lookupKey_def\<close>)
qed

lemma rel_stat:
  "rel c s x y \<Longrightarrow> rel c (s\<lparr>stat_keyspace_misses := n\<rparr>) x y" "rel c s x y \<Longrightarrow> rel c (s\<lparr>stat_keyspace_hits := n\<rparr>) x y"
  by (simp_all add: rel_def prop_ok_def backlog_holds_def bystander_def pubsub_clients_def cong: option.case_cong)

lemma del_key_sel [simp]:
  "length (dbs (del_key d k x)) = length (dbs x)"
  "d < length (dbs x) \<Longrightarrow> dbs (del_key d k x) ! e = (if e = d then
     (dbs x ! d)\<lparr>d_expires := (d_expires (dbs x ! d))(k := None), d_dict := (d_dict (dbs x ! d))(k := None)\<rparr> else dbs x ! e)"
  "clients (del_key d k x) = clients x" "masterhost (del_key d k x) = masterhost x" "loading (del_key d k x) = loading x"
  "lua_caller (del_key d k x) = lua_caller x" "lua_time_start (del_key d k x) = lua_time_start x"
  "mstime (del_key d k x) = mstime x" "cluster_enabled (del_key d k x) = cluster_enabled x"
  "dirty (del_key d k x) = dirty x" "repl_slave_ro (del_key d k x) = repl_slave_ro x"
  "current_client (del_key d k x) = current_client x" "sv_master (del_key d k x) = sv_master x"
  "client_list (del_key d k x) = client_list x" "maxmemory_policy (del_key d k x) = maxmemory_policy x"
  by (simp_all add: del_key_def Let_def slotToKeyDel_def slotToKeyUpdateKey_def)

lemma dbs_ok_del [simp]: "dbs_ok x \<Longrightarrow> d < length (dbs x) \<Longrightarrow> dbs_ok (del_key d k x)"
  by (auto simp: dbs_ok_def)

lemma expire_key_sel [simp]:
  "length (dbs (expire_key d k x)) = length (dbs x)" "clients (expire_key d k x) = clients x"
  "masterhost (expire_key d k x) = masterhost x" "mstime (expire_key d k x) = mstime x"
  "loading (expire_key d k x) = loading x" "lua_caller (expire_key d k x) = lua_caller x"
  "lua_time_start (expire_key d k x) = lua_time_start x" "cluster_enabled (expire_key d k x) = cluster_enabled x"
  "dirty (expire_key d k x) = dirty x" "repl_slave_ro (expire_key d k x) = repl_slave_ro x"
  "dbs_ok x \<Longrightarrow> d < length (dbs x) \<Longrightarrow> dbs_ok (expire_key d k x)"
  by (simp_all add: expire_key_def)

lemma write_key_expire:
  "d < length (dbs x) \<Longrightarrow> write_key x d k = map_option ptr (d_dict (db_of (expire_key d k x) d) k)"
  by (simp add: write_key_def expire_key_def)

lemma rel_lookupKeyRead:
  assumes r: "rel c s x y" and ok: "dbs_ok x" and d: "d < length (dbs x)"
  shows "\<exists>v s'. lookupKeyReadWithFlags s d k nt = Some (v, s') \<and> map_option ptr v = read_key x d k \<and>
    rel c s' (expire_key d k x) y"
proof -
  obtain s1 where 1: "expireIfNeeded s d k = Some (expired x d k, s1)" "rel c s1 (expire_key d k x) y"
    using rel_expireIfNeeded [OF assms] by blast
  have h: "hides_expired x \<longleftrightarrow> masterhost s1 = None \<or>
      (case current_client s1 of None \<Rightarrow> False
       | Some cc \<Rightarrow> current_client s1 \<noteq> sv_master s1 \<and>
           (case c_cmd (clients s1 cc) of None \<Rightarrow> False | Some cmd \<Rightarrow> CMD_READONLY \<in> cm_flags cmd))"
  proof -
    have e: "core s1 = expire_key d k x" using 1(2) by (simp add: rel_def)
    have "hides_expired (expire_key d k x) = hides_expired x"
      by (simp add: hides_expired_def expire_key_def)
    then show ?thesis by (simp add: e [symmetric] hides_expired_def cong: option.case_cong)
  qed
  show ?thesis
  proof (cases "expired x d k \<and> hides_expired x")
    case True
    then show ?thesis using 1 h rel_stat(1) [OF 1(2)] by (simp add: lookupKeyReadWithFlags_def read_key_def)
  next
    case False
    obtain v s2 where 2: "lookupKey s1 d k nt = (v, s2)"
      "map_option ptr v = map_option ptr (d_dict (db_of (expire_key d k x) d) k)" "rel c s2 (expire_key d k x) y"
      using rel_lookupKey [OF 1(2), of d k nt] d by auto
    have "expire_key d k x = x \<or> \<not> hides_expired x" using False by (auto simp: expire_key_def hides_expired_def)
    then have "map_option ptr v = read_key x d k" using False 2(2) by (auto simp: read_key_def expire_key_def hides_expired_def)
    then show ?thesis using False 1 2 h rel_stat [OF 2(3)] by (auto simp: lookupKeyReadWithFlags_def)
  qed
qed

lemma rel_lookupKeyWrite:
  assumes r: "rel c s x y" and ok: "dbs_ok x" and d: "d < length (dbs x)"
  shows "\<exists>v s'. lookupKeyWrite s d k = Some (v, s') \<and> map_option ptr v = write_key x d k \<and>
    v = d_dict (db_of s' d) k \<and> rel c s' (expire_key d k x) y"
proof -
  obtain s1 where 1: "expireIfNeeded s d k = Some (expired x d k, s1)" "rel c s1 (expire_key d k x) y"
    using rel_expireIfNeeded [OF assms] by blast
  obtain v s2 where 2: "lookupKey s1 d k False = (v, s2)"
      "map_option ptr v = map_option ptr (d_dict (db_of (expire_key d k x) d) k)" "v = d_dict (db_of s2 d) k"
      "rel c s2 (expire_key d k x) y"
    using rel_lookupKey [OF 1(2), of d k False] d by auto
  then show ?thesis using 1 write_key_expire [OF d] by (simp add: lookupKeyWrite_def)
qed

subsection \<open>Writes\<close>

definition set_expire :: "nat option \<Rightarrow> nat \<Rightarrow> bytes \<Rightarrow> i64 \<Rightarrow> redisServer \<Rightarrow> redisServer" where
  "set_expire c d k t x =
     (let x = set_exp d k (Some t) x in
      if masterhost x \<noteq> None \<and> \<not> repl_slave_ro x \<and> (case c of Some c \<Rightarrow> CLIENT_MASTER \<notin> flags x c | None \<Rightarrow> False)
      then rememberSlaveKeyWithExpire x d k else x)"

definition store_key :: "nat \<Rightarrow> bytes \<Rightarrow> optr \<Rightarrow> redisServer \<Rightarrow> redisServer" where
  "store_key d k p x =
     (let x = expire_key d k x;
          x = (if has_key x d k then put_key d k p x else add_key d k p x) in
      signalModifiedKey (set_exp d k None x) d k)"

lemma rel_has_key: "rel c s x y \<Longrightarrow> d < length (dbs x) \<Longrightarrow> has_key s d k = has_key x d k"
  by (auto simp: rel_def)

lemma core_obj_eq: "core_obj v = \<lparr>ptr = ptr v, lru = 0\<rparr>"
  by (cases v) (simp add: core_obj_def)

lemma rel_put_obj:
  assumes r: "rel c s x y" and v: "ptr v = p"
  shows "rel c (upd_db d (\<lambda>db. db\<lparr>d_dict := (d_dict db)(k \<mapsto> v)\<rparr>) s) (put_key d k p x) y"
  unfolding put_key_def using v
  by (intro rel_upd_db [OF r]) (simp add: core_db_def core_map core_obj_eq del: fun_upd_apply)

lemma rel_ready: "rel c s x y \<Longrightarrow> d < length (dbs x) \<Longrightarrow> rel c (signalKeyAsReady s d k) (signalKeyAsReady x d k) y"
  using rel_lifts [OF lifts_ready] by blast

lemma put_key_sel [simp]:
  "length (dbs (put_key d k p x)) = length (dbs x)"
  "d < length (dbs x) \<Longrightarrow> dbs (put_key d k p x) ! e = (if e = d then
     (dbs x ! d)\<lparr>d_dict := (d_dict (dbs x ! d))(k \<mapsto> \<lparr>ptr = p, lru = 0\<rparr>)\<rparr> else dbs x ! e)"
  "clients (put_key d k p x) = clients x" "masterhost (put_key d k p x) = masterhost x"
  "mstime (put_key d k p x) = mstime x" "cluster_enabled (put_key d k p x) = cluster_enabled x"
  "repl_slave_ro (put_key d k p x) = repl_slave_ro x" "dirty (put_key d k p x) = dirty x"
  "loading (put_key d k p x) = loading x" "lua_caller (put_key d k p x) = lua_caller x"
  "lua_time_start (put_key d k p x) = lua_time_start x"
  by (simp_all add: put_key_def)

lemma signalKeyAsReady_sel [simp]:
  "length (dbs (signalKeyAsReady x d k)) = length (dbs x)" "clients (signalKeyAsReady x d k) = clients x"
  "d_dict (dbs (signalKeyAsReady x d k) ! e) = d_dict (dbs x ! e)"
  "d_expires (dbs (signalKeyAsReady x d k) ! e) = d_expires (dbs x ! e)"
  "d_watched_keys (dbs (signalKeyAsReady x d k) ! e) = d_watched_keys (dbs x ! e)"
  "masterhost (signalKeyAsReady x d k) = masterhost x" "mstime (signalKeyAsReady x d k) = mstime x"
  "cluster_enabled (signalKeyAsReady x d k) = cluster_enabled x" "dirty (signalKeyAsReady x d k) = dirty x"
  "repl_slave_ro (signalKeyAsReady x d k) = repl_slave_ro x" "loading (signalKeyAsReady x d k) = loading x"
  "lua_caller (signalKeyAsReady x d k) = lua_caller x" "lua_time_start (signalKeyAsReady x d k) = lua_time_start x"
proof -
  obtain r l where eq: "signalKeyAsReady x d k = upd_db d (\<lambda>db. db\<lparr>d_ready_keys := r\<rparr>) (x\<lparr>ready_keys := l\<rparr>)"
  proof (cases "d_blocking_keys (db_of x d) k = None \<or> k \<in> d_ready_keys (db_of x d)")
    case True
    then have "signalKeyAsReady x d k = x" by (auto simp: signalKeyAsReady_def)
    also have "x = upd_db d (\<lambda>db. db\<lparr>d_ready_keys := d_ready_keys (db_of x d)\<rparr>) (x\<lparr>ready_keys := ready_keys x\<rparr>)"
      by (simp add: upd_db_def)
    finally show ?thesis using that by blast
  next
    case False
    then have "signalKeyAsReady x d k = upd_db d (\<lambda>db. db\<lparr>d_ready_keys := insert k (d_ready_keys (db_of x d))\<rparr>)
        (x\<lparr>ready_keys := ready_keys x @ [(d, k)]\<rparr>)"
      by (auto simp: signalKeyAsReady_def upd_db_def)
    then show ?thesis using that by blast
  qed
  show "length (dbs (signalKeyAsReady x d k)) = length (dbs x)" "clients (signalKeyAsReady x d k) = clients x"
    "d_dict (dbs (signalKeyAsReady x d k) ! e) = d_dict (dbs x ! e)"
    "d_expires (dbs (signalKeyAsReady x d k) ! e) = d_expires (dbs x ! e)"
    "d_watched_keys (dbs (signalKeyAsReady x d k) ! e) = d_watched_keys (dbs x ! e)"
    "masterhost (signalKeyAsReady x d k) = masterhost x" "mstime (signalKeyAsReady x d k) = mstime x"
    "cluster_enabled (signalKeyAsReady x d k) = cluster_enabled x" "dirty (signalKeyAsReady x d k) = dirty x"
    "repl_slave_ro (signalKeyAsReady x d k) = repl_slave_ro x" "loading (signalKeyAsReady x d k) = loading x"
    "lua_caller (signalKeyAsReady x d k) = lua_caller x" "lua_time_start (signalKeyAsReady x d k) = lua_time_start x"
    unfolding eq by (simp_all add: upd_db_field [of d_dict] upd_db_field [of d_expires] upd_db_field [of d_watched_keys])
qed

lemma rel_dbAdd:
  assumes r: "rel c s x y" and d: "d < length (dbs x)" and k: "\<not> has_key x d k"
  shows "\<exists>s'. dbAdd s d k v = Some s' \<and> rel c s' (add_key d k (ptr v) x) y"
proof -
  have o: "otype v = otype \<lparr>ptr = ptr v, lru = 0\<rparr>" by (simp add: otype_def)
  have n: "d_dict (db_of s d) k = None" using rel_has_key [OF r d, of k] k by (auto simp: has_key_def)
  let ?s = "upd_db d (\<lambda>db. db\<lparr>d_dict := (d_dict db)(k \<mapsto> v)\<rparr>) s"
  have 1: "rel c ?s (put_key d k (ptr v) x) y" using rel_put_obj [OF r refl] .
  have 2: "rel c (if b then signalKeyAsReady ?s d k else ?s)
      (if b then signalKeyAsReady (put_key d k (ptr v) x) d k else put_key d k (ptr v) x) y" for b
    using 1 rel_ready [OF 1] d by simp
  have 3: "rel c s x y \<Longrightarrow> rel c (if b then slotToKeyAdd s k else s) (if b then slotToKeyAdd x k else x) y" for s x b
    using rel_lifts [OF lifts_slot [of _ k True]] by (simp add: slotToKeyAdd_def)
  have cl: "cluster_enabled s = cluster_enabled x" if "rel c s x y" for s x using that by (auto simp: rel_def)
  let ?b = "otype v = OBJ_LIST \<or> otype v = OBJ_ZSET"
  let ?A = "if ?b then signalKeyAsReady ?s d k else ?s"
    and ?B = "if ?b then signalKeyAsReady (put_key d k (ptr v) x) d k else put_key d k (ptr v) x"
  have "dbAdd s d k v = Some (if cluster_enabled x then slotToKeyAdd ?A k else ?A)"
    using n cl [OF r] by (simp add: dbAdd_def Let_def)
  moreover have "add_key d k (ptr v) x = (if cluster_enabled x then slotToKeyAdd ?B k else ?B)"
    by (simp add: add_key_def put_key_def Let_def o)
  ultimately show ?thesis using 3 [OF 2 [of ?b], of "cluster_enabled x"] by (simp only:) blast
qed

lemma rel_dbOverwrite:
  assumes r: "rel c s x y" and d: "d < length (dbs x)" and k: "has_key x d k"
  shows "\<exists>s'. dbOverwrite s d k v = Some s' \<and> rel c s' (put_key d k (ptr v) x) y"
proof -
  obtain old where "d_dict (db_of s d) k = Some old" using rel_has_key [OF r d, of k] k by (auto simp: has_key_def)
  then show ?thesis
    using rel_put_obj [OF r, of v "ptr v" d k] rel_put_obj [OF r, of "v\<lparr>lru := lru old\<rparr>" "ptr v" d k]
    by (simp add: dbOverwrite_def Let_def)
qed

lemma lifts_set_exp: "lifts n (set_exp d k t)"
  unfolding set_exp_def [abs_def] by (rule lifts_upd_db) (simp add: core_db_def)

lemma rel_removeExpire:
  assumes r: "rel c s x y" and d: "d < length (dbs x)" and k: "has_key x d k"
  shows "\<exists>s'. removeExpire s d k = Some (d_expires (db_of x d) k \<noteq> None, s') \<and> rel c s' (set_exp d k None x) y"
  using rel_has_key [OF r d, of k] k rel_lifts [OF lifts_set_exp r, of d k None] rel_db [OF r d]
  by (simp add: removeExpire_def has_key_def set_exp_def)

lemma lifts_remember: "lifts n (\<lambda>s. rememberSlaveKeyWithExpire s d k)"
proof -
  have eq: "rememberSlaveKeyWithExpire s d k = s\<lparr>slaveKeysWithExpire := (\<lambda>m.
      let m = (case m of None \<Rightarrow> Map.empty | Some m \<Rightarrow> m) in
      if d > 63 then Some m else Some (m(k \<mapsto> (case m k of None \<Rightarrow> 0 | Some b \<Rightarrow> b) OR push_bit d 1))) (slaveKeysWithExpire s)\<rparr>" for s
    by (simp add: rememberSlaveKeyWithExpire_def Let_def)
  show ?thesis unfolding eq by (rule lifts_fields(5))
qed

lemma set_exp_sel [simp]:
  "length (dbs (set_exp d k t x)) = length (dbs x)"
  "d < length (dbs x) \<Longrightarrow> dbs (set_exp d k t x) ! e = (if e = d then
     (dbs x ! d)\<lparr>d_expires := (d_expires (dbs x ! d))(k := t)\<rparr> else dbs x ! e)"
  "clients (set_exp d k t x) = clients x" "masterhost (set_exp d k t x) = masterhost x"
  "mstime (set_exp d k t x) = mstime x" "cluster_enabled (set_exp d k t x) = cluster_enabled x"
  "repl_slave_ro (set_exp d k t x) = repl_slave_ro x" "dirty (set_exp d k t x) = dirty x"
  "loading (set_exp d k t x) = loading x" "lua_caller (set_exp d k t x) = lua_caller x"
  "lua_time_start (set_exp d k t x) = lua_time_start x"
  by (simp_all add: set_exp_def)

lemma rel_setExpire:
  assumes r: "rel c s x y" and d: "d < length (dbs x)" and k: "has_key x d k"
  shows "\<exists>s'. setExpire s oc d k t = Some s' \<and> rel c s' (set_expire oc d k t x) y"
proof -
  have x: "x = core s" using r by (simp add: rel_def)
  have h: "d_dict (db_of s d) k \<noteq> None" using rel_has_key [OF r d, of k] k by (simp add: has_key_def)
  have 1: "rel c (set_exp d k (Some t) s) (set_exp d k (Some t) x) y" using rel_lifts [OF lifts_set_exp r] .
  have 2: "rel c (rememberSlaveKeyWithExpire (set_exp d k (Some t) s) d k)
      (rememberSlaveKeyWithExpire (set_exp d k (Some t) x) d k) y" using rel_lifts [OF lifts_remember 1] .
  show ?thesis using h 1 2
    by (auto simp: setExpire_def set_expire_def Let_def x set_exp_def [of d k "Some t" s, symmetric] split: option.split)
qed

lemma slotToKeyAdd_sel [simp]:
  "dbs (slotToKeyAdd x k) = dbs x" "clients (slotToKeyAdd x k) = clients x" "masterhost (slotToKeyAdd x k) = masterhost x"
  "mstime (slotToKeyAdd x k) = mstime x" "cluster_enabled (slotToKeyAdd x k) = cluster_enabled x"
  "repl_slave_ro (slotToKeyAdd x k) = repl_slave_ro x" "dirty (slotToKeyAdd x k) = dirty x"
  "loading (slotToKeyAdd x k) = loading x" "lua_caller (slotToKeyAdd x k) = lua_caller x"
  "lua_time_start (slotToKeyAdd x k) = lua_time_start x"
  by (simp_all add: slotToKeyAdd_def slotToKeyUpdateKey_def Let_def)

lemma add_key_sel [simp]:
  "length (dbs (add_key d k p x)) = length (dbs x)"
  "d < length (dbs x) \<Longrightarrow> d_dict (dbs (add_key d k p x) ! e) =
     (if e = d then (d_dict (dbs x ! d))(k \<mapsto> \<lparr>ptr = p, lru = 0\<rparr>) else d_dict (dbs x ! e))"
  "d < length (dbs x) \<Longrightarrow> d_expires (dbs (add_key d k p x) ! e) = d_expires (dbs x ! e)"
  "d < length (dbs x) \<Longrightarrow> d_watched_keys (dbs (add_key d k p x) ! e) = d_watched_keys (dbs x ! e)"
  "clients (add_key d k p x) = clients x" "masterhost (add_key d k p x) = masterhost x"
  "mstime (add_key d k p x) = mstime x" "cluster_enabled (add_key d k p x) = cluster_enabled x"
  "repl_slave_ro (add_key d k p x) = repl_slave_ro x" "dirty (add_key d k p x) = dirty x"
  "loading (add_key d k p x) = loading x" "lua_caller (add_key d k p x) = lua_caller x"
  "lua_time_start (add_key d k p x) = lua_time_start x"
  by (simp_all add: add_key_def Let_def)

lemma set_flag_sel [simp]:
  "dbs (set_flag c fl x) = dbs x" "masterhost (set_flag c fl x) = masterhost x"
  "mstime (set_flag c fl x) = mstime x" "cluster_enabled (set_flag c fl x) = cluster_enabled x"
  "repl_slave_ro (set_flag c fl x) = repl_slave_ro x" "dirty (set_flag c fl x) = dirty x"
  "loading (set_flag c fl x) = loading x" "lua_caller (set_flag c fl x) = lua_caller x"
  "lua_time_start (set_flag c fl x) = lua_time_start x" "client_list (set_flag c fl x) = client_list x"
  by (simp_all add: set_flag_def upd_cl_def)

lemma fold_set_flag_sel:
  "dbs (fold (\<lambda>c. set_flag c fl) cs x) = dbs x" "masterhost (fold (\<lambda>c. set_flag c fl) cs x) = masterhost x"
  "mstime (fold (\<lambda>c. set_flag c fl) cs x) = mstime x" "cluster_enabled (fold (\<lambda>c. set_flag c fl) cs x) = cluster_enabled x"
  "repl_slave_ro (fold (\<lambda>c. set_flag c fl) cs x) = repl_slave_ro x" "dirty (fold (\<lambda>c. set_flag c fl) cs x) = dirty x"
  "loading (fold (\<lambda>c. set_flag c fl) cs x) = loading x" "lua_caller (fold (\<lambda>c. set_flag c fl) cs x) = lua_caller x"
  "lua_time_start (fold (\<lambda>c. set_flag c fl) cs x) = lua_time_start x"
  "client_list (fold (\<lambda>c. set_flag c fl) cs x) = client_list x"
  by (induction cs arbitrary: x) simp_all

lemma fold_set_flag_clients:
  "clients (fold (\<lambda>c. set_flag c fl) cs x) c =
     (if c \<in> set cs then (clients x c)\<lparr>c_flags := insert fl (flags x c)\<rparr> else clients x c)"
  by (induction cs arbitrary: x) (auto simp: clients_set_flag)

text \<open>The clients that watch a key.\<close>

definition watchers :: "redisServer \<Rightarrow> nat \<Rightarrow> bytes \<Rightarrow> nat set" where
  "watchers x d k = (case d_watched_keys (db_of x d) k of None \<Rightarrow> {} | Some cs \<Rightarrow> set cs)"

lemma signalModifiedKey_sel [simp]:
  "dbs (signalModifiedKey x d k) = dbs x" "masterhost (signalModifiedKey x d k) = masterhost x"
  "mstime (signalModifiedKey x d k) = mstime x" "cluster_enabled (signalModifiedKey x d k) = cluster_enabled x"
  "repl_slave_ro (signalModifiedKey x d k) = repl_slave_ro x" "dirty (signalModifiedKey x d k) = dirty x"
  "loading (signalModifiedKey x d k) = loading x" "lua_caller (signalModifiedKey x d k) = lua_caller x"
  "lua_time_start (signalModifiedKey x d k) = lua_time_start x" "client_list (signalModifiedKey x d k) = client_list x"
  "clients (signalModifiedKey x d k) c =
     (if c \<in> watchers x d k then (clients x c)\<lparr>c_flags := insert CLIENT_DIRTY_CAS (flags x c)\<rparr> else clients x c)"
  by (simp_all add: signalModifiedKey_def touchWatchedKey_def watchers_def fold_set_flag_sel fold_set_flag_clients
      split: option.split)

lemma rel_signal: "rel c s x y \<Longrightarrow> d < length (dbs x) \<Longrightarrow> rel c (signalModifiedKey s d k) (signalModifiedKey x d k) y"
  using rel_lifts [OF lifts_touch] by blast

lemma rel_setKey:
  assumes r: "rel c s x y" and ok: "dbs_ok x" and d: "d < length (dbs x)"
  shows "\<exists>s'. setKey s d k v = Some s' \<and> rel c s' (store_key d k (ptr v) x) y"
proof -
  obtain ob s1 where 1: "lookupKeyWrite s d k = Some (ob, s1)" "ob = d_dict (db_of s1 d) k" "rel c s1 (expire_key d k x) y"
    using rel_lookupKeyWrite [OF assms] by blast
  let ?x1 = "expire_key d k x" and ?x2 = "if has_key (expire_key d k x) d k then put_key d k (ptr v) (expire_key d k x)
      else add_key d k (ptr v) (expire_key d k x)"
  have d1: "d < length (dbs ?x1)" and d2: "d < length (dbs ?x2)" and h2: "has_key ?x2 d k"
    using d by (simp_all add: has_key_def)
  have ob: "ob \<noteq> None \<longleftrightarrow> has_key ?x1 d k" using rel_has_key [OF 1(3) d1, of k] 1(2) by (simp add: has_key_def)
  obtain s2 where 2: "(if ob = None then dbAdd s1 d k v else dbOverwrite s1 d k v) = Some s2" "rel c s2 ?x2 y"
    using rel_dbAdd [OF 1(3) d1, of k v] rel_dbOverwrite [OF 1(3) d1, of k v] ob by (cases "has_key ?x1 d k") auto
  obtain s3 where 3: "removeExpire s2 d k = Some (d_expires (db_of ?x2 d) k \<noteq> None, s3)" "rel c s3 (set_exp d k None ?x2) y"
    using rel_removeExpire [OF 2(2) d2 h2] by blast
  show ?thesis using 1(1) 2(1) 3(1) rel_signal [OF 3(2)] d2
    by (simp add: setKey_def store_key_def Let_def)
qed

section \<open>Rules for programs\<close>

text \<open>\<open>sim c m x y\<close>: the program \<open>m\<close> returns, in a state with core \<open>x\<close> and output \<open>y\<close> of \<open>c\<close>.  The rules follow the
  program text.\<close>

definition sim :: "nat \<Rightarrow> redisServer option \<Rightarrow> redisServer \<Rightarrow> bytes \<Rightarrow> bool" where
  "sim c m x y \<longleftrightarrow> (\<exists>s'. m = Some s' \<and> rel c s' x y)"

named_theorems sim_rules

lemma sim_Some [sim_rules]: "rel c s x y \<Longrightarrow> sim c (Some s) x y"
  by (simp add: sim_def)

lemma sim_bind:
  assumes "\<exists>s'. m = Some s' \<and> rel c s' x y" "\<And>s'. rel c s' x y \<Longrightarrow> sim c (f s') x' y'"
  shows "sim c (m \<bind> f) x' y'"
  using assms by (auto simp: sim_def)

lemma sim_bind_val:
  assumes "\<exists>v s'. m = Some (v, s') \<and> P v s' \<and> rel c s' x y" "\<And>v s'. P v s' \<Longrightarrow> rel c s' x y \<Longrightarrow> sim c (f (v, s')) x' y'"
  shows "sim c (m \<bind> f) x' y'"
  using assms by (auto simp: sim_def)

lemmas sim_notify [sim_rules] = sim_bind [OF rel_notify]
lemmas sim_setKey [sim_rules] = sim_bind [OF rel_setKey]
lemmas sim_dbAdd [sim_rules] = sim_bind [OF rel_dbAdd]
lemmas sim_dbOverwrite [sim_rules] = sim_bind [OF rel_dbOverwrite]
lemmas sim_setExpire [sim_rules] = sim_bind [OF rel_setExpire]

lemma sim_lookupKeyWrite [sim_rules]:
  assumes "rel c s x y" "dbs_ok x" "d < length (dbs x)"
    and f: "\<And>v s'. map_option ptr v = write_key x d k \<Longrightarrow> v = d_dict (db_of s' d) k \<Longrightarrow>
        rel c s' (expire_key d k x) y \<Longrightarrow> sim c (f (v, s')) x' y'"
  shows "sim c (lookupKeyWrite s d k \<bind> f) x' y'"
  using rel_lookupKeyWrite [OF assms(1-3), of k] f by (auto simp: sim_def)

lemma sim_lookupKeyRead [sim_rules]:
  assumes "rel c s x y" "dbs_ok x" "d < length (dbs x)"
    and f: "\<And>v s'. map_option ptr v = read_key x d k \<Longrightarrow> rel c s' (expire_key d k x) y \<Longrightarrow> sim c (f (v, s')) x' y'"
  shows "sim c (lookupKeyReadWithFlags s d k nt \<bind> f) x' y'"
  using rel_lookupKeyRead [OF assms(1-3), of k nt] f by (auto simp: sim_def)

lemma sim_removeExpire [sim_rules]:
  assumes "rel c s x y" "d < length (dbs x)" "has_key x d k"
    and f: "\<And>s'. rel c s' (set_exp d k None x) y \<Longrightarrow> sim c (f (d_expires (db_of x d) k \<noteq> None, s')) x' y'"
  shows "sim c (removeExpire s d k \<bind> f) x' y'"
  using rel_removeExpire [OF assms(1-3)] f by (auto simp: sim_def)

lemma sim_expireIfNeeded [sim_rules]:
  assumes "rel c s x y" "dbs_ok x" "d < length (dbs x)"
    and f: "\<And>s'. rel c s' (expire_key d k x) y \<Longrightarrow> sim c (f (expired x d k, s')) x' y'"
  shows "sim c (expireIfNeeded s d k \<bind> f) x' y'"
  using rel_expireIfNeeded [OF assms(1-3), of k] f by (auto simp: sim_def)

lemma rel_dirty: "rel c s x y \<Longrightarrow> rel c (s\<lparr>dirty := dirty s + n\<rparr>) (x\<lparr>dirty := dirty x + n\<rparr>) y"
  by (rule rel_lifts [OF lifts_fields(1)])

subsection \<open>The databases after a write\<close>

lemma expire_key_dict:
  "d < length (dbs x) \<Longrightarrow> d_dict (db_of (expire_key d k x) e) =
     (if e = d \<and> expired x d k \<and> masterhost x = None then (d_dict (db_of x d))(k := None) else d_dict (db_of x e))"
  "d < length (dbs x) \<Longrightarrow> d_expires (db_of (expire_key d k x) e) =
     (if e = d \<and> expired x d k \<and> masterhost x = None then (d_expires (db_of x d))(k := None) else d_expires (db_of x e))"
  "d < length (dbs x) \<Longrightarrow> d_watched_keys (db_of (expire_key d k x) e) = d_watched_keys (db_of x e)"
  by (simp_all add: expire_key_def)

lemma expired_expire: "d < length (dbs x) \<Longrightarrow> expired (expire_key d k x) d k \<longleftrightarrow> expired x d k \<and> masterhost x \<noteq> None"
  by (auto simp: expired_def expire_key_def now_def split: option.splits)

lemma expire_key_idem: "d < length (dbs x) \<Longrightarrow> expire_key d k (expire_key d k x) = expire_key d k x"
  by (subst (1) expire_key_def) (auto simp: expired_expire)

lemma store_key_expire: "d < length (dbs x) \<Longrightarrow> store_key d k p (expire_key d k x) = store_key d k p x"
  by (simp add: store_key_def expire_key_idem)

lemma store_key_db:
  assumes "d < length (dbs x)"
  shows "length (dbs (store_key d k p x)) = length (dbs x)"
    "d_dict (db_of (store_key d k p x) e) =
      (if e = d then (d_dict (db_of x d))(k \<mapsto> \<lparr>ptr = p, lru = 0\<rparr>) else d_dict (db_of x e))"
    "d_expires (db_of (store_key d k p x) e) = (if e = d then (d_expires (db_of x d))(k := None) else d_expires (db_of x e))"
    "d_watched_keys (db_of (store_key d k p x) e) = d_watched_keys (db_of x e)"
    "masterhost (store_key d k p x) = masterhost x" "mstime (store_key d k p x) = mstime x"
    "loading (store_key d k p x) = loading x" "dirty (store_key d k p x) = dirty x"
    "repl_slave_ro (store_key d k p x) = repl_slave_ro x"
    "lua_caller (store_key d k p x) = lua_caller x" "lua_time_start (store_key d k p x) = lua_time_start x"
    "cluster_enabled (store_key d k p x) = cluster_enabled x"
  using assms by (auto simp: store_key_def Let_def expire_key_dict)

lemma store_key_clients:
  assumes "d < length (dbs x)"
  shows "clients (store_key d k p x) c =
    (if c \<in> watchers x d k then (clients x c)\<lparr>c_flags := insert CLIENT_DIRTY_CAS (flags x c)\<rparr> else clients x c)"
  using assms by (auto simp: store_key_def Let_def watchers_def expire_key_dict)

lemma store_key_ok: "dbs_ok x \<Longrightarrow> d < length (dbs x) \<Longrightarrow> dbs_ok (store_key d k p x)"
  by (auto simp: dbs_ok_def store_key_db)

lemma bystander_upd [simp]:
  "bystander (x\<lparr>dirty := n\<rparr>) = bystander x" "bystander (slotToKeyUpdateKey x k b) = bystander x"
  "bystander (rememberSlaveKeyWithExpire x d k) = bystander x" "bystander (set_flag c fl x) = bystander x"
  "bystander (x\<lparr>ready_keys := l\<rparr>) = bystander x"
  by (simp_all add: fun_eq_iff bystander_def pubsub_clients_def slotToKeyUpdateKey_def rememberSlaveKeyWithExpire_def
      set_flag_def upd_cl_def Let_def)

lemma bystander_ops [simp]:
  "bystander (del_key d k x) = bystander x" "bystander (put_key d k p x) = bystander x"
  "bystander (signalKeyAsReady x d k) = bystander x" "bystander (set_exp d k t x) = bystander x"
  by (simp_all add: del_key_def put_key_def slotToKeyDel_def signalKeyAsReady_def set_exp_def Let_def)

lemma bystander_writes [simp]:
  "bystander (expire_key d k x) = bystander x" "bystander (add_key d k p x) = bystander x"
  "bystander (set_expire oc d k t x) = bystander x"
  by (simp_all add: expire_key_def add_key_def set_expire_def slotToKeyAdd_def Let_def)

lemma bystander_signal [simp]: "bystander (signalModifiedKey x d k) = bystander x"
proof -
  have "bystander (fold (\<lambda>c. set_flag c fl) cs x) = bystander x" for cs fl x
    by (induction cs arbitrary: x) simp_all
  then show ?thesis by (simp add: signalModifiedKey_def touchWatchedKey_def split: option.split)
qed

lemma bystander_store [simp]: "bystander (store_key d k p x) = bystander x"
  by (simp add: store_key_def Let_def)

lemma rel_bystander: "rel c s x y \<Longrightarrow> bystander s e = bystander x e"
  by (auto simp: rel_def)

lemma dbs_okI: "(\<And>e j w. e < length (dbs x) \<Longrightarrow> d_expires (db_of x e) j = Some w \<Longrightarrow> has_key x e j) \<Longrightarrow> dbs_ok x"
  by (auto simp: dbs_ok_def has_key_def)

lemma dbs_remember [simp]: "dbs (rememberSlaveKeyWithExpire x d k) = dbs x"
  by (simp add: rememberSlaveKeyWithExpire_def Let_def)

lemma set_expire_db:
  assumes "d < length (dbs x)"
  shows "length (dbs (set_expire oc d k t x)) = length (dbs x)"
    "dbs (set_expire oc d k t x) ! e =
      (if e = d then (dbs x ! d)\<lparr>d_expires := (d_expires (dbs x ! d))(k \<mapsto> t)\<rparr> else dbs x ! e)"
  using assms by (simp_all add: set_expire_def Let_def)

lemma dbs_ok_set_expire: "dbs_ok x \<Longrightarrow> d < length (dbs x) \<Longrightarrow> has_key x d k \<Longrightarrow> dbs_ok (set_expire oc d k t x)"
  by (rule dbs_okI) (auto simp: set_expire_db has_key_def split: if_splits dest: dbs_okD)

lemma dbs_ok_dirty [simp]: "dbs_ok (x\<lparr>dirty := n\<rparr>) = dbs_ok x"
  by (simp add: dbs_ok_def)

end
