(* ===== verification/Safe.thy ===== *)
theory Safe
  imports Db
begin

text \<open>What every command keeps, whatever its arguments: the invariant of propagation, that expires belong
  to keys, the tables of watched keys and the state of every connection.  \<open>wp m Q\<close> says that \<open>m\<close> returns
  and its result satisfies \<open>Q\<close>; its rules follow the program text, one rule per operation of the key space, so
  that a command is shown to run without failing by applying them.\<close>

section \<open>The frame of a command\<close>

definition same_client :: "client \<Rightarrow> client \<Rightarrow> bool" where
  "same_client a b \<longleftrightarrow> c_db b = c_db a \<and> c_argv b = c_argv a \<and> c_cmd b = c_cmd a \<and> c_commands b = c_commands a \<and>
     c_mstate_cmd_flags b = c_mstate_cmd_flags a \<and> c_watched_keys b = c_watched_keys a \<and>
     c_flags a \<subseteq> c_flags b \<and> c_flags b \<subseteq> insert CLIENT_DIRTY_CAS (c_flags a)"

text \<open>What a key holds, and that all clients that watch it are marked.\<close>

definition content :: "redisServer \<Rightarrow> nat \<Rightarrow> bytes \<Rightarrow> optr option \<times> i64 option" where
  "content x d k = (map_option ptr (d_dict (db_of x d) k), d_expires (db_of x d) k)"

definition touched :: "redisServer \<Rightarrow> nat \<Rightarrow> bytes \<Rightarrow> bool" where
  "touched x d k \<longleftrightarrow> (\<forall>c \<in> watchers x d k. CLIENT_DIRTY_CAS \<in> flags x c)"

definition changed_ok :: "redisServer \<Rightarrow> redisServer \<Rightarrow> nat \<Rightarrow> bytes \<Rightarrow> bool" where
  "changed_ok x x' d k \<longleftrightarrow> content x' d k = content x d k \<or> (expired x d k \<and> content x' d k = (None, None)) \<or> touched x' d k"

text \<open>No client waits for a key.\<close>

definition idle :: "redisServer \<Rightarrow> bool" where
  "idle x \<longleftrightarrow> ready_keys x = [] \<and> (\<forall>d < length (dbs x). d_blocking_keys (db_of x d) = Map.empty)"

text \<open>From \<open>x\<close> to \<open>x'\<close> the tables of watched keys and the connections stay, and every key that was changed, apart
  from those of \<open>P\<close>, was past its time and removed, or its watchers were marked.\<close>

definition frame :: "(nat \<times> bytes) set \<Rightarrow> redisServer \<Rightarrow> redisServer \<Rightarrow> bool" where
  "frame P x x' \<longleftrightarrow> length (dbs x') = length (dbs x) \<and> (dbs_ok x \<longrightarrow> dbs_ok x') \<and> (idle x \<longrightarrow> idle x') \<and>
     (\<forall>d < length (dbs x). d_watched_keys (db_of x' d) = d_watched_keys (db_of x d)) \<and>
     (\<forall>e. same_client (clients x e) (clients x' e)) \<and>
     client_list x' = client_list x \<and> masterhost x' = masterhost x \<and> mstime x' = mstime x \<and> loading x' = loading x \<and> lua_caller x' = lua_caller x \<and>
     lua_time_start x' = lua_time_start x \<and> commands x' = commands x \<and> orig_commands x' = orig_commands x \<and>
     cluster_enabled x' = cluster_enabled x \<and> maxmemory x' = maxmemory x \<and>
     current_client x' = current_client x \<and> proto_max_bulk_len x' = proto_max_bulk_len x \<and> also_propagate x' = also_propagate x \<and>
     (\<forall>d < length (dbs x). \<forall>k. (d, k) \<notin> P \<longrightarrow> changed_ok x x' d k)"

lemma same_client_refl [simp]: "same_client a a"
  by (auto simp: same_client_def)

lemma same_client_trans: "same_client a b \<Longrightarrow> same_client b d \<Longrightarrow> same_client a d"
  by (auto simp: same_client_def)

lemma frame_refl [simp]: "frame P x x"
  by (simp add: frame_def changed_ok_def)

lemma frame_touched:
  assumes f: "frame P x y" and d: "d < length (dbs x)" and t: "touched x d k"
  shows "touched y d k"
proof -
  have w: "watchers y d k = watchers x d k" using f d by (simp add: frame_def watchers_def)
  have "flags x c \<subseteq> flags y c" for c using f by (simp add: frame_def same_client_def)
  then show ?thesis using t w by (auto simp: touched_def)
qed

lemma frame_changed_ok:
  assumes f: "frame P x y" "frame Q y z" and d: "d < length (dbs x)" and c: "changed_ok x y d k" "changed_ok y z d k"
  shows "changed_ok x z d k"
proof -
  have dy: "d < length (dbs y)" and n: "now y = now x" "loading y = loading x" using f(1) d by (simp_all add: frame_def now_def)
  have "touched y d k \<Longrightarrow> touched z d k" using frame_touched [OF f(2) dy] .
  moreover have "expired y d k \<longleftrightarrow> expired x d k" if "content y d k = content x d k"
    using that n by (simp add: expired_def content_def cong: option.case_cong)
  moreover have "\<not> expired y d k" if "content y d k = (None, None)" using that by (simp add: expired_def content_def)
  ultimately show ?thesis using c unfolding changed_ok_def by metis
qed

lemma frame_trans:
  assumes f: "frame P x y" "frame Q y z"
  shows "frame (P \<union> Q) x z"
proof -
  have "changed_ok x z d k" if "d < length (dbs x)" "(d, k) \<notin> P \<union> Q" for d k
    using frame_changed_ok [OF f that(1)] that f by (simp add: frame_def)
  moreover have "same_client (clients x e) (clients z e)" for e
    using f same_client_trans [of "clients x e" "clients y e"] by (simp add: frame_def)
  ultimately show ?thesis using f by (simp add: frame_def)
qed

lemma frame_mono: "frame P x y \<Longrightarrow> P \<subseteq> Q \<Longrightarrow> frame Q x y"
  unfolding frame_def by blast

lemma frame_done:
  assumes f: "frame (insert (d, k) P) x y" and t: "touched y d k"
  shows "frame P x y"
proof -
  have "changed_ok x y e j" if "e < length (dbs x)" "(e, j) \<notin> P" for e j
    using f t that by (cases "(e, j) = (d, k)") (simp_all add: frame_def changed_ok_def)
  then show ?thesis using f by (simp add: frame_def)
qed

lemma commands_sel [simp]:
  "commands (upd_db d f x) = commands x" "orig_commands (upd_db d f x) = orig_commands x"
  "commands (slotToKeyUpdateKey x k b) = commands x" "orig_commands (slotToKeyUpdateKey x k b) = orig_commands x"
  "commands (rememberSlaveKeyWithExpire x d k) = commands x" "orig_commands (rememberSlaveKeyWithExpire x d k) = orig_commands x"
  "commands (signalKeyAsReady x d k) = commands x" "orig_commands (signalKeyAsReady x d k) = orig_commands x"
  "commands (set_flag c fl x) = commands x" "orig_commands (set_flag c fl x) = orig_commands x"
  by (simp_all add: upd_db_def slotToKeyUpdateKey_def rememberSlaveKeyWithExpire_def signalKeyAsReady_def set_flag_def
      upd_cl_def Let_def)

lemma commands_signal [simp]:
  "commands (signalModifiedKey x d k) = commands x" "orig_commands (signalModifiedKey x d k) = orig_commands x"
proof -
  have "commands (fold (\<lambda>c. set_flag c fl) cs x) = commands x \<and> orig_commands (fold (\<lambda>c. set_flag c fl) cs x) = orig_commands x"
    for cs fl x by (induction cs arbitrary: x) simp_all
  then show "commands (signalModifiedKey x d k) = commands x" "orig_commands (signalModifiedKey x d k) = orig_commands x"
    by (simp_all add: signalModifiedKey_def touchWatchedKey_def split: option.split)
qed

lemma commands_ops [simp]:
  "commands (del_key d k x) = commands x" "orig_commands (del_key d k x) = orig_commands x"
  "commands (put_key d k p x) = commands x" "orig_commands (put_key d k p x) = orig_commands x"
  "commands (add_key d k p x) = commands x" "orig_commands (add_key d k p x) = orig_commands x"
  "commands (set_exp d k t x) = commands x" "orig_commands (set_exp d k t x) = orig_commands x"
  "commands (expire_key d k x) = commands x" "orig_commands (expire_key d k x) = orig_commands x"
  "commands (set_expire oc d k w x) = commands x" "orig_commands (set_expire oc d k w x) = orig_commands x"
  by (simp_all add: del_key_def put_key_def add_key_def set_exp_def expire_key_def set_expire_def slotToKeyDel_def
      slotToKeyAdd_def Let_def)

lemma client_list_ops [simp]:
  "client_list (put_key d k p x) = client_list x" "client_list (add_key d k p x) = client_list x"
  "client_list (set_exp d k t x) = client_list x" "client_list (set_expire oc d k w x) = client_list x"
  by (simp_all add: upd_db_def put_key_def add_key_def set_exp_def set_expire_def slotToKeyAdd_def slotToKeyUpdateKey_def
      rememberSlaveKeyWithExpire_def signalKeyAsReady_def Let_def)

lemma maxmemory_sel [simp]:
  "maxmemory (upd_db d f x) = maxmemory x" "current_client (upd_db d f x) = current_client x" "proto_max_bulk_len (upd_db d f x) = proto_max_bulk_len x" "also_propagate (upd_db d f x) = also_propagate x"
  "maxmemory (slotToKeyUpdateKey x k b) = maxmemory x" "current_client (slotToKeyUpdateKey x k b) = current_client x" "proto_max_bulk_len (slotToKeyUpdateKey x k b) = proto_max_bulk_len x" "also_propagate (slotToKeyUpdateKey x k b) = also_propagate x"
  "maxmemory (rememberSlaveKeyWithExpire x d k) = maxmemory x" "current_client (rememberSlaveKeyWithExpire x d k) = current_client x" "proto_max_bulk_len (rememberSlaveKeyWithExpire x d k) = proto_max_bulk_len x" "also_propagate (rememberSlaveKeyWithExpire x d k) = also_propagate x"
  "maxmemory (signalKeyAsReady x d k) = maxmemory x" "current_client (signalKeyAsReady x d k) = current_client x" "proto_max_bulk_len (signalKeyAsReady x d k) = proto_max_bulk_len x" "also_propagate (signalKeyAsReady x d k) = also_propagate x"
  "maxmemory (set_flag c fl x) = maxmemory x" "current_client (set_flag c fl x) = current_client x" "proto_max_bulk_len (set_flag c fl x) = proto_max_bulk_len x" "also_propagate (set_flag c fl x) = also_propagate x"
  by (simp_all add: upd_db_def slotToKeyUpdateKey_def rememberSlaveKeyWithExpire_def signalKeyAsReady_def set_flag_def
      upd_cl_def Let_def)

lemma maxmemory_signal [simp]: "maxmemory (signalModifiedKey x d k) = maxmemory x" "current_client (signalModifiedKey x d k) = current_client x" "proto_max_bulk_len (signalModifiedKey x d k) = proto_max_bulk_len x" "also_propagate (signalModifiedKey x d k) = also_propagate x"
proof -
  have "maxmemory (fold (\<lambda>c. set_flag c fl) cs x) = maxmemory x \<and> current_client (fold (\<lambda>c. set_flag c fl) cs x) = current_client x \<and>
      proto_max_bulk_len (fold (\<lambda>c. set_flag c fl) cs x) = proto_max_bulk_len x \<and> also_propagate (fold (\<lambda>c. set_flag c fl) cs x) = also_propagate x"
    for cs fl x by (induction cs arbitrary: x) simp_all
  then show "maxmemory (signalModifiedKey x d k) = maxmemory x" "current_client (signalModifiedKey x d k) = current_client x" "proto_max_bulk_len (signalModifiedKey x d k) = proto_max_bulk_len x" "also_propagate (signalModifiedKey x d k) = also_propagate x"
    by (simp_all add: signalModifiedKey_def touchWatchedKey_def split: option.split)
qed

lemma maxmemory_ops [simp]:
  "maxmemory (del_key d k x) = maxmemory x" "current_client (del_key d k x) = current_client x" "proto_max_bulk_len (del_key d k x) = proto_max_bulk_len x" "also_propagate (del_key d k x) = also_propagate x"
  "maxmemory (put_key d k p x) = maxmemory x" "current_client (put_key d k p x) = current_client x" "proto_max_bulk_len (put_key d k p x) = proto_max_bulk_len x" "also_propagate (put_key d k p x) = also_propagate x"
  "maxmemory (add_key d k p x) = maxmemory x" "current_client (add_key d k p x) = current_client x" "proto_max_bulk_len (add_key d k p x) = proto_max_bulk_len x" "also_propagate (add_key d k p x) = also_propagate x"
  "maxmemory (set_exp d k t x) = maxmemory x" "current_client (set_exp d k t x) = current_client x" "proto_max_bulk_len (set_exp d k t x) = proto_max_bulk_len x" "also_propagate (set_exp d k t x) = also_propagate x"
  "maxmemory (expire_key d k x) = maxmemory x" "current_client (expire_key d k x) = current_client x" "proto_max_bulk_len (expire_key d k x) = proto_max_bulk_len x" "also_propagate (expire_key d k x) = also_propagate x"
  "maxmemory (set_expire oc d k w x) = maxmemory x" "current_client (set_expire oc d k w x) = current_client x" "proto_max_bulk_len (set_expire oc d k w x) = proto_max_bulk_len x" "also_propagate (set_expire oc d k w x) = also_propagate x"
  "cluster_enabled (set_expire oc d k w x) = cluster_enabled x"
  by (simp_all add: del_key_def put_key_def add_key_def set_exp_def expire_key_def set_expire_def slotToKeyDel_def
      slotToKeyAdd_def rememberSlaveKeyWithExpire_def Let_def)

lemma idle_upd_db: "(\<And>db. d_blocking_keys (f db) = d_blocking_keys db) \<Longrightarrow> idle (upd_db d f x) = idle x"
proof -
  assume f: "\<And>db. d_blocking_keys (f db) = d_blocking_keys db"
  have "d_blocking_keys ((dbs x)[d := f (db_of x d)] ! e) = d_blocking_keys (db_of x e)" if "e < length (dbs x)" for e
    using that f by (cases "e = d") simp_all
  then show ?thesis by (simp add: idle_def upd_db_def)
qed

lemma idle_ready: "idle x \<Longrightarrow> d < length (dbs x) \<Longrightarrow> signalKeyAsReady x d k = x"
  by (simp add: idle_def signalKeyAsReady_def)

lemma idle_cong: "dbs y = dbs x \<Longrightarrow> ready_keys y = ready_keys x \<Longrightarrow> idle y = idle x"
  by (simp add: idle_def)

lemma idle_fields [simp]:
  "idle (slotToKeyUpdateKey x k b) = idle x" "idle (rememberSlaveKeyWithExpire x d k) = idle x" "idle (set_flag c fl x) = idle x"
  "idle (x\<lparr>dirty := n\<rparr>) = idle x"
  by (rule idle_cong; simp add: slotToKeyUpdateKey_def rememberSlaveKeyWithExpire_def set_flag_def upd_cl_def Let_def)+

lemma idle_signal [simp]: "idle (signalModifiedKey x d k) = idle x"
proof -
  have "idle (fold (\<lambda>c. set_flag c fl) cs x) = idle x" for cs fl x by (induction cs arbitrary: x) simp_all
  then show ?thesis by (simp add: signalModifiedKey_def touchWatchedKey_def split: option.split)
qed

lemma idle_ops [simp]:
  assumes "idle x"
  shows "idle (del_key d k x)" "idle (set_exp d k t x)" "idle (expire_key d k x)" "idle (set_expire oc d k w x)"
    "d < length (dbs x) \<Longrightarrow> idle (put_key d k p x)" "d < length (dbs x) \<Longrightarrow> idle (add_key d k p x)"
proof -
  show 1: "idle (del_key d k x)" using assms by (simp add: del_key_def slotToKeyDel_def idle_upd_db Let_def)
  show "idle (set_exp d k t x)" using assms by (simp add: set_exp_def idle_upd_db)
  then show "idle (expire_key d k x)" using assms 1 by (simp add: expire_key_def)
  show "idle (set_expire oc d k w x)" using assms by (simp add: set_expire_def set_exp_def idle_upd_db Let_def)
  show 2: "idle (put_key d k p x)" using assms by (simp add: put_key_def idle_upd_db)
  show "idle (add_key d k p x)" if "d < length (dbs x)" using 2 that by (simp add: add_key_def put_key_def slotToKeyAdd_def Let_def idle_ready)
qed

lemma set_expire_sel [simp]:
  "clients (set_expire oc d k w x) = clients x" "masterhost (set_expire oc d k w x) = masterhost x"
  "mstime (set_expire oc d k w x) = mstime x" "loading (set_expire oc d k w x) = loading x"
  "lua_caller (set_expire oc d k w x) = lua_caller x" "lua_time_start (set_expire oc d k w x) = lua_time_start x"
  by (simp_all add: set_expire_def rememberSlaveKeyWithExpire_def Let_def)

lemma touched_signal: "d < length (dbs x) \<Longrightarrow> touched (signalModifiedKey x d k) d k"
  by (auto simp: touched_def watchers_def split: option.splits)

lemma frame_ops:
  assumes d: "d < length (dbs x)"
  shows "frame {(d, k)} x (del_key d k x)" "frame {} x (expire_key d k x)" "frame {(d, k)} x (put_key d k p x)"
    "frame {(d, k)} x (add_key d k p x)" "frame {(d, k)} x (set_exp d k None x)" "frame {} x (signalModifiedKey x d k)"
    "has_key x d k \<Longrightarrow> frame {(d, k)} x (set_expire oc d k t x)"
proof -
  show del: "frame {(d, k)} x (del_key d k x)" using d by (auto simp: frame_def changed_ok_def content_def)
  show e: "frame {} x (expire_key d k x)"
    using d del by (auto simp: expire_key_def frame_def changed_ok_def content_def)
  show "frame {(d, k)} x (put_key d k p x)" "frame {(d, k)} x (add_key d k p x)" "frame {(d, k)} x (set_exp d k None x)"
    using d by (auto simp: frame_def dbs_ok_def changed_ok_def content_def)
  show "frame {} x (signalModifiedKey x d k)" by (auto simp: frame_def dbs_ok_def same_client_def changed_ok_def content_def)
  show "frame {(d, k)} x (set_expire oc d k t x)" if "has_key x d k"
    using dbs_ok_set_expire [OF _ d that, of oc t] d
    by (auto simp: frame_def set_expire_db changed_ok_def content_def)
qed

lemma frame_store:
  assumes d: "d < length (dbs x)"
  shows "frame {} x (store_key d k p x)" "touched (store_key d k p x) d k"
proof -
  let ?x1 = "expire_key d k x"
  let ?x2 = "if has_key ?x1 d k then put_key d k p ?x1 else add_key d k p ?x1"
  let ?x3 = "set_exp d k None ?x2"
  have d1: "d < length (dbs ?x1)" and d2: "d < length (dbs ?x2)" and d3: "d < length (dbs ?x3)" using d by simp_all
  have "frame {(d, k)} ?x1 ?x2" using frame_ops(3,4) [OF d1] by simp
  from frame_trans [OF frame_ops(2) [OF d, of k] this] have "frame {(d, k)} x ?x2" by simp
  from frame_trans [OF this frame_ops(5) [OF d2, of k]] have "frame {(d, k)} x ?x3" by simp
  from frame_trans [OF this frame_ops(6) [OF d3, of k]] have f: "frame {(d, k)} x (signalModifiedKey ?x3 d k)" by simp
  show t: "touched (store_key d k p x) d k" using touched_signal [OF d3, of k] by (simp add: store_key_def Let_def)
  show "frame {} x (store_key d k p x)" using frame_done [OF f] t by (simp add: store_key_def Let_def)
qed

lemma frame_dirty: "frame {} x (x\<lparr>dirty := n\<rparr>)"
  by (simp add: frame_def changed_ok_def content_def)

section \<open>The states a command may reach\<close>

text \<open>\<open>during c s0 P s\<close>: a command that client \<open>c\<close> runs from \<open>s0\<close> may be in the state \<open>s\<close>, with the keys of \<open>P\<close> changed
  and not signalled yet.\<close>

definition during :: "nat \<Rightarrow> redisServer \<Rightarrow> (nat \<times> bytes) set \<Rightarrow> redisServer \<Rightarrow> bool" where
  "during c s0 P s \<longleftrightarrow> prop_ok s \<and> frame P (core s0) (core s) \<and> dbs_ok s0 \<and> c_db (clients s0 c) < length (dbs s0) \<and>
     c_cmd (clients s0 c) \<noteq> None"

lemma duringD:
  assumes "during c s0 P s"
  shows "prop_ok s" "dbs_ok s" "c_db (clients s0 c) < length (dbs s)" "length (dbs s) = length (dbs s0)"
    "c_db (clients s c) = c_db (clients s0 c)" "argv s c = argv s0 c" "c_cmd (clients s c) = c_cmd (clients s0 c)"
    "mstime s = mstime s0" "masterhost s = masterhost s0" "commands s = commands s0" "orig_commands s = orig_commands s0"
    "loading s = loading s0"
    "c_cmd (clients s0 c) \<noteq> None"
proof -
  have f: "frame P (core s0) (core s)" "dbs_ok s0" and p: "prop_ok s" using assms by (auto simp: during_def)
  then have "same_client (quiet_client (clients s0 c)) (quiet_client (clients s c))" by (simp add: frame_def)
  then show "c_db (clients s c) = c_db (clients s0 c)" "argv s c = argv s0 c" "c_cmd (clients s c) = c_cmd (clients s0 c)"
    by (simp_all add: same_client_def)
  show "prop_ok s" by fact
  show "dbs_ok s" "length (dbs s) = length (dbs s0)" "c_db (clients s0 c) < length (dbs s)"
    "mstime s = mstime s0" "masterhost s = masterhost s0" "commands s = commands s0" "orig_commands s = orig_commands s0"
    "loading s = loading s0" "c_cmd (clients s0 c) \<noteq> None"
    using f assms by (auto simp: frame_def during_def)
qed

lemma during_rel:
  assumes "during c s0 P s" "rel e s' x' y" "frame Q (core s) x'"
  shows "during c s0 (P \<union> Q) s'"
  using assms frame_trans by (auto simp: during_def rel_def)

lemmas during_rel0 = during_rel [where Q = "{}", simplified]

lemma touched_core [simp]: "d < length (dbs s) \<Longrightarrow> touched (core s) d k = touched s d k"
  by (auto simp: touched_def watchers_def)

lemma during_done:
  assumes "during c s0 (insert (d, k) P) s" "touched s d k" "d < length (dbs s)"
  shows "during c s0 P s"
  using assms frame_done by (auto simp: during_def)

lemma during_reply [simp]:
  "during c s0 P s \<Longrightarrow> during c s0 P (addReplyString s e str)"
  "during c s0 P s \<Longrightarrow> during c s0 P (addReply s e str)"
  "during c s0 P s \<Longrightarrow> during c s0 P (reply_bulk s e str)"
  "during c s0 P s \<Longrightarrow> during c s0 P (addReplyErrorLength s e str)"
  "during c s0 P s \<Longrightarrow> during c s0 P (addReplyError s e msg)"
  "during c s0 P s \<Longrightarrow> during c s0 P (addReplyErrorFormat s e str)"
  "during c s0 P s \<Longrightarrow> during c s0 P (addReplyStatusLength s e str)"
proof -
  assume d: "during c s0 P s"
  note r = relI [OF duringD(1) [OF d], of e]
  show "during c s0 P (addReplyString s e str)" using during_rel0 [OF d rel_reply [OF r]] by simp
  then show "during c s0 P (addReply s e str)" by (simp add: addReply_def)
  show "during c s0 P (reply_bulk s e str)" using during_rel0 [OF d rel_reply_bulk [OF r]] by simp
  show 1: "during c s0 P (addReplyErrorLength s e str)" for str using during_rel0 [OF d rel_reply_error [OF r]] by simp
  show "during c s0 P (addReplyError s e msg)" using 1 by (simp add: addReplyError_def)
  show "during c s0 P (addReplyErrorFormat s e str)" using 1 by (simp add: addReplyErrorFormat_def)
  show "during c s0 P (addReplyStatusLength s e str)" using during_rel0 [OF d rel_reply_status [OF r]] by simp
qed

lemma during_dirty [simp]: "during c s0 P s \<Longrightarrow> during c s0 P (s\<lparr>dirty := n\<rparr>)"
proof -
  assume d: "during c s0 P s"
  have "s\<lparr>dirty := n\<rparr> = s\<lparr>dirty := dirty s + (n - dirty s)\<rparr>" by simp
  then show ?thesis
    using during_rel0 [OF d rel_dirty [OF relI [OF duringD(1) [OF d], of c], of "n - dirty s"] frame_dirty] by simp
qed

lemma during_signal:
  assumes d: "during c s0 (insert (d, k) P) s" and l: "d < length (dbs s)"
  shows "during c s0 P (signalModifiedKey s d k)"
proof -
  note r = relI [OF duringD(1) [OF d], of c]
  have lc: "d < length (dbs (core s))" using l by simp
  have "during c s0 (insert (d, k) P) (signalModifiedKey s d k)" using during_rel0 [OF d rel_signal [OF r lc] frame_ops(6) [OF lc]] .
  then show ?thesis by (rule during_done) (use l touched_signal in simp_all)
qed

lemma during_put:
  assumes d: "during c s0 (insert (d, k) P) s" and l: "d < length (dbs s)"
  shows "during c s0 (insert (d, k) P) (upd_db d (\<lambda>db. db\<lparr>d_dict := (d_dict db)(k \<mapsto> v)\<rparr>) s)"
  using during_rel [OF d rel_put_obj [OF relI [OF duringD(1) [OF d], of c] refl, of d k v] frame_ops(3)] l by simp

section \<open>Rules\<close>

text \<open>The rules of \<open>wp_rules\<close> follow the structure of the program, those of \<open>run_rules\<close> are the operations; the
  latter are instantiated with the client and the initial state of the command.\<close>

definition wp :: "'a option \<Rightarrow> ('a \<Rightarrow> bool) \<Rightarrow> bool" where
  "wp m Q \<longleftrightarrow> (\<exists>v. m = Some v \<and> Q v)"

named_theorems wp_rules and run_rules

lemma wp_Some [wp_rules]: "Q v \<Longrightarrow> wp (Some v) Q"
  by (simp add: wp_def)

lemma wp_bind: "wp m Q \<Longrightarrow> (\<And>v. Q v \<Longrightarrow> wp (f v) R) \<Longrightarrow> wp (m \<bind> f) R"
  by (auto simp: wp_def)

lemma wp_assoc [wp_rules]: "wp (m \<bind> (\<lambda>v. f v \<bind> g)) Q \<Longrightarrow> wp ((m \<bind> f) \<bind> g) Q"
  by (simp add: wp_def)

lemma wp_bind_Some [wp_rules]: "wp (f v) Q \<Longrightarrow> wp (Some v \<bind> f) Q"
  by simp

lemma wp_if [wp_rules]: "(b \<Longrightarrow> wp m Q) \<Longrightarrow> (\<not> b \<Longrightarrow> wp n Q) \<Longrightarrow> wp (if b then m else n) Q"
  by simp

lemma wp_bind_if [wp_rules]: "(b \<Longrightarrow> wp (m \<bind> f) Q) \<Longrightarrow> (\<not> b \<Longrightarrow> wp (n \<bind> f) Q) \<Longrightarrow> wp ((if b then m else n) \<bind> f) Q"
  by simp

lemma wp_case_option [wp_rules]:
  "(v = None \<Longrightarrow> wp m Q) \<Longrightarrow> (\<And>a. v = Some a \<Longrightarrow> wp (n a) Q) \<Longrightarrow> wp (case v of None \<Rightarrow> m | Some a \<Rightarrow> n a) Q"
  by (cases v) simp_all

lemma wp_bind_case_option [wp_rules]:
  "(v = None \<Longrightarrow> wp (m \<bind> f) Q) \<Longrightarrow> (\<And>a. v = Some a \<Longrightarrow> wp (n a \<bind> f) Q) \<Longrightarrow>
   wp ((case v of None \<Rightarrow> m | Some a \<Rightarrow> n a) \<bind> f) Q"
  by (cases v) simp_all

lemma wp_case_pair [wp_rules]: "(\<And>a b. v = (a, b) \<Longrightarrow> wp (f a b) Q) \<Longrightarrow> wp (case v of (a, b) \<Rightarrow> f a b) Q"
  by (cases v) simp

lemma wp_mono: "wp m Q \<Longrightarrow> (\<And>v. Q v \<Longrightarrow> R v) \<Longrightarrow> wp m R"
  by (auto simp: wp_def)

lemma wp_foldM:
  assumes "I s" "\<And>a s. a \<in> set l \<Longrightarrow> I s \<Longrightarrow> wp (f a s) I"
  shows "wp (foldM f l s) I"
  using assms
proof (induction l arbitrary: s)
  case (Cons a l)
  obtain s' where "f a s = Some s'" "I s'" using Cons.prems(2) [of a s] Cons.prems(1) by (auto simp: wp_def)
  then show ?case using Cons by simp
qed (simp add: wp_def)

lemma wp_lookupKeyWrite [run_rules]:
  assumes "during c s0 P s" "d < length (dbs s)"
    and f: "\<And>v s'. during c s0 P s' \<Longrightarrow> v = d_dict (db_of s' d) k \<Longrightarrow> wp (f (v, s')) Q"
  shows "wp (lookupKeyWrite s d k \<bind> f) Q"
proof -
  note r = relI [OF duringD(1) [OF assms(1)], of c]
  have o: "dbs_ok (core s)" "d < length (dbs (core s))" using duringD(2) [OF assms(1)] assms(2) by simp_all
  obtain v s' where 1: "lookupKeyWrite s d k = Some (v, s')" "v = d_dict (db_of s' d) k" "rel c s' (expire_key d k (core s)) (out (clients s c))"
    using rel_lookupKeyWrite [OF r o] by blast
  then show ?thesis using f [OF during_rel0 [OF assms(1) 1(3) frame_ops(2)] 1(2)] assms(2) by simp
qed

lemma wp_lookupKeyRead [run_rules]:
  assumes "during c s0 P s" "d < length (dbs s)"
    and f: "\<And>v s'. during c s0 P s' \<Longrightarrow> wp (f (v, s')) Q"
  shows "wp (lookupKeyReadWithFlags s d k nt \<bind> f) Q"
proof -
  note r = relI [OF duringD(1) [OF assms(1)], of c]
  have o: "dbs_ok (core s)" "d < length (dbs (core s))" using duringD(2) [OF assms(1)] assms(2) by simp_all
  obtain v s' where 1: "lookupKeyReadWithFlags s d k nt = Some (v, s')" "rel c s' (expire_key d k (core s)) (out (clients s c))"
    using rel_lookupKeyRead [OF r o] by blast
  then show ?thesis using f [OF during_rel0 [OF assms(1) 1(2) frame_ops(2)]] assms(2) by simp
qed

lemma wp_lookupKeyRead' [run_rules]:
  "during c s0 P s \<Longrightarrow> d < length (dbs s) \<Longrightarrow> (\<And>v s'. during c s0 P s' \<Longrightarrow> wp (f (v, s')) Q) \<Longrightarrow> wp (lookupKeyRead s d k \<bind> f) Q"
  unfolding lookupKeyRead_def by (rule wp_lookupKeyRead)

lemma wp_notify [run_rules]:
  assumes "during c s0 P s" "\<And>s'. during c s0 P s' \<Longrightarrow> wp (f s') Q"
  shows "wp (notifyKeyspaceEvent s ty ev k d \<bind> f) Q"
proof -
  note r = relI [OF duringD(1) [OF assms(1)], of c]
  obtain s' where 1: "notifyKeyspaceEvent s ty ev k d = Some s'" "rel c s' (core s) (out (clients s c))"
    using rel_notify [OF r] by blast
  then show ?thesis using assms(2) [OF during_rel0 [OF assms(1) 1(2)]] by simp
qed

lemma wp_setKey [run_rules]:
  assumes "during c s0 P s" "d < length (dbs s)"
    "\<And>s'. during c s0 P s' \<Longrightarrow> d_dict (db_of s' d) k \<noteq> None \<Longrightarrow> touched s' d k \<Longrightarrow> wp (f s') Q"
  shows "wp (setKey s d k v \<bind> f) Q"
proof -
  note r = relI [OF duringD(1) [OF assms(1)], of c]
  have o: "dbs_ok (core s)" "d < length (dbs (core s))" using duringD(2) [OF assms(1)] assms(2) by simp_all
  obtain s' where 1: "setKey s d k v = Some s'" "rel c s' (store_key d k (ptr v) (core s)) (out (clients s c))"
    using rel_setKey [OF r o] by blast
  have l: "d < length (dbs s')" using rel_len [OF 1(2)] assms(2) by (simp add: store_key_db)
  have "has_key s' d k" using rel_has_key [OF 1(2), of d k] assms(2) by (simp add: has_key_def store_key_db)
  moreover have "touched (core s') d k" using frame_store(2) [OF o(2)] 1(2) by (simp add: rel_def)
  ultimately show ?thesis using assms(3) [OF during_rel0 [OF assms(1) 1(2) frame_store(1) [OF o(2)]]] 1(1) l
    by (simp add: has_key_def)
qed

lemma wp_dbAdd [run_rules]:
  assumes "during c s0 P s" "d < length (dbs s)" "d_dict (db_of s d) k = None"
    "\<And>s'. during c s0 (insert (d, k) P) s' \<Longrightarrow> d_dict (db_of s' d) k \<noteq> None \<Longrightarrow> wp (f s') Q"
  shows "wp (dbAdd s d k v \<bind> f) Q"
proof -
  note r = relI [OF duringD(1) [OF assms(1)], of c]
  obtain s' where 1: "dbAdd s d k v = Some s'" "rel c s' (add_key d k (ptr v) (core s)) (out (clients s c))"
    using rel_dbAdd [OF r, of d k v] assms(2,3) by (auto simp: has_key_def)
  have l: "length (dbs s') = length (dbs s)" using rel_len [OF 1(2)] by simp
  have "has_key s' d k" using rel_has_key [OF 1(2), of d k] assms(2) by (simp add: has_key_def)
  then show ?thesis using assms(4) [OF during_rel [OF assms(1) 1(2) frame_ops(4), simplified]] assms(2) 1(1) by (simp add: has_key_def)
qed

lemma wp_dbOverwrite [run_rules]:
  assumes "during c s0 P s" "d < length (dbs s)" "d_dict (db_of s d) k \<noteq> None" "\<And>s'. during c s0 (insert (d, k) P) s' \<Longrightarrow> wp (f s') Q"
  shows "wp (dbOverwrite s d k v \<bind> f) Q"
proof -
  note r = relI [OF duringD(1) [OF assms(1)], of c]
  obtain s' where 1: "dbOverwrite s d k v = Some s'" "rel c s' (put_key d k (ptr v) (core s)) (out (clients s c))"
    using rel_dbOverwrite [OF r, of d k v] assms(2,3) by (auto simp: has_key_def)
  then show ?thesis using assms(4) [OF during_rel [OF assms(1) 1(2) frame_ops(3), simplified]] assms(2) by simp
qed

lemma wp_setExpire:
  assumes "during c s0 P s" "d < length (dbs s)" "d_dict (db_of s d) k \<noteq> None"
    "\<And>s'. during c s0 (insert (d, k) P) s' \<Longrightarrow> wp (f s') Q"
  shows "wp (setExpire s oc d k t \<bind> f) Q"
proof -
  note r = relI [OF duringD(1) [OF assms(1)], of c]
  have h: "has_key (core s) d k" "d < length (dbs (core s))" using assms(2,3) by (simp_all add: has_key_def)
  obtain s' where 1: "setExpire s oc d k t = Some s'" "rel c s' (set_expire oc d k t (core s)) (out (clients s c))"
    using rel_setExpire [OF r h(2,1)] by blast
  then show ?thesis using assms(4) [OF during_rel [OF assms(1) 1(2) frame_ops(7) [OF h(2,1)], simplified]] by simp
qed

lemma wp_setExpire_touched:
  assumes "during c s0 P s" "d < length (dbs s)" "d_dict (db_of s d) k \<noteq> None" "touched s d k"
    "\<And>s'. during c s0 P s' \<Longrightarrow> wp (f s') Q"
  shows "wp (setExpire s oc d k t \<bind> f) Q"
proof -
  note r = relI [OF duringD(1) [OF assms(1)], of c]
  have h: "has_key (core s) d k" "d < length (dbs (core s))" using assms(2,3) by (simp_all add: has_key_def)
  obtain s' where 1: "setExpire s oc d k t = Some s'" "rel c s' (set_expire oc d k t (core s)) (out (clients s c))"
    using rel_setExpire [OF r h(2,1)] by blast
  note f = frame_ops(7) [OF h(2,1), of oc t]
  have l: "d < length (dbs s')" using rel_len [OF 1(2)] h(2) by (simp add: set_expire_db)
  have "touched (core s') d k" using frame_touched [OF f h(2)] assms(2,4) 1(2) by (simp add: rel_def)
  then have "during c s0 P s'" using during_done [OF during_rel [OF assms(1) 1(2) f, simplified]] l by simp
  then show ?thesis using assms(5) 1(1) by simp
qed

lemma wp_removeExpire [run_rules]:
  assumes "during c s0 P s" "d < length (dbs s)" "d_dict (db_of s d) k \<noteq> None" "\<And>b s'. during c s0 (insert (d, k) P) s' \<Longrightarrow> wp (f (b, s')) Q"
  shows "wp (removeExpire s d k \<bind> f) Q"
proof -
  note r = relI [OF duringD(1) [OF assms(1)], of c]
  have h: "has_key (core s) d k" "d < length (dbs (core s))" using assms(2,3) by (simp_all add: has_key_def)
  obtain b s' where 1: "removeExpire s d k = Some (b, s')" "rel c s' (set_exp d k None (core s)) (out (clients s c))"
    using rel_removeExpire [OF r h(2,1)] by blast
  then show ?thesis using assms(4) [OF during_rel [OF assms(1) 1(2) frame_ops(5) [OF h(2)], simplified]] by simp
qed

lemma wp_expireIfNeeded [run_rules]:
  assumes "during c s0 P s" "d < length (dbs s)" "\<And>b s'. during c s0 P s' \<Longrightarrow> wp (f (b, s')) Q"
  shows "wp (expireIfNeeded s d k \<bind> f) Q"
proof -
  note r = relI [OF duringD(1) [OF assms(1)], of c]
  have o: "dbs_ok (core s)" "d < length (dbs (core s))" using duringD(2) [OF assms(1)] assms(2) by simp_all
  obtain b s' where 1: "expireIfNeeded s d k = Some (b, s')" "rel c s' (expire_key d k (core s)) (out (clients s c))"
    using rel_expireIfNeeded [OF r o] by blast
  then show ?thesis using assms(3) [OF during_rel0 [OF assms(1) 1(2) frame_ops(2)]] assms(2) by simp
qed

lemma wp_foldM_run [run_rules]:
  assumes "during c s0 P s" "\<And>a s. a \<in> set l \<Longrightarrow> during c s0 P s \<Longrightarrow> wp (f a s) (during c s0 P)"
    "\<And>s. during c s0 P s \<Longrightarrow> wp (g s) Q"
  shows "wp (foldM f l s \<bind> g) Q"
  by (rule wp_bind [OF wp_foldM [of "during c s0 P" s l f]]) (use assms in auto)

lemma wp_foldM_last [run_rules]:
  assumes "during c s0 P s" "\<And>a s. a \<in> set l \<Longrightarrow> during c s0 P s \<Longrightarrow> wp (f a s) (during c s0 P)"
  shows "wp (foldM f l s) (during c s0 P)"
  using wp_foldM [of "during c s0 P"] assms by blast

lemma wp_notify_last [run_rules]: "during c s0 P s \<Longrightarrow> wp (notifyKeyspaceEvent s ty ev k d) (during c s0 P)"
  using wp_notify [of c s0 P s Some "during c s0 P" ty ev k d] by (simp add: wp_def)

lemma during_cmd: "during c s0 P s \<Longrightarrow> \<exists>cmd. c_cmd (clients s0 c) = Some cmd"
  using duringD(13) by auto

lemma during_mono: "during c s0 P s \<Longrightarrow> P \<subseteq> Q \<Longrightarrow> during c s0 Q s"
  using frame_mono by (auto simp: during_def)

lemma during_insert: "during c s0 P s \<Longrightarrow> during c s0 (insert a P) s"
  by (erule during_mono) blast

lemma touched_dirty [simp]: "touched (s\<lparr>dirty := n\<rparr>) d k = touched s d k"
  by (simp add: touched_def watchers_def)

lemma during_delete:
  assumes "during c s0 (insert (d, k) P) s" "d < length (dbs s)"
  shows "during c s0 (insert (d, k) P) (del_key d k s)"
  using during_rel [OF assms(1) rel_lifts [OF lifts_del [of d] relI [OF duringD(1) [OF assms(1)], of c], of k] frame_ops(1)] assms(2) by simp

lemmas run_simps = during_signal during_put during_delete during_insert dbSyncDelete_eq dbAsyncDelete_eq dbDelete_eq

text \<open>Where a command starts.\<close>

definition can_run :: "nat \<Rightarrow> redisServer \<Rightarrow> bool" where
  "can_run c s \<longleftrightarrow> prop_ok s \<and> dbs_ok s \<and> c_db (clients s c) < length (dbs s) \<and> c_cmd (clients s c) \<noteq> None"

lemma can_run_during: "can_run c s \<Longrightarrow> during c s {} s"
  by (simp add: can_run_def during_def)

lemma during_can_run: "during c s0 P s \<Longrightarrow> can_run c s"
  using duringD [of c s0 P s] by (simp add: can_run_def)

end
