(* ===== verification/TString.thy ===== *)
theory TString
  imports Safe
begin

text \<open>The commands on strings (\<open>t_string.c\<close>).  An argument is stored after \<open>tryObjectEncoding\<close>, which
  does not change its bytes, so the argument vector keeps plain strings.  \<open>INCRBYFLOAT\<close> is not
  modelled (it computes with \<open>long double\<close>).\<close>

datatype setflag = OBJ_SET_NX | OBJ_SET_XX | OBJ_SET_EX | OBJ_SET_PX
datatype unit_t = UNIT_SECONDS | UNIT_MILLISECONDS

abbreviation cdb :: "redisServer \<Rightarrow> nat \<Rightarrow> nat" where
  "cdb s c \<equiv> c_db (clients s c)"

section \<open>Storage of strings\<close>

definition checkStringLength :: "redisServer \<Rightarrow> nat \<Rightarrow> i64 \<Rightarrow> bool \<times> redisServer" where
  "checkStringLength s c sz =
     (if sint sz > 512 * 1024 * 1024
      then (False, addReplyError s c ''string exceeds maximum allowed size (512MB)'') else (True, s))"

text \<open>\<open>sdsnewlen(NULL, n)\<close> and \<open>sdsgrowzero\<close>: no allocator serves a request beyond \<open>PTRDIFF_MAX\<close>, and the
  server aborts when it is out of memory.\<close>

definition sdsnewlen_zero :: "u64 \<Rightarrow> bytes option" where
  "sdsnewlen_zero n = (if sint n < 0 then None else Some (replicate (unat n) 0))"

definition sdsgrowzero :: "bytes \<Rightarrow> u64 \<Rightarrow> bytes option" where
  "sdsgrowzero b len =
     (if unat len \<le> length b then Some b
      else if sint len < 0 then None
      else Some (b @ replicate (unat len - length b) 0))"

definition encArg :: "redisServer \<Rightarrow> bytes \<Rightarrow> robj option" where
  "encArg s b = tryObjectEncoding s (createStringObject s b)"

section \<open>SET and GET\<close>

definition setGenericCommand_ms :: "redisServer \<Rightarrow> nat \<Rightarrow> bytes option \<Rightarrow> unit_t \<Rightarrow> (i64 option \<times> redisServer) option" where
  "setGenericCommand_ms s c expire un =
     (case expire of
        None \<Rightarrow> Some (Some 0, s)
      | Some e \<Rightarrow>
          do { (m, s) \<leftarrow> getLongLongFromObjectOrReply s c (Some (createStringObject s e)) None;
               (case m of
                  None \<Rightarrow> Some (None, s)
                | Some milliseconds \<Rightarrow>
                    if sint milliseconds \<le> 0 then
                      do { cmd \<leftarrow> c_cmd (clients s c);
                           Some (None, addReplyErrorFormat s c (lit ''invalid expire time in '' @ cstr (cm_name cmd))) }
                    else Some (Some (if un = UNIT_SECONDS then milliseconds * 1000 else milliseconds), s)) })"

definition setGenericCommand_abort :: "redisServer \<Rightarrow> nat \<Rightarrow> setflag set \<Rightarrow> bytes \<Rightarrow> (bool \<times> redisServer) option" where
  "setGenericCommand_abort s c fl key =
     do { (abort, s) \<leftarrow>
            (if OBJ_SET_NX \<in> fl then do { (ob, s) \<leftarrow> lookupKeyWrite s (cdb s c) key; Some (ob \<noteq> None, s) }
             else Some (False, s));
          if abort then Some (True, s)
          else if OBJ_SET_XX \<in> fl then do { (ob, s) \<leftarrow> lookupKeyWrite s (cdb s c) key; Some (ob = None, s) }
          else Some (False, s) }"

definition setGenericCommand ::
  "redisServer \<Rightarrow> nat \<Rightarrow> setflag set \<Rightarrow> bytes \<Rightarrow> robj \<Rightarrow> bytes option \<Rightarrow> unit_t \<Rightarrow> bytes option \<Rightarrow> bytes option \<Rightarrow> redisServer option" where
  "setGenericCommand s c fl key val expire un ok_reply abort_reply =
     (let d = cdb s c in
      do { (ms, s) \<leftarrow> setGenericCommand_ms s c expire un;
           (case ms of
              None \<Rightarrow> Some s
            | Some milliseconds \<Rightarrow>
                do { (abort, s) \<leftarrow> setGenericCommand_abort s c fl key;
                     if abort then Some (addReply s c (case abort_reply of Some r \<Rightarrow> r | None \<Rightarrow> shared_nullbulk))
                     else
                       do { s \<leftarrow> setKey s d key val;
                            let s = s\<lparr>dirty := dirty s + 1\<rparr> in
                            do { s \<leftarrow> (if expire \<noteq> None then setExpire s (Some c) d key (mstime s + milliseconds) else Some s);
                                 s \<leftarrow> notifyKeyspaceEvent s NOTIFY_STRING ''set'' key d;
                                 s \<leftarrow> (if expire \<noteq> None then notifyKeyspaceEvent s NOTIFY_GENERIC ''expire'' key d else Some s);
                                 Some (addReply s c (case ok_reply of Some r \<Rightarrow> r | None \<Rightarrow> shared_ok)) } } }) })"

text \<open>\<open>a[0], a[1], a[2]\<close> are the letters and the NUL; \<open>None\<close> is the syntax error.\<close>

definition is_opt :: "bytes \<Rightarrow> u8 \<Rightarrow> u8 \<Rightarrow> bool" where
  "is_opt a p q = (case a @ [0] of
     a0 # a1 # a2 # _ \<Rightarrow> lower a0 = p \<and> lower a1 = q \<and> a2 = 0 | _ \<Rightarrow> False)"

fun setCommand_opts :: "setflag set \<Rightarrow> unit_t \<Rightarrow> bytes option \<Rightarrow> bytes list \<Rightarrow> (setflag set \<times> unit_t \<times> bytes option) option" where
  "setCommand_opts fl un expire [] = Some (fl, un, expire)"
| "setCommand_opts fl un expire (a # rest) =
     (if is_opt a 110 120 \<and> OBJ_SET_XX \<notin> fl then setCommand_opts (insert OBJ_SET_NX fl) un expire rest
      else if is_opt a 120 120 \<and> OBJ_SET_NX \<notin> fl then setCommand_opts (insert OBJ_SET_XX fl) un expire rest
      else
        case rest of
          [] \<Rightarrow> None
        | next # rest' \<Rightarrow>
            if is_opt a 101 120 \<and> OBJ_SET_PX \<notin> fl then setCommand_opts (insert OBJ_SET_EX fl) UNIT_SECONDS (Some next) rest'
            else if is_opt a 112 120 \<and> OBJ_SET_EX \<notin> fl then setCommand_opts (insert OBJ_SET_PX fl) UNIT_MILLISECONDS (Some next) rest'
            else None)"

definition setCommand :: "redisServer \<Rightarrow> nat \<Rightarrow> redisServer option" where
  "setCommand s c =
     (case setCommand_opts {} UNIT_SECONDS None (drop 3 (argv s c)) of
        None \<Rightarrow> Some (addReply s c shared_syntaxerr)
      | Some (fl, un, expire) \<Rightarrow>
          do { val \<leftarrow> encArg s (argv s c ! 2);
               setGenericCommand s c fl (argv s c ! 1) val expire un None None })"

definition setnxCommand :: "redisServer \<Rightarrow> nat \<Rightarrow> redisServer option" where
  "setnxCommand s c =
     do { val \<leftarrow> encArg s (argv s c ! 2);
          setGenericCommand s c {OBJ_SET_NX} (argv s c ! 1) val None UNIT_SECONDS (Some shared_cone) (Some shared_czero) }"

definition setexCommand :: "redisServer \<Rightarrow> nat \<Rightarrow> redisServer option" where
  "setexCommand s c =
     do { val \<leftarrow> encArg s (argv s c ! 3);
          setGenericCommand s c {} (argv s c ! 1) val (Some (argv s c ! 2)) UNIT_SECONDS None None }"

definition psetexCommand :: "redisServer \<Rightarrow> nat \<Rightarrow> redisServer option" where
  "psetexCommand s c =
     do { val \<leftarrow> encArg s (argv s c ! 3);
          setGenericCommand s c {} (argv s c ! 1) val (Some (argv s c ! 2)) UNIT_MILLISECONDS None None }"

definition getGenericCommand :: "redisServer \<Rightarrow> nat \<Rightarrow> (bool \<times> redisServer) option" where
  "getGenericCommand s c =
     do { (ob, s) \<leftarrow> lookupKeyReadOrReply s c (argv s c ! 1) shared_nullbulk;
          (case ob of
             None \<Rightarrow> Some (True, s)
           | Some ob \<Rightarrow>
               if otype ob \<noteq> OBJ_STRING then Some (False, addReply s c shared_wrongtypeerr)
               else do { s \<leftarrow> addReplyBulkObj s c ob; Some (True, s) }) }"

definition getCommand :: "redisServer \<Rightarrow> nat \<Rightarrow> redisServer option" where
  "getCommand s c = do { (_, s) \<leftarrow> getGenericCommand s c; Some s }"

definition getsetCommand :: "redisServer \<Rightarrow> nat \<Rightarrow> redisServer option" where
  "getsetCommand s c =
     do { (ok, s) \<leftarrow> getGenericCommand s c;
          if \<not> ok then Some s
          else
            do { val \<leftarrow> encArg s (argv s c ! 2);
                 s \<leftarrow> setKey s (cdb s c) (argv s c ! 1) val;
                 s \<leftarrow> notifyKeyspaceEvent s NOTIFY_STRING ''set'' (argv s c ! 1) (cdb s c);
                 Some (s\<lparr>dirty := dirty s + 1\<rparr>) } }"

section \<open>Ranges\<close>

text \<open>\<open>memcpy\<close> of the value into the grown string.\<close>

definition overwrite :: "bytes \<Rightarrow> nat \<Rightarrow> bytes \<Rightarrow> bytes" where
  "overwrite b off v = take off b @ v @ drop (off + length v) b"

definition setrangeCommand_finish :: "redisServer \<Rightarrow> nat \<Rightarrow> robj \<Rightarrow> i64 \<Rightarrow> redisServer option" where
  "setrangeCommand_finish s c ob offset =
     (let key = argv s c ! 1; v = argv s c ! 3; d = cdb s c in
      do { b \<leftarrow> (case ptr ob of Str_RAW b \<Rightarrow> Some b | _ \<Rightarrow> None);
           b \<leftarrow> sdsgrowzero b (offset + of_nat (length v));
           let b = overwrite b (unat offset) v;
               s = upd_db d (\<lambda>db. db\<lparr>d_dict := (d_dict db)(key \<mapsto> ob\<lparr>ptr := Str_RAW b\<rparr>)\<rparr>) s;
               s = signalModifiedKey s d key in
           do { s \<leftarrow> notifyKeyspaceEvent s NOTIFY_STRING ''setrange'' key d;
                let s = s\<lparr>dirty := dirty s + 1\<rparr> in
                addReplyLongLong s c (of_nat (length b)) } })"

definition setrangeCommand :: "redisServer \<Rightarrow> nat \<Rightarrow> redisServer option" where
  "setrangeCommand s c =
     (let key = argv s c ! 1; v = argv s c ! 3; d = cdb s c in
      do { (off, s) \<leftarrow> getLongFromObjectOrReply s c (Some (createStringObject s (argv s c ! 2))) None;
           (case off of
              None \<Rightarrow> Some s
            | Some offset \<Rightarrow>
                if sint offset < 0 then Some (addReplyError s c ''offset is out of range'')
                else
                  do { (ob, s) \<leftarrow> lookupKeyWrite s d key;
                       (case ob of
                          None \<Rightarrow>
                            if v = [] then Some (addReply s c shared_czero)
                            else
                              let (ok, s) = checkStringLength s c (offset + of_nat (length v)) in
                              if \<not> ok then Some s
                              else
                                do { z \<leftarrow> sdsnewlen_zero (offset + of_nat (length v));
                                     let ob = createObject s (Str_RAW z) in
                                     do { s \<leftarrow> dbAdd s d key ob; setrangeCommand_finish s c ob offset } }
                        | Some ob \<Rightarrow>
                            let (bad, s) = checkType s c ob OBJ_STRING in
                            if bad then Some s
                            else
                              do { olen \<leftarrow> stringObjectLen ob;
                                   if v = [] then addReplyLongLong s c (of_nat olen)
                                   else
                                     let (ok, s) = checkStringLength s c (offset + of_nat (length v)) in
                                     if \<not> ok then Some s
                                     else
                                       do { (ob, s) \<leftarrow> dbUnshareStringValue s d key ob;
                                            setrangeCommand_finish s c ob offset } }) }) })"

definition getrangeCommand_bounds :: "nat \<Rightarrow> i64 \<Rightarrow> i64 \<Rightarrow> (nat \<times> nat) option" where
  "getrangeCommand_bounds strlen start end =
     (if sint start < 0 \<and> sint end < 0 \<and> sint start > sint end then None
      else
        let start = (if sint start < 0 then of_nat strlen + start else start);
            end = (if sint end < 0 then of_nat strlen + end else end);
            start = (if sint start < 0 then 0 else start);
            end = (if sint end < 0 then 0 else end);
            end = (if unat end \<ge> strlen then of_nat strlen - 1 else end) in
        if sint start > sint end \<or> strlen = 0 then None
        else Some (unat start, unat (end - start + 1)))"

definition getrangeCommand :: "redisServer \<Rightarrow> nat \<Rightarrow> redisServer option" where
  "getrangeCommand s c =
     do { (start, s) \<leftarrow> getLongLongFromObjectOrReply s c (Some (createStringObject s (argv s c ! 2))) None;
          (case start of
             None \<Rightarrow> Some s
           | Some start \<Rightarrow>
               do { (end, s) \<leftarrow> getLongLongFromObjectOrReply s c (Some (createStringObject s (argv s c ! 3))) None;
                    (case end of
                       None \<Rightarrow> Some s
                     | Some end \<Rightarrow>
                         do { (ob, s) \<leftarrow> lookupKeyReadOrReply s c (argv s c ! 1) shared_emptybulk;
                              (case ob of
                                 None \<Rightarrow> Some s
                               | Some ob \<Rightarrow>
                                   let (bad, s) = checkType s c ob OBJ_STRING in
                                   if bad then Some s
                                   else
                                     do { str \<leftarrow> (case ptr ob of Str_INT n \<Rightarrow> ll2str 32 n
                                            | Str_RAW b \<Rightarrow> Some b | Str_EMBSTR b \<Rightarrow> Some b | _ \<Rightarrow> None);
                                          (case getrangeCommand_bounds (length str) start end of
                                             None \<Rightarrow> Some (addReply s c shared_emptybulk)
                                           | Some (i, n) \<Rightarrow> addReplyBulkCBuffer s c (take n (drop i str))) }) }) }) }"

section \<open>Several keys\<close>

definition mgetCommand :: "redisServer \<Rightarrow> nat \<Rightarrow> redisServer option" where
  "mgetCommand s c =
     do { s \<leftarrow> addReplyMultiBulkLen s c (length (argv s c) - 1);
          foldM (\<lambda>key s.
            do { (ob, s) \<leftarrow> lookupKeyRead s (cdb s c) key;
                 (case ob of
                    None \<Rightarrow> Some (addReply s c shared_nullbulk)
                  | Some ob \<Rightarrow> if otype ob \<noteq> OBJ_STRING then Some (addReply s c shared_nullbulk)
                               else addReplyBulkObj s c ob) }) (tl (argv s c)) s }"

fun pairs :: "'a list \<Rightarrow> ('a \<times> 'a) list" where
  "pairs (k # v # r) = (k, v) # pairs r"
| "pairs _ = []"

text \<open>\<open>MSETNX\<close> looks at the keys in order and stops at the first that exists.\<close>

fun msetGenericCommand_nx :: "redisServer \<Rightarrow> nat \<Rightarrow> (bytes \<times> bytes) list \<Rightarrow> (bool \<times> redisServer) option" where
  "msetGenericCommand_nx s c [] = Some (False, s)"
| "msetGenericCommand_nx s c ((k, v) # r) =
     do { (ob, s) \<leftarrow> lookupKeyWrite s (cdb s c) k;
          if ob \<noteq> None then Some (True, s) else msetGenericCommand_nx s c r }"

definition msetGenericCommand :: "redisServer \<Rightarrow> nat \<Rightarrow> bool \<Rightarrow> redisServer option" where
  "msetGenericCommand s c nx =
     (if length (argv s c) mod 2 = 0 then Some (addReplyError s c ''wrong number of arguments for MSET'')
      else
        let kvs = pairs (tl (argv s c)) in
        do { (exists, s) \<leftarrow> (if nx then msetGenericCommand_nx s c kvs else Some (False, s));
             if exists then Some (addReply s c shared_czero)
             else
               do { s \<leftarrow> foldM (\<lambda>(k, v) s.
                        do { val \<leftarrow> encArg s v;
                             s \<leftarrow> setKey s (cdb s c) k val;
                             notifyKeyspaceEvent s NOTIFY_STRING ''set'' k (cdb s c) }) kvs s;
                    let s = s\<lparr>dirty := dirty s + int ((length (argv s c) - 1) div 2)\<rparr> in
                    Some (addReply s c (if nx then shared_cone else shared_ok)) } })"

definition msetCommand :: "redisServer \<Rightarrow> nat \<Rightarrow> redisServer option" where
  "msetCommand s c = msetGenericCommand s c False"

definition msetnxCommand :: "redisServer \<Rightarrow> nat \<Rightarrow> redisServer option" where
  "msetnxCommand s c = msetGenericCommand s c True"

section \<open>Counters\<close>

text \<open>An integer in the range of the shared integers is taken as shared, so that it is replaced and not
  changed in place.\<close>

definition incrDecrCommand :: "redisServer \<Rightarrow> nat \<Rightarrow> i64 \<Rightarrow> redisServer option" where
  "incrDecrCommand s c incr =
     (let key = argv s c ! 1; d = cdb s c in
      do { (ob, s) \<leftarrow> lookupKeyWrite s d key;
           let (bad, s) = (case ob of None \<Rightarrow> (False, s) | Some ob \<Rightarrow> checkType s c ob OBJ_STRING) in
           if bad then Some s
           else
             do { (v, s) \<leftarrow> getLongLongFromObjectOrReply s c ob None;
                  (case v of
                     None \<Rightarrow> Some s
                   | Some oldvalue \<Rightarrow>
                       if (sint incr < 0 \<and> sint oldvalue < 0 \<and> sint incr < sint (LLONG_MIN - oldvalue)) \<or>
                          (sint incr > 0 \<and> sint oldvalue > 0 \<and> sint incr > sint (LLONG_MAX - oldvalue))
                       then Some (addReplyError s c ''increment or decrement would overflow'')
                       else
                         let v = oldvalue + incr;
                             inplace = (case ob of None \<Rightarrow> None | Some ob \<Rightarrow>
                               (case ptr ob of
                                  Str_INT old \<Rightarrow>
                                    if \<not> (0 \<le> sint old \<and> sint old < OBJ_SHARED_INTEGERS) \<and>
                                       (sint v < 0 \<or> sint v \<ge> OBJ_SHARED_INTEGERS)
                                    then Some (ob\<lparr>ptr := Str_INT v\<rparr>) else None
                                | _ \<Rightarrow> None));
                             new = (case inplace of Some ob \<Rightarrow> ob | None \<Rightarrow> createStringObjectFromLongLongForValue s v) in
                         do { s \<leftarrow> (if inplace \<noteq> None then Some (upd_db d (\<lambda>db. db\<lparr>d_dict := (d_dict db)(key \<mapsto> new)\<rparr>) s)
                                    else if ob \<noteq> None then dbOverwrite s d key new
                                    else dbAdd s d key new);
                              let s = signalModifiedKey s d key in
                              do { s \<leftarrow> notifyKeyspaceEvent s NOTIFY_STRING ''incrby'' key d;
                                   let s = s\<lparr>dirty := dirty s + 1\<rparr>; s = addReply s c (lit '':'') in
                                   do { s \<leftarrow> addReplyObj s c new; Some (addReply s c crlf) } } }) } })"

definition incrCommand :: "redisServer \<Rightarrow> nat \<Rightarrow> redisServer option" where
  "incrCommand s c = incrDecrCommand s c 1"

definition decrCommand :: "redisServer \<Rightarrow> nat \<Rightarrow> redisServer option" where
  "decrCommand s c = incrDecrCommand s c (- 1)"

definition incrbyCommand :: "redisServer \<Rightarrow> nat \<Rightarrow> redisServer option" where
  "incrbyCommand s c =
     do { (v, s) \<leftarrow> getLongLongFromObjectOrReply s c (Some (createStringObject s (argv s c ! 2))) None;
          (case v of None \<Rightarrow> Some s | Some incr \<Rightarrow> incrDecrCommand s c incr) }"

definition decrbyCommand :: "redisServer \<Rightarrow> nat \<Rightarrow> redisServer option" where
  "decrbyCommand s c =
     do { (v, s) \<leftarrow> getLongLongFromObjectOrReply s c (Some (createStringObject s (argv s c ! 2))) None;
          (case v of None \<Rightarrow> Some s | Some incr \<Rightarrow> incrDecrCommand s c (- incr)) }"

section \<open>APPEND and STRLEN\<close>

definition appendCommand_finish :: "redisServer \<Rightarrow> nat \<Rightarrow> nat \<Rightarrow> redisServer option" where
  "appendCommand_finish s c totlen =
     (let s = signalModifiedKey s (cdb s c) (argv s c ! 1) in
      do { s \<leftarrow> notifyKeyspaceEvent s NOTIFY_STRING ''append'' (argv s c ! 1) (cdb s c);
           let s = s\<lparr>dirty := dirty s + 1\<rparr> in
           addReplyLongLong s c (of_nat totlen) })"

definition appendCommand :: "redisServer \<Rightarrow> nat \<Rightarrow> redisServer option" where
  "appendCommand s c =
     (let key = argv s c ! 1; app = argv s c ! 2; d = cdb s c in
      do { (ob, s) \<leftarrow> lookupKeyWrite s d key;
           (case ob of
              None \<Rightarrow>
                do { val \<leftarrow> encArg s app;
                     s \<leftarrow> dbAdd s d key val;
                     totlen \<leftarrow> stringObjectLen val;
                     appendCommand_finish s c totlen }
            | Some ob \<Rightarrow>
                let (bad, s) = checkType s c ob OBJ_STRING in
                if bad then Some s
                else
                  do { olen \<leftarrow> stringObjectLen ob;
                       let (ok, s) = checkStringLength s c (of_nat (olen + length app)) in
                       if \<not> ok then Some s
                       else
                         do { (ob, s) \<leftarrow> dbUnshareStringValue s d key ob;
                              b \<leftarrow> (case ptr ob of Str_RAW b \<Rightarrow> Some b | _ \<Rightarrow> None);
                              let b = b @ app;
                                  s = upd_db d (\<lambda>db. db\<lparr>d_dict := (d_dict db)(key \<mapsto> ob\<lparr>ptr := Str_RAW b\<rparr>)\<rparr>) s in
                              appendCommand_finish s c (length b) } }) })"

definition strlenCommand :: "redisServer \<Rightarrow> nat \<Rightarrow> redisServer option" where
  "strlenCommand s c =
     do { (ob, s) \<leftarrow> lookupKeyReadOrReply s c (argv s c ! 1) shared_czero;
          (case ob of
             None \<Rightarrow> Some s
           | Some ob \<Rightarrow>
               let (bad, s) = checkType s c ob OBJ_STRING in
               if bad then Some s else do { n \<leftarrow> stringObjectLen ob; addReplyLongLong s c (of_nat n) }) }"

section \<open>Encodings keep the bytes\<close>

text \<open>What an argument is stored as.\<close>

definition enc :: "bytes \<Rightarrow> optr" where
  "enc b = (case string2ll b of Some n \<Rightarrow> Str_INT n
     | None \<Rightarrow> if length b \<le> OBJ_ENCODING_EMBSTR_SIZE_LIMIT then Str_EMBSTR b else Str_RAW b)"

lemma string2l_eq: "string2l b = string2ll b"
proof (cases "string2ll b")
  case (Some v)
  have "- (2 ^ 63) \<le> sint v" "sint v < 2 ^ 63" using sint_ge [of v] sint_lt [of v] by simp_all
  then show ?thesis using Some by (simp add: string2l_def)
qed (simp add: string2l_def)

lemma ptr_createStringObject:
  "ptr (createStringObject s b) = (if length b \<le> OBJ_ENCODING_EMBSTR_SIZE_LIMIT then Str_EMBSTR b else Str_RAW b)"
  by (simp add: createStringObject_def createEmbeddedStringObject_def createRawStringObject_def createObject_def)

lemma ptr_createInt [simp]: "ptr (createStringObjectFromLongLongForValue s v) = Str_INT v"
  by (simp add: createStringObjectFromLongLongForValue_def createStringObjectFromLongLongWithOptions_def
      shared_integers_def createObject_def Let_def)

lemma encArg_enc: "\<exists>v. encArg s b = Some v \<and> ptr v = enc b"
proof -
  have l: "length b \<le> 20" if "string2ll b = Some n" for n
    using that length_decimal_le by (simp add: string2ll_iff)
  show ?thesis
  proof (cases "string2ll b")
    case (Some n)
    then show ?thesis using l [OF Some]
      by (auto simp: encArg_def tryObjectEncoding_def ptr_createStringObject tryObjectEncoding_sds_def string2l_eq
          shared_integers_def enc_def OBJ_ENCODING_EMBSTR_SIZE_LIMIT_def)
  next
    case None
    then show ?thesis
      by (auto simp: encArg_def tryObjectEncoding_def ptr_createStringObject tryObjectEncoding_sds_def string2l_eq
          enc_def createStringObject_def createEmbeddedStringObject_def createRawStringObject_def createObject_def)
  qed
qed

definition sval :: "optr \<Rightarrow> bytes option" where
  "sval p = str_of \<lparr>ptr = p, lru = 0\<rparr>"

lemma str_of_sval: "str_of ob = sval (ptr ob)"
  by (simp add: sval_def str_of_def)

lemma sval_simps [simp]: "sval (Str_RAW b) = Some b" "sval (Str_EMBSTR b) = Some b" "sval (Str_INT n) = Some (decimal n)"
  by (simp_all add: sval_def str_of_def)

lemma sval_enc [simp]: "sval (enc b) = Some b"
  by (auto simp: enc_def string2ll_iff split: option.split)

lemma otype_sval: "otype ob = OBJ_STRING \<longleftrightarrow> sval (ptr ob) \<noteq> None"
  using str_of_type [of ob] by (simp add: str_of_sval)

section \<open>Simulation of the commands\<close>

lemma says_upd [simp]:
  "says (expire_key d k x) c = says x c" "says (del_key d k x) c = says x c" "says (put_key d k p x) c = says x c"
  "says (add_key d k p x) c = says x c" "says (set_exp d k t x) c = says x c" "says (x\<lparr>dirty := n\<rparr>) c = says x c"
  "says (signalModifiedKey x d k) c = says x c"
  by (auto simp: says_def takes_output_def fun_eq_iff)

lemma clients_remember [simp]: "clients (rememberSlaveKeyWithExpire x d k) = clients x"
  by (simp add: rememberSlaveKeyWithExpire_def Let_def)

lemma says_set_expire [simp]: "says (set_expire oc d k t x) c = says x c"
  by (auto simp: set_expire_def Let_def says_def fun_eq_iff)

lemma says_store [simp]: "says (store_key d k p x) c = says x c"
  by (simp add: store_key_def Let_def)

text \<open>A client whose database exists, on a server whose expires belong to keys.\<close>

definition ready :: "nat \<Rightarrow> redisServer \<Rightarrow> bool" where
  "ready c x \<longleftrightarrow> dbs_ok x \<and> c_db (clients x c) < length (dbs x)"

lemma rel_client: "rel c s x y \<Longrightarrow> argv s c = argv x c" "rel c s x y \<Longrightarrow> cdb s c = cdb x c"
  "rel c s x y \<Longrightarrow> c_cmd (clients s c) = c_cmd (clients x c)" "rel c s x y \<Longrightarrow> mstime s = mstime x"
  by (auto simp: rel_def)

definition get_reply :: "optr option \<Rightarrow> bytes" where
  "get_reply v = (case v of None \<Rightarrow> shared_nullbulk
     | Some p \<Rightarrow> (case sval p of Some b \<Rightarrow> bulk b | None \<Rightarrow> shared_wrongtypeerr))"

lemma rel_getGeneric:
  assumes r: "rel c s x y" and ok: "ready c x"
  defines "k \<equiv> argv x c ! 1"
  shows "\<exists>s'. getGenericCommand s c = Some (case read_key x (cdb x c) k of None \<Rightarrow> True | Some p \<Rightarrow> sval p \<noteq> None, s') \<and>
    rel c s' (expire_key (cdb x c) k x) (y @ says x c (get_reply (read_key x (cdb x c) k)))"
proof -
  have o: "dbs_ok x" "cdb x c < length (dbs x)" using ok by (simp_all add: ready_def)
  let ?x = "expire_key (cdb x c) k x"
  obtain v s1 where 1: "lookupKeyReadWithFlags s (cdb x c) k False = Some (v, s1)"
    "map_option ptr v = read_key x (cdb x c) k" "rel c s1 ?x y"
    using rel_lookupKeyRead [OF r o] by blast
  note cl = rel_client [OF r]
  show ?thesis
  proof (cases v)
    case None
    then show ?thesis using 1 rel_reply [OF 1(3), of shared_nullbulk] cl
      by (simp add: getGenericCommand_def lookupKeyReadOrReply_def lookupKeyRead_def k_def get_reply_def)
  next
    case (Some ob)
    then have p: "read_key x (cdb x c) k = Some (ptr ob)" using 1(2) by simp
    show ?thesis
    proof (cases "sval (ptr ob)")
      case None
      then show ?thesis using Some p 1 rel_reply [OF 1(3), of shared_wrongtypeerr] cl otype_sval [of ob]
        by (simp add: getGenericCommand_def lookupKeyReadOrReply_def lookupKeyRead_def k_def get_reply_def)
    next
      case b: (Some b)
      then show ?thesis using Some p 1 rel_reply_bulk [OF 1(3), of b] cl otype_sval [of ob]
        by (simp add: getGenericCommand_def lookupKeyReadOrReply_def lookupKeyRead_def k_def get_reply_def
            addReplyBulkObj_eq str_of_sval)
    qed
  qed
qed

lemma getLongLong_arg: "getLongLongFromObject (Some (createStringObject s b)) = Some (string2ll b)"
  by (simp add: getLongLongFromObject_def ptr_createStringObject)

text \<open>What \<open>SET\<close> and its variants do once the options are parsed: \<open>ms\<close> is the relative expire.\<close>

definition set_spec :: "nat \<Rightarrow> setflag set \<Rightarrow> bytes \<Rightarrow> optr \<Rightarrow> i64 option \<Rightarrow> bytes \<Rightarrow> bytes \<Rightarrow> redisServer \<Rightarrow> redisServer \<times> bytes" where
  "set_spec c fl k p ms okr abr x =
     (let d = cdb x c; present = has_key (expire_key d k x) d k in
      if OBJ_SET_NX \<in> fl \<and> present \<or> OBJ_SET_XX \<in> fl \<and> \<not> present then (expire_key d k x, abr)
      else
        let x = store_key d k p x; x = x\<lparr>dirty := dirty x + 1\<rparr> in
        (case ms of None \<Rightarrow> x | Some t \<Rightarrow> set_expire (Some c) d k (mstime x + t) x, okr))"

lemma rel_abort:
  fixes k :: bytes
  assumes r: "rel c s x y" and ok: "ready c x"
  defines "d \<equiv> cdb x c"
  defines "present \<equiv> has_key (expire_key d k x) d k"
  shows "\<exists>s'. setGenericCommand_abort s c fl k =
      Some (OBJ_SET_NX \<in> fl \<and> present \<or> OBJ_SET_XX \<in> fl \<and> \<not> present, s') \<and>
    (rel c s' (expire_key d k x) y \<or> fl \<inter> {OBJ_SET_NX, OBJ_SET_XX} = {} \<and> rel c s' x y)"
proof -
  have o: "dbs_ok x" "d < length (dbs x)" using ok by (simp_all add: ready_def d_def)
  have cl: "cdb s c = d" using rel_client(2) [OF r] by (simp add: d_def)
  have look: "\<exists>v s'. lookupKeyWrite s d k = Some (v, s') \<and> (v \<noteq> None) = has_key (expire_key d k x) d k \<and> rel c s' (expire_key d k x) y"
    if "rel c s x y" "dbs_ok x" "d < length (dbs x)" for s x
    using rel_lookupKeyWrite [OF that, of k] rel_has_key [of c _ "expire_key d k x" y d k] that(3)
    by (auto simp: has_key_def)
  let ?x = "expire_key d k x"
  have i: "expire_key d k ?x = ?x" using expire_key_idem o by blast
  have ox: "dbs_ok ?x" "d < length (dbs ?x)" using o by simp_all
  obtain v1 s1 where 1: "lookupKeyWrite s d k = Some (v1, s1)" "(v1 \<noteq> None) = present" "rel c s1 ?x y"
    using look [OF r o] by (auto simp: present_def)
  have cl1: "cdb s1 c = d" using rel_client(2) [OF 1(3)] by (simp add: d_def)
  obtain v2 s2 where 2: "lookupKeyWrite s1 d k = Some (v2, s2)" "(v2 \<noteq> None) = present" "rel c s2 ?x y"
    using look [OF 1(3) ox] i by (auto simp: present_def)
  show ?thesis
    using 1 2 cl cl1 r by (cases "OBJ_SET_NX \<in> fl"; cases "OBJ_SET_XX \<in> fl"; cases present)
      (auto simp: setGenericCommand_abort_def)
qed

lemma sim_setGeneric:
  fixes k :: bytes and fl :: "setflag set" and okr abr :: "bytes option"
  assumes r: "rel c s x y" and ok: "ready c x" and v: "ptr v = p"
    and ms: "setGenericCommand_ms s c expire un = Some (Some t, s)"
  defines "spec \<equiv> set_spec c fl k p (if expire \<noteq> None then Some t else None)
      (case okr of Some r \<Rightarrow> r | None \<Rightarrow> shared_ok) (case abr of Some r \<Rightarrow> r | None \<Rightarrow> shared_nullbulk) x"
  shows "sim c (setGenericCommand s c fl k v expire un okr abr) (fst spec) (y @ says x c (snd spec))"
proof -
  define d where "d = cdb x c"
  have o: "dbs_ok x" "d < length (dbs x)" using ok by (simp_all add: ready_def d_def)
  define present where "present = has_key (expire_key d k x) d k"
  define ab where "ab = (OBJ_SET_NX \<in> fl \<and> present \<or> OBJ_SET_XX \<in> fl \<and> \<not> present)"
  obtain s1 where 1: "setGenericCommand_abort s c fl k = Some (ab, s1)"
    and r1: "rel c s1 (expire_key d k x) y \<or> fl \<inter> {OBJ_SET_NX, OBJ_SET_XX} = {} \<and> rel c s1 x y"
    using rel_abort [OF r ok, of fl k] unfolding ab_def present_def d_def by blast
  show ?thesis
  proof (cases ab)
    case True
    then have r1: "rel c s1 (expire_key d k x) y" using r1 by (auto simp: ab_def)
    have "spec = (expire_key d k x, case abr of Some r \<Rightarrow> r | None \<Rightarrow> shared_nullbulk)"
      unfolding spec_def set_spec_def Let_def d_def [symmetric] present_def [symmetric] ab_def [symmetric]
      using True by simp
    then show ?thesis using True rel_reply [OF r1] by (simp add: setGenericCommand_def ms 1 sim_Some)
  next
    case False
    define x1 where "x1 = (if rel c s1 x y then x else expire_key d k x)"
    have x1: "rel c s1 x1 y" "dbs_ok x1" "d < length (dbs x1)" "cdb x1 c = d"
      using r1 o by (auto simp: x1_def d_def)
    have st: "store_key d k p x1 = store_key d k p x" using store_key_expire o by (auto simp: x1_def)
    let ?x2 = "store_key d k p x"
    let ?x3 = "?x2\<lparr>dirty := dirty ?x2 + 1\<rparr>"
    let ?x4 = "if expire \<noteq> None then set_expire (Some c) d k (mstime x + t) ?x3 else ?x3"
    have spec: "spec = (?x4, case okr of Some r \<Rightarrow> r | None \<Rightarrow> shared_ok)"
      unfolding spec_def set_spec_def Let_def d_def [symmetric] present_def [symmetric] ab_def [symmetric]
      using False by (simp add: store_key_db [OF o(2)])
    have d: "cdb s c = d" using rel_client(2) [OF r] by (simp add: d_def)
    have h: "has_key ?x3 d k" using o by (simp add: has_key_def store_key_db)
    have e: "mstime s' = mstime x" if "rel c s' ?x3 y" for s'
      using rel_client(4) [OF that] o by (simp add: store_key_db)
    show ?thesis unfolding spec fst_conv snd_conv setGenericCommand_def Let_def d ms bind.bind_lunit prod.case option.case 1
      if_not_P [OF False]
    proof (rule sim_setKey [OF x1(1-3)], unfold v st, drule rel_dirty [where n = 1])
      fix s2
      assume r3: "rel c (s2\<lparr>dirty := dirty s2 + 1\<rparr>) ?x3 y"
      show "sim c ((if expire \<noteq> None
          then setExpire (s2\<lparr>dirty := dirty s2 + 1\<rparr>) (Some c) d k (mstime (s2\<lparr>dirty := dirty s2 + 1\<rparr>) + t)
          else Some (s2\<lparr>dirty := dirty s2 + 1\<rparr>)) \<bind>
         (\<lambda>s. notifyKeyspaceEvent s NOTIFY_STRING ''set'' k d \<bind>
           (\<lambda>s. (if expire \<noteq> None then notifyKeyspaceEvent s NOTIFY_GENERIC ''expire'' k d else Some s) \<bind>
             (\<lambda>s. Some (addReply s c (case okr of None \<Rightarrow> shared_ok | Some r \<Rightarrow> r)))))) ?x4
         (y @ says x c (case okr of None \<Rightarrow> shared_ok | Some r \<Rightarrow> r))"
      proof (rule sim_bind [where x = ?x4 and y = y], goal_cases)
        case 1
        then show ?case using rel_setExpire [OF r3 _ h, of "Some c" "mstime x + t"] r3 e [OF r3] o by (simp add: store_key_db)
      next
        case (2 s4)
        show ?case
        proof (rule sim_notify [OF 2], goal_cases)
          case (1 s5)
          show ?case
          proof (rule sim_bind [where x = ?x4 and y = y], goal_cases)
            case 1
            then show ?case using rel_notify [OF \<open>rel c s5 ?x4 y\<close>, of NOTIFY_GENERIC "''expire''" k d] \<open>rel c s5 ?x4 y\<close>
              by (cases expire) auto
          next
            case (2 s6)
            then show ?case using rel_reply [OF 2] by (auto simp: sim_def)
          qed
        qed
      qed
    qed
  qed
qed

lemma setGeneric_ms:
  "string2ll e = Some ms \<Longrightarrow> sint ms > 0 \<Longrightarrow>
   setGenericCommand_ms s c (Some e) un = Some (Some (if un = UNIT_SECONDS then ms * 1000 else ms), s)"
  "setGenericCommand_ms s c None un = Some (Some 0, s)"
  by (simp_all add: setGenericCommand_ms_def getLongLongFromObjectOrReply_def getLongLong_arg)

lemma sim_set:
  assumes r: "rel c s x y" and ok: "ready c x"
    and o: "setCommand_opts {} UNIT_SECONDS None (drop 3 (argv x c)) = Some (fl, un, expire)"
    and ms: "setGenericCommand_ms s c expire un = Some (Some t, s)"
  shows "sim c (setCommand s c)
    (fst (set_spec c fl (argv x c ! 1) (enc (argv x c ! 2)) (if expire \<noteq> None then Some t else None) shared_ok shared_nullbulk x))
    (y @ says x c (snd (set_spec c fl (argv x c ! 1) (enc (argv x c ! 2)) (if expire \<noteq> None then Some t else None)
      shared_ok shared_nullbulk x)))"
proof -
  obtain v where v: "encArg s (argv x c ! 2) = Some v" "ptr v = enc (argv x c ! 2)" using encArg_enc by blast
  show ?thesis
    using sim_setGeneric [OF r ok v(2) ms, of fl "argv x c ! 1" None None] o v(1) rel_client [OF r]
    by (simp add: setCommand_def)
qed

text \<open>The next command of a client, at a later time.\<close>

definition next_cmd :: "nat \<Rightarrow> bytes list \<Rightarrow> i64 \<Rightarrow> redisServer \<Rightarrow> redisServer" where
  "next_cmd c av t s = (upd_cl c (\<lambda>cl. cl\<lparr>c_argv := av\<rparr>) s)\<lparr>mstime := t\<rparr>"

lemma next_cmd_sel [simp]:
  "dbs (next_cmd c av t s) = dbs s" "masterhost (next_cmd c av t s) = masterhost s" "loading (next_cmd c av t s) = loading s"
  "lua_caller (next_cmd c av t s) = lua_caller s" "mstime (next_cmd c av t s) = t"
  "clients (next_cmd c av t s) e = (if e = c then (clients s c)\<lparr>c_argv := av\<rparr> else clients s e)"
  "bystander (next_cmd c av t s) = bystander s"
  by (simp_all add: next_cmd_def upd_cl_def fun_eq_iff bystander_def pubsub_clients_def)

lemma says_next_cmd [simp]: "says (next_cmd c av t x) e = says x e"
  by (auto simp: says_def takes_output_def fun_eq_iff)

lemma lifts_next_cmd: "lifts n (next_cmd c av t)"
proof -
  have "core ((upd_cl c (\<lambda>cl. cl\<lparr>c_argv := av\<rparr>) s)\<lparr>mstime := t\<rparr>) = (core (upd_cl c (\<lambda>cl. cl\<lparr>c_argv := av\<rparr>) s))\<lparr>mstime := t\<rparr>" for s
    by (simp add: core_def erase_def quiet_def)
  also have "\<dots> s = (upd_cl c (\<lambda>cl. cl\<lparr>c_argv := av\<rparr>) (core s))\<lparr>mstime := t\<rparr>" for s
    by (subst core_upd_cl [where g = "\<lambda>cl. cl\<lparr>c_argv := av\<rparr>"]) (simp_all add: quiet_client_def)
  finally show ?thesis
    by (auto simp: lifts_def next_cmd_def upd_cl_def prop_ok_def backlog_holds_def bystander_def pubsub_clients_def
        out_def split: option.split)
qed

lemma sim_get:
  assumes r: "rel c s x y" and ok: "ready c x"
  shows "sim c (getCommand s c) (expire_key (cdb x c) (argv x c ! 1) x)
    (y @ says x c (get_reply (read_key x (cdb x c) (argv x c ! 1))))"
  using rel_getGeneric [OF assms] by (auto simp: getCommand_def sim_def)

lemma set_PX_opts: "setCommand_opts {} UNIT_SECONDS None [lit ''PX'', e] = Some ({OBJ_SET_PX}, UNIT_MILLISECONDS, Some e)"
  by (simp add: is_opt_def lit_def lower_def)

subsection \<open>Counters\<close>

text \<open>The outcome of an increment: a type error, a value that is no integer, an overflow, or the sum.\<close>

definition overflows :: "i64 \<Rightarrow> i64 \<Rightarrow> bool" where
  "overflows v n \<longleftrightarrow> \<not> (- (2 ^ 63) \<le> sint v + sint n \<and> sint v + sint n < 2 ^ 63)"

definition incr_outcome :: "optr option \<Rightarrow> i64 \<Rightarrow> bytes + i64" where
  "incr_outcome w n =
     (case (case w of None \<Rightarrow> Some (decimal 0) | Some p \<Rightarrow> sval p) of
        None \<Rightarrow> Inl shared_wrongtypeerr
      | Some b \<Rightarrow>
          (case string2ll b of
             None \<Rightarrow> Inl (err_line (lit ''value is not an integer or out of range''))
           | Some v \<Rightarrow>
               if overflows v n then Inl (err_line (lit ''increment or decrement would overflow'')) else Inr (v + n)))"

definition write_back :: "nat \<Rightarrow> bytes \<Rightarrow> optr \<Rightarrow> redisServer \<Rightarrow> redisServer" where
  "write_back d k p x =
     (let x = signalModifiedKey (if has_key x d k then put_key d k p x else add_key d k p x) d k in
      x\<lparr>dirty := dirty x + 1\<rparr>)"

definition incr_spec :: "nat \<Rightarrow> bytes \<Rightarrow> i64 \<Rightarrow> redisServer \<Rightarrow> redisServer \<times> bytes" where
  "incr_spec c k n x =
     (let d = cdb x c; x' = expire_key d k x in
      case incr_outcome (write_key x d k) n of
        Inl e \<Rightarrow> (x', e)
      | Inr v \<Rightarrow> (write_back d k (Str_INT v) x', item '':'' v))"

lemma incr_guard:
  "(sint n < 0 \<and> sint v < 0 \<and> sint n < sint (LLONG_MIN - v)) \<or> (sint n > 0 \<and> sint v > 0 \<and> sint n > sint (LLONG_MAX - v))
   \<longleftrightarrow> overflows v n"
proof -
  have b: "- (2 ^ 63) \<le> sint v" "sint v < 2 ^ 63" "- (2 ^ 63) \<le> sint n" "sint n < 2 ^ 63"
    using sint_ge [of v] sint_lt [of v] sint_ge [of n] sint_lt [of n] by simp_all
  have 1: "sint (LLONG_MIN - v) = - (2 ^ 63) - sint v" if "sint v < 0"
    using b that by (subst sint_sub_64) (auto simp: LLONG_MIN_def)
  have 2: "sint (LLONG_MAX - v) = 2 ^ 63 - 1 - sint v" if "sint v > 0"
    using b that by (subst sint_sub_64) (auto simp: LLONG_MAX_def)
  show ?thesis using b 1 2 by (cases "sint v < 0"; cases "sint v > 0") (auto simp: overflows_def)
qed

lemma checkType_string: "checkType s c ob OBJ_STRING = (sval (ptr ob) = None, if sval (ptr ob) = None then addReply s c shared_wrongtypeerr else s)"
  using otype_sval [of ob] by (simp add: checkType_def)

lemma string2ll_decimal [simp]: "string2ll (decimal v) = Some v"
  by (simp add: string2ll_iff)

lemma getLongLong_sval: "sval (ptr ob) = Some b \<Longrightarrow> getLongLongFromObject (Some ob) = Some (string2ll b)"
  by (cases "ptr ob") (auto simp: getLongLongFromObject_def sval_def str_of_def)

lemma rel_error: "rel c s x y \<Longrightarrow> rel c (addReplyError s c str) x (y @ says x c (err_line (lit str)))"
  by (simp add: addReplyError_def rel_reply_error)

lemma sim_incr_finish:
  assumes "rel c s x y" "ptr new = Str_INT v"
  shows "sim c (notifyKeyspaceEvent s ty ev k d \<bind> (\<lambda>s. addReplyObj (addReply (s\<lparr>dirty := dirty s + 1\<rparr>) c (lit '':'')) c new \<bind>
      (\<lambda>s. Some (addReply s c crlf)))) (x\<lparr>dirty := dirty x + 1\<rparr>) (y @ says x c (item '':'' v))"
proof (rule sim_notify [OF assms(1)], drule rel_dirty [where n = 1])
  fix s1
  assume "rel c (s1\<lparr>dirty := dirty s1 + 1\<rparr>) (x\<lparr>dirty := dirty x + 1\<rparr>) y"
  from rel_reply [OF rel_reply [OF rel_reply [OF this, of "lit '':''"], of "decimal v"], of crlf]
  show "sim c (addReplyObj (addReply (s1\<lparr>dirty := dirty s1 + 1\<rparr>) c (lit '':'')) c new \<bind> (\<lambda>s. Some (addReply s c crlf)))
    (x\<lparr>dirty := dirty x + 1\<rparr>) (y @ says x c (item '':'' v))"
    by (simp add: addReplyObj_eq str_of_sval assms(2) addReply_def sim_def item_def says_append)
qed

lemma rel_write_back:
  assumes r: "rel c s x y" and d: "d < length (dbs x)" and ob: "(ob \<noteq> None) = has_key x d k" and p: "P \<longrightarrow> ob \<noteq> None"
    "ptr new = q"
  shows "\<exists>s'. (if P then Some (upd_db d (\<lambda>db. db\<lparr>d_dict := (d_dict db)(k \<mapsto> new)\<rparr>) s)
      else if ob \<noteq> None then dbOverwrite s d k new else dbAdd s d k new) = Some s' \<and>
    rel c s' (if has_key x d k then put_key d k q x else add_key d k q x) y"
  using rel_dbAdd [OF r d, of k new] rel_dbOverwrite [OF r d, of k new] rel_put_obj [OF r p(2), of d k] ob p
  by (cases P) (auto simp del: not_None_eq)

lemma sim_incrDecr:
  fixes n :: i64
  assumes r: "rel c s x y" and ok: "ready c x"
  defines "spec \<equiv> incr_spec c (argv x c ! 1) n x"
  shows "sim c (incrDecrCommand s c n) (fst spec) (y @ says x c (snd spec))"
proof -
  define d k where "d = cdb x c" and "k = argv x c ! 1"
  have o: "dbs_ok x" "d < length (dbs x)" using ok by (simp_all add: ready_def d_def)
  note cl = rel_client [OF r]
  let ?x = "expire_key d k x"
  have d1: "d < length (dbs ?x)" using o by simp
  show ?thesis unfolding incrDecrCommand_def Let_def cl d_def [symmetric] k_def [symmetric]
  proof (rule sim_lookupKeyWrite [OF r o], goal_cases)
    case (1 ob s1)
    have hk: "has_key ?x d k \<longleftrightarrow> ob \<noteq> None" using rel_has_key [OF 1(3) d1, of k] 1(2) by (simp add: has_key_def)
    have sp: "spec = (case incr_outcome (map_option ptr ob) n of Inl e \<Rightarrow> (?x, e)
        | Inr v \<Rightarrow> (write_back d k (Str_INT v) ?x, item '':'' v))"
      by (simp only: spec_def incr_spec_def Let_def d_def k_def 1(1))
    define w where "w = (case ob of None \<Rightarrow> Some (decimal 0) | Some ob \<Rightarrow> sval (ptr ob))"
    have out: "incr_outcome (map_option ptr ob) n = (case w of None \<Rightarrow> Inl shared_wrongtypeerr | Some b \<Rightarrow>
        (case string2ll b of None \<Rightarrow> Inl (err_line (lit ''value is not an integer or out of range'')) | Some v \<Rightarrow>
           if overflows v n then Inl (err_line (lit ''increment or decrement would overflow'')) else Inr (v + n)))"
      by (cases ob) (simp_all add: incr_outcome_def w_def)
    show ?case
    proof (cases w)
      case None
      then obtain b where "ob = Some b" "sval (ptr b) = None" by (cases ob) (auto simp: w_def)
      then show ?thesis using None rel_reply [OF 1(3), of shared_wrongtypeerr]
        by (simp add: sp incr_outcome_def checkType_string addReply_def sim_def)
    next
      case (Some b)
      have ck: "(case ob of None \<Rightarrow> (False, s1) | Some ob \<Rightarrow> checkType s1 c ob OBJ_STRING) = (False, s1)"
        using Some by (auto simp: w_def checkType_string split: option.split)
      have num: "getLongLongFromObject ob = Some (string2ll b)"
        using Some by (cases ob) (auto simp: w_def getLongLong_sval, simp add: getLongLongFromObject_def)
      show ?thesis
      proof (cases "string2ll b")
        case None
        then show ?thesis using Some rel_error [OF 1(3)]
          by (simp add: sp out ck num getLongLongFromObjectOrReply_def sim_def)
      next
        case v: (Some v)
        show ?thesis
        proof (cases "overflows v n")
          case True
          then show ?thesis using Some v rel_error [OF 1(3)]
            by (simp add: sp out ck num getLongLongFromObjectOrReply_def sim_def incr_guard)
        next
          case False
          define inplace where "inplace = (case ob of None \<Rightarrow> None | Some ob \<Rightarrow>
             (case ptr ob of
                Str_INT old \<Rightarrow>
                  if \<not> (0 \<le> sint old \<and> sint old < OBJ_SHARED_INTEGERS) \<and>
                     (sint (v + n) < 0 \<or> sint (v + n) \<ge> OBJ_SHARED_INTEGERS)
                  then Some (ob\<lparr>ptr := Str_INT (v + n)\<rparr>) else None
              | _ \<Rightarrow> None))"
          define new where "new = (case inplace of Some ob \<Rightarrow> ob | None \<Rightarrow> createStringObjectFromLongLongForValue s1 (v + n))"
          have new: "ptr new = Str_INT (v + n)" "inplace \<noteq> None \<longrightarrow> ob \<noteq> None"
            by (auto simp: new_def inplace_def split: option.splits optr.splits if_splits)
          have ng: "\<not> ((sint n < 0 \<and> sint v < 0 \<and> sint n < sint (LLONG_MIN - v)) \<or>
              (sint n > 0 \<and> sint v > 0 \<and> sint n > sint (LLONG_MAX - v)))" using False incr_guard by blast
          have e: "getLongLongFromObjectOrReply s1 c ob None = Some (Some v, s1)"
            using v by (simp add: num getLongLongFromObjectOrReply_def)
          have sp: "spec = (write_back d k (Str_INT (v + n)) ?x, item '':'' (v + n))" using Some v False by (simp add: sp out)
          show ?thesis unfolding prod.case ck if_False e bind.bind_lunit option.case if_not_P [OF ng] inplace_def [symmetric]
              new_def [symmetric] sp fst_conv snd_conv write_back_def Let_def
          proof (rule sim_bind [OF rel_write_back [OF 1(3) d1 hk [symmetric] new(2,1)]], goal_cases)
            case (1 s2)
            show ?case using sim_incr_finish [OF rel_signal [OF 1, of d k] new(1), of NOTIFY_STRING "''incrby''" k d] d1
              by (cases "has_key ?x d k") simp_all
          qed
        qed
      qed
    qed
  qed
qed

text \<open>A master that has just started, with two databases and a client that sent \<open>av\<close>.\<close>

definition fresh_cmds :: "bytes \<rightharpoonup> redisCommand" where
  "fresh_cmds = [lit ''del'' \<mapsto> \<lparr>cm_name = lit ''del'', proc = ''delCommand'', arity = - 2, cm_flags = {CMD_WRITE},
       getkeys_proc = None, firstkey = 1, lastkey = - 1, keystep = 1\<rparr>,
     lit ''multi'' \<mapsto> \<lparr>cm_name = lit ''multi'', proc = ''multiCommand'', arity = 1, cm_flags = {CMD_NOSCRIPT, CMD_FAST},
       getkeys_proc = None, firstkey = 0, lastkey = 0, keystep = 0\<rparr>]"

definition fresh :: "bytes list \<Rightarrow> redisServer" where
  "fresh av = init_server 2 (\<lambda>_. plain_client\<lparr>c_argv := av\<rparr>) [0] (\<lambda>_. []) fresh_cmds 1"

lemma fresh_sel [simp]:
  "prop_ok (fresh av)" "ready c (fresh av)" "bystander (fresh av) c" "takes_output (clients (fresh av) c)"
  "masterhost (fresh av) = None" "\<not> loading (fresh av)" "lua_caller (fresh av) = None" "argv (fresh av) c = av"
  "mstime (fresh av) = 1000" "out (clients (fresh av) c) = []" "cdb (fresh av) c = 0"
  "dbs (fresh av) = [empty_db, empty_db]"
  by (simp_all add: fresh_def init_server_def prop_ok_def fresh_cmds_def lit_def ready_def dbs_ok_def bystander_def
      pubsub_clients_def plain_client_def takes_output_def out_def empty_db_def numeral_2_eq_2 less_Suc_eq)

text \<open>The same with a key in the first database.\<close>

definition fresh_with :: "bytes list \<Rightarrow> bytes \<Rightarrow> optr \<Rightarrow> redisServer" where
  "fresh_with av k p = put_key 0 k p (fresh av)"

lemma fresh_with_sel [simp]:
  "prop_ok (fresh_with av k p)" "ready c (fresh_with av k p)" "bystander (fresh_with av k p) c"
  "clients (fresh_with av k p) = clients (fresh av)" "masterhost (fresh_with av k p) = None" "\<not> loading (fresh_with av k p)"
  "length (dbs (fresh_with av k p)) = 2" "\<not> expired (fresh_with av k p) 0 j"
  "d_dict (db_of (fresh_with av k p) 0) = [k \<mapsto> \<lparr>ptr = p, lru = 0\<rparr>]"
proof -
  have [simp]: "d_expires (db_of (fresh_with av k p) e) = Map.empty" if "e < 2" for e
    using that by (auto simp: fresh_with_def empty_db_def less_Suc_eq numeral_2_eq_2)
  show l: "length (dbs (fresh_with av k p)) = 2" and "clients (fresh_with av k p) = clients (fresh av)"
    and "masterhost (fresh_with av k p) = None" "\<not> loading (fresh_with av k p)" "bystander (fresh_with av k p) c"
    by (simp_all add: fresh_with_def)
  show "prop_ok (fresh_with av k p)" by (simp add: fresh_with_def put_key_def)
  show "ready c (fresh_with av k p)" by (simp add: ready_def dbs_ok_def l, simp add: fresh_with_def)
  show "\<not> expired (fresh_with av k p) 0 j" by (simp add: expired_def)
  show "d_dict (db_of (fresh_with av k p) 0) = [k \<mapsto> \<lparr>ptr = p, lru = 0\<rparr>]" by (simp add: fresh_with_def empty_db_def)
qed

section \<open>Properties\<close>

text \<open>C6: a value stored with an expire is what a read of the key gives until the expire, and no longer.
  For a client of a master that sends \<open>SET key value PX milliseconds\<close> and later \<open>GET key\<close>, at any time, the
  server runs both commands without failing and queues \<open>+OK\<close> and then the value, byte for byte, as
  long as the clock has not passed the sum of the time of the \<open>SET\<close> and the milliseconds, and the
  null reply afterwards.\<close>

theorem set_px_get:
  assumes s: "prop_ok s" "ready c s" "bystander s c" "takes_output (clients s c)"
    and m: "masterhost s = None" "\<not> loading s" "lua_caller s = None"
    and a: "argv s c = [a0, k, v, lit ''PX'', decimal ms]"
    and t: "0 < sint ms" "0 \<le> sint (mstime s)" "sint (mstime s) + sint ms < 2 ^ 63"
  shows "\<exists>s1 s2. setCommand s c = Some s1 \<and> getCommand (next_cmd c [g, k] t1 s1) c = Some s2 \<and>
    out (clients s2 c) = out (clients s c) @ shared_ok @
      (if sint t1 \<le> sint (mstime s) + sint ms then bulk v else shared_nullbulk)"
proof -
  let ?x = "core s" and ?y = "out (clients s c)" and ?d = "cdb s c"
  have rx: "ready c ?x" and d: "?d < length (dbs ?x)" using s(2) by (simp_all add: ready_def)
  have ll: "string2ll (decimal ms) = Some ms" by (simp add: string2ll_iff)
  define x1 where "x1 = fst (set_spec c {OBJ_SET_PX} k (enc v) (Some ms) shared_ok shared_nullbulk ?x)"
  have x1: "x1 = set_expire (Some c) ?d k (mstime s + ms) ((store_key ?d k (enc v) ?x)\<lparr>dirty := dirty ?x + 1\<rparr>)"
    using d by (simp add: x1_def set_spec_def Let_def store_key_db)
  have "sim c (setCommand s c) x1 (?y @ says ?x c shared_ok)"
    using sim_set [OF relI [OF s(1)] rx, of "{OBJ_SET_PX}" UNIT_MILLISECONDS "Some (decimal ms)" ms]
      setGeneric_ms(1) [OF ll t(1), of s c UNIT_MILLISECONDS] a set_PX_opts [of "decimal ms"]
    by (simp add: x1_def set_spec_def Let_def)
  then obtain s1 where 1: "setCommand s c = Some s1" "rel c s1 x1 (?y @ says ?x c shared_ok)" by (auto simp: sim_def)
  let ?x2 = "next_cmd c [g, k] t1 x1"
  have r2: "rel c (next_cmd c [g, k] t1 s1) ?x2 (?y @ says ?x c shared_ok)"
    using rel_lifts [OF lifts_next_cmd 1(2)] .
  have e: "d_expires (db_of x1 ?d) k = Some (mstime s + ms)" "d_dict (db_of x1 ?d) k = Some \<lparr>ptr = enc v, lru = 0\<rparr>"
    "length (dbs x1) = length (dbs s)" "masterhost x1 = None" "loading x1 = loading s" "lua_caller x1 = None" "cdb x1 c = ?d"
    "says x1 c = says ?x c"
    using d m by (simp_all add: x1 set_expire_def Let_def store_key_db store_key_clients)
  have "dbs_ok x1"
    using s(2) d unfolding x1
    by (intro dbs_ok_set_expire) (simp_all add: store_key_ok store_key_db has_key_def ready_def)
  then have rx2: "ready c ?x2" using d e by (simp add: ready_def dbs_ok_def)
  obtain s2 where 2: "getCommand (next_cmd c [g, k] t1 s1) c = Some s2"
    "rel c s2 (expire_key ?d k ?x2) (?y @ says ?x c shared_ok @ says ?x2 c (get_reply (read_key ?x2 ?d k)))"
    using sim_get [OF r2 rx2] e(7) by (auto simp: sim_def)
  have "sint (mstime s + ms) = sint (mstime s) + sint ms" using t by (simp add: sint_add_64)
  then have "read_key ?x2 ?d k = (if sint t1 \<le> sint (mstime s) + sint ms then Some (enc v) else None)"
    using e m t by (auto simp: read_key_def expired_def now_def hides_expired_def)
  moreover have "bystander s2 c" using rel_bystander [OF 2(2), of c] s(3) by (simp add: x1)
  ultimately show ?thesis using 1(1) 2 s(4) e(8) by (auto simp: rel_def says_def get_reply_def)
qed

theorem set_px_get_witness:
  "\<exists>s1 s2. setCommand (fresh [lit ''set'', lit ''k'', lit ''v'', lit ''PX'', decimal 5]) 0 = Some s1 \<and>
     getCommand (next_cmd 0 [lit ''get'', lit ''k''] 1005 s1) 0 = Some s2 \<and> out (clients s2 0) = shared_ok @ bulk (lit ''v'')"
  using set_px_get [of "fresh [lit ''set'', lit ''k'', lit ''v'', lit ''PX'', decimal 5]" 0 "lit ''set''" "lit ''k''" "lit ''v''" 5
      "lit ''get''" 1005] by simp

text \<open>C7: counters are exact.  When a key that is not past its time holds the decimal notation of a 64 bit
  integer \<open>v\<close>, in whatever encoding, \<open>INCRBY key n\<close> either replies with the mathematical sum of \<open>v\<close> and \<open>n\<close> and
  stores it, keeping the expire of the key and every other key, or, when the sum is no 64 bit integer, replies
  the overflow error and changes neither keys nor expires.\<close>

theorem incrby_exact:
  assumes s: "prop_ok s" "ready c s" "bystander s c" "takes_output (clients s c)"
    and a: "argv s c = [a0, k, decimal n]"
    and v: "\<not> expired s (cdb s c) k" "d_dict (db_of s (cdb s c)) k = Some ob" "str_of ob = Some (decimal v)"
  shows "\<exists>s'. incrbyCommand s c = Some s' \<and>
    (let d = cdb s c; fits = (- (2 ^ 63) \<le> sint v + sint n \<and> sint v + sint n < 2 ^ 63) in
     out (clients s' c) = out (clients s c) @
       (if fits then item '':'' (v + n) else err_line (lit ''increment or decrement would overflow'')) \<and>
     (fits \<longrightarrow> sint (v + n) = sint v + sint n) \<and>
     (\<forall>e < length (dbs s). d_expires (db_of s' e) = d_expires (db_of s e) \<and>
       (\<forall>j. map_option ptr (d_dict (db_of s' e) j) =
          (if e = d \<and> j = k \<and> fits then Some (Str_INT (v + n)) else map_option ptr (d_dict (db_of s e) j)))))"
proof -
  let ?d = "cdb s c" and ?x = "core s"
  define fits where "fits = (- (2 ^ 63) \<le> sint v + sint n \<and> sint v + sint n < 2 ^ 63)"
  have d: "?d < length (dbs s)" using s(2) by (simp add: ready_def)
  have rx: "ready c ?x" using s(2) by (simp add: ready_def)
  have ex: "expire_key ?d k ?x = ?x" and w: "write_key ?x ?d k = Some (ptr ob)"
    using v(1,2) d by (simp_all add: expire_key_def write_key_def)
  have o: "incr_outcome (Some (ptr ob)) n =
      (if fits then Inr (v + n) else Inl (err_line (lit ''increment or decrement would overflow'')))"
    using v(3) by (simp add: incr_outcome_def str_of_sval overflows_def fits_def)
  have h: "has_key ?x ?d k" using v(2) d by (simp add: has_key_def)
  define x' where "x' = (if fits then write_back ?d k (Str_INT (v + n)) ?x else ?x)"
  have sp: "incr_spec c k n ?x = (x', if fits then item '':'' (v + n) else err_line (lit ''increment or decrement would overflow''))"
    using ex w o by (simp add: incr_spec_def Let_def x'_def)
  have e: "getLongLongFromObjectOrReply s c (Some (createStringObject s (decimal n))) None = Some (Some n, s)"
    by (simp add: getLongLongFromObjectOrReply_def getLongLong_arg)
  obtain s' where 1: "incrbyCommand s c = Some s'" "rel c s' x' (out (clients s c) @ says ?x c
      (if fits then item '':'' (v + n) else err_line (lit ''increment or decrement would overflow'')))"
    using sim_incrDecr [OF relI [OF s(1)] rx, of n] a sp e by (auto simp: incrbyCommand_def sim_def)
  have x': "core s' = x'" using 1(2) by (simp add: rel_def)
  have l: "length (dbs s') = length (dbs s)"
    using arg_cong [OF x', of "\<lambda>x. length (dbs x)"] h by (simp add: x'_def write_back_def Let_def split: if_splits)
  have "bystander s' c" using rel_bystander [OF 1(2), of c] s(3) h by (auto simp: x'_def write_back_def Let_def)
  then have "out (clients s' c) = out (clients s c) @
      (if fits then item '':'' (v + n) else err_line (lit ''increment or decrement would overflow''))"
    using 1(2) s(4) by (simp add: rel_def says_def)
  moreover have "d_expires (db_of s' e) = d_expires (db_of s e) \<and>
       (\<forall>j. map_option ptr (d_dict (db_of s' e) j) =
          (if e = ?d \<and> j = k \<and> fits then Some (Str_INT (v + n)) else map_option ptr (d_dict (db_of s e) j)))"
    if "e < length (dbs s)" for e
  proof -
    have "core_db (db_of s' e) = db_of x' e" using that l x' by auto
    also have "\<dots> = (if e = ?d \<and> fits then (core_db (db_of s e))\<lparr>d_dict := (d_dict (core_db (db_of s e)))(k \<mapsto> \<lparr>ptr = Str_INT (v + n), lru = 0\<rparr>)\<rparr>
        else core_db (db_of s e))"
      using h d that by (simp add: x'_def write_back_def Let_def)
    finally have f: "core_db (db_of s' e) = \<dots>" .
    show ?thesis using arg_cong [OF f, of d_expires] arg_cong [OF f, of "\<lambda>db. map_option ptr (d_dict db j)" for j]
      by (auto simp: option.map_comp o_def split: if_splits)
  qed
  ultimately show ?thesis using 1(1) unfolding Let_def fits_def [symmetric] by (auto simp: fits_def sint_add_64)
qed

theorem incrby_exact_witness:
  "\<exists>s'. incrbyCommand (fresh_with [lit ''incrby'', lit ''k'', decimal 1] (lit ''k'') (Str_INT 41)) 0 = Some s' \<and>
    out (clients s' 0) = item '':'' 42 \<and> map_option ptr (d_dict (db_of s' 0) (lit ''k'')) = Some (Str_INT 42)"
proof -
  let ?s = "fresh_with [lit ''incrby'', lit ''k'', decimal 1] (lit ''k'') (Str_INT 41)"
  have "str_of \<lparr>ptr = Str_INT 41, lru = 0\<rparr> = Some (decimal 41)" by (simp add: str_of_def)
  from incrby_exact [of ?s 0 "lit ''incrby''" "lit ''k''" 1 _ 41, OF _ _ _ _ _ _ _ this]
  obtain s' where 1: "incrbyCommand ?s 0 = Some s'" "out (clients s' 0) = item '':'' 42"
    and 2: "\<forall>e < 2. d_expires (db_of s' e) = d_expires (db_of ?s e) \<and>
       (\<forall>j. map_option ptr (d_dict (db_of s' e) j) =
          (if e = 0 \<and> j = lit ''k'' then Some (Str_INT 42) else map_option ptr (d_dict (db_of ?s e) j)))"
    by (auto simp: Let_def)
  from 2 [rule_format, of 0] have "map_option ptr (d_dict (db_of s' 0) (lit ''k'')) = Some (Str_INT 42)" by simp
  then show ?thesis using 1 by blast
qed





end
