(* ===== verification/TStringSafe.thy ===== *)
theory TStringSafe
  imports TString
begin

text \<open>No command on strings fails, apart from \<open>SETRANGE\<close>: from every state that satisfies the invariants it
  returns, in a state that satisfies them too.\<close>

lemma wp_getLongLong [run_rules]:
  assumes "during c s0 P s" "\<And>v s'. during c s0 P s' \<Longrightarrow> wp (f (v, s')) Q"
  shows "wp (getLongLongFromObjectOrReply s e (Some (createStringObject t b)) msg \<bind> f) Q"
  using assms by (auto simp: getLongLongFromObjectOrReply_def getLongLong_arg split: option.split)

lemma wp_encArg [wp_rules]: "(\<And>v. ptr v = enc b \<Longrightarrow> wp (f v) Q) \<Longrightarrow> wp (encArg s b \<bind> f) Q"
  using encArg_enc [of s b] by auto

lemma wp_setGeneric:
  assumes "during c s0 {} s"
  shows "wp (setGenericCommand s c fl k v e un okr abr) (during c s0 {})"
proof -
  obtain cmd where "c_cmd (clients s0 c) = Some cmd" using during_cmd [OF assms] by blast
  then show ?thesis
    unfolding setGenericCommand_def Let_def setGenericCommand_ms_def setGenericCommand_abort_def
    using assms duringD(3) [OF assms]
    by (auto simp: run_simps duringD(3-11) [of c s0] intro!: wp_rules run_rules [of c s0 "{}"] wp_setExpire_touched [of c s0 "{}"])
qed

lemma wp_set_family:
  assumes "during c s0 {} s"
  shows "wp (setCommand s c) (during c s0 {})" "wp (setnxCommand s c) (during c s0 {})"
    "wp (setexCommand s c) (during c s0 {})" "wp (psetexCommand s c) (during c s0 {})"
  unfolding setCommand_def setnxCommand_def setexCommand_def psetexCommand_def
  using assms by (auto intro!: wp_rules wp_setGeneric)

lemma wp_getGeneric:
  assumes "during c s0 P s" "\<And>ok s'. during c s0 P s' \<Longrightarrow> wp (f (ok, s')) Q"
  shows "wp (getGenericCommand s c \<bind> f) Q"
  unfolding getGenericCommand_def lookupKeyReadOrReply_def
  using assms duringD(3) [OF assms(1)]
  by (auto simp: run_simps duringD(3-11) [of c s0] addReplyBulkObj_eq str_of_sval otype_sval intro!: wp_rules run_rules [of c s0 P])

lemma sdigits10_length: "unat (sdigits10 v) = length (decimal v)"
proof -
  have "sdigits10 v = (if sint v < 0 then digits10 (- v) + 1 else digits10 v)"
    using ll2string_abs [of v] by (auto simp: sdigits10_def split: if_splits)
  moreover have "unat (digits10 (- v) + 1) = unat (digits10 (- v)) + 1"
    using digits10_length [of "- v"] length_dec_u64 [of "- v"] by (simp add: unat_word_ariths)
  ultimately show ?thesis by (simp add: length_decimal digits10_length)
qed

lemma stringObjectLen_sval: "stringObjectLen ob = map_option length (sval (ptr ob))"
  by (cases "ptr ob") (simp_all add: stringObjectLen_def sval_def str_of_def sdigits10_length)

lemma ptr_bytes: "(case ptr ob of Str_RAW b \<Rightarrow> Some b | Str_EMBSTR b \<Rightarrow> Some b | Str_INT n \<Rightarrow> ll2str 32 n | _ \<Rightarrow> None) = sval (ptr ob)"
  by (cases "ptr ob") (simp_all add: sval_def str_of_def)

lemma wp_get_family:
  assumes "during c s0 {} s"
  shows "wp (getCommand s c) (during c s0 {})" "wp (getsetCommand s c) (during c s0 {})" "wp (strlenCommand s c) (during c s0 {})"
    "wp (mgetCommand s c) (during c s0 {})" "wp (getrangeCommand s c) (during c s0 {})"
  unfolding getCommand_def getsetCommand_def strlenCommand_def lookupKeyReadOrReply_def mgetCommand_def getrangeCommand_def
  using assms duringD(3) [OF assms]
  apply (auto simp: run_simps duringD(3-11) [of c s0] checkType_string stringObjectLen_sval ptr_bytes addReplyBulkObj_eq str_of_sval otype_sval
     intro!: wp_getGeneric [of c s0 "{}"] wp_rules run_rules [of c s0 "{}"])
  done

lemma frame_write_back:
  assumes "d < length (dbs x)"
  shows "frame {} x (write_back d k p x)"
proof -
  let ?x = "if has_key x d k then put_key d k p x else add_key d k p x"
  have d: "d < length (dbs ?x)" using assms by simp
  have "frame {(d, k)} x ?x" using frame_ops(3,4) [OF assms] by simp
  from frame_trans [OF this frame_ops(6) [OF d, of k]] have "frame {(d, k)} x (signalModifiedKey ?x d k)" by simp
  from frame_trans [OF frame_done [OF this touched_signal [OF d]] frame_dirty] show ?thesis by (simp add: write_back_def Let_def)
qed

lemma wp_incrDecr:
  assumes "during c s0 {} s"
  shows "wp (incrDecrCommand s c n) (during c s0 {})"
proof -
  have r: "rel c s (core s) (out (clients s c))" "ready c (core s)" using duringD [OF assms] by (auto simp: relI ready_def)
  have d: "cdb s c < length (dbs (core s))" using duringD [OF assms] by simp
  have "frame {} (core s) (fst (incr_spec c (argv s c ! 1) n (core s)))"
    using frame_ops(2) [OF d] frame_trans [OF frame_ops(2) [OF d] frame_write_back] d
    by (simp add: incr_spec_def Let_def split: sum.split)
  then show ?thesis using sim_incrDecr [OF r, of n] during_rel0 [OF assms] by (auto simp: sim_def wp_def)
qed

lemma wp_incr_family:
  assumes "during c s0 {} s"
  shows "wp (incrCommand s c) (during c s0 {})" "wp (decrCommand s c) (during c s0 {})" "wp (incrbyCommand s c) (during c s0 {})"
    "wp (decrbyCommand s c) (during c s0 {})"
  unfolding incrCommand_def decrCommand_def incrbyCommand_def decrbyCommand_def
  using assms by (auto intro!: wp_rules run_rules [of c s0 "{}"] wp_incrDecr)

lemma wp_mset_nx [run_rules]:
  assumes "during c s0 P s" "\<And>b s'. during c s0 P s' \<Longrightarrow> wp (f (b, s')) Q"
  shows "wp (msetGenericCommand_nx s c kvs \<bind> f) Q"
  using assms
proof (induction kvs arbitrary: s)
  case (Cons kv kvs)
  obtain k v where kv: "kv = (k, v)" by (cases kv)
  show ?case using Cons.prems Cons.IH duringD(3) [OF Cons.prems(1)] 
    by (auto simp: kv run_simps duringD(3-11) [of c s0] intro!: wp_rules run_rules [of c s0 P])
qed simp

lemma wp_mset_family:
  assumes "during c s0 {} s"
  shows "wp (msetCommand s c) (during c s0 {})" "wp (msetnxCommand s c) (during c s0 {})"
  unfolding msetCommand_def msetnxCommand_def msetGenericCommand_def Let_def
  using assms duringD(3) [OF assms] 
  by (auto simp: run_simps duringD(3-11) [of c s0] intro!: wp_rules run_rules [of c s0 "{}"])

lemma wp_unshare [run_rules]:
  assumes "during c s0 P s" "d < length (dbs s)" "d_dict (db_of s d) k = Some ob" "sval (ptr ob) \<noteq> None"
    and f: "\<And>ob' s' b. during c s0 (insert (d, k) P) s' \<Longrightarrow> sval (ptr ob) = Some b \<Longrightarrow> ptr ob' = Str_RAW b \<Longrightarrow> wp (f (ob', s')) Q"
  shows "wp (dbUnshareStringValue s d k ob \<bind> f) Q"
proof (cases "\<exists>b. ptr ob = Str_RAW b")
  case True
  then show ?thesis using assms during_insert [OF assms(1)] by (auto simp: dbUnshareStringValue_def)
next
  case False
  obtain b where b: "sval (ptr ob) = Some b" using assms(4) by blast
  let ?new = "createRawStringObject s b"
  have new: "ptr ?new = Str_RAW b" by (simp add: createRawStringObject_def createObject_def)
  have eq: "dbUnshareStringValue s d k ob = do { s \<leftarrow> dbOverwrite s d k ?new; ob \<leftarrow> d_dict (db_of s d) k; Some (ob, s) }"
    using False b
    by (cases "ptr ob") (auto simp: dbUnshareStringValue_def getDecodedObject_def ptr_createStringObject sval_def str_of_def)
  note r = relI [OF duringD(1) [OF assms(1)], of c]
  obtain s' where 1: "dbOverwrite s d k ?new = Some s'" "rel c s' (put_key d k (Str_RAW b) (core s)) (out (clients s c))"
    using rel_dbOverwrite [OF r, of d k ?new] assms(2,3) new by (auto simp: has_key_def)
  have dr: "during c s0 (insert (d, k) P) s'" using during_rel [OF assms(1) 1(2) frame_ops(3)] assms(2) by simp
  have l: "d < length (dbs (put_key d k (Str_RAW b) (core s)))" using assms(2) by simp
  have m: "map_option core_obj (d_dict (db_of s' d) k) = Some \<lparr>ptr = Str_RAW b, lru = 0\<rparr>"
    using arg_cong [OF rel_db [OF 1(2) l], of "\<lambda>db. d_dict db k"] assms(2) by simp
  then obtain ob' where "d_dict (db_of s' d) k = Some ob'" "ptr ob' = Str_RAW b"
    by (auto simp: core_obj_def) (metis core_obj_def core_obj_sel(1) robj.select_convs(1))
  then show ?thesis using f [OF dr b] 1(1) by (simp add: eq)
qed

lemma wp_append_finish:
  assumes "during c s0 {(cdb s0 c, argv s0 c ! 1)} s"
  shows "wp (appendCommand_finish s c n) (during c s0 {})"
proof -
  define s1 where "s1 = signalModifiedKey s (cdb s c) (argv s c ! 1)"
  have "during c s0 {} s1" unfolding s1_def using assms duringD(3-6) [OF assms] by (simp add: run_simps)
  then show ?thesis unfolding appendCommand_finish_def Let_def s1_def [symmetric]
    by (auto intro!: wp_rules run_rules [of c s0 "{}"])
qed

lemma wp_append:
  assumes "during c s0 {} s"
  shows "wp (appendCommand s c) (during c s0 {})"
  unfolding appendCommand_def Let_def
  using assms duringD(3) [OF assms]
  by (auto simp: run_simps duringD(3-11) [of c s0] during_insert stringObjectLen_sval checkType_string checkStringLength_def split: option.split
      intro!: wp_rules run_rules [of c s0 "{}"] wp_append_finish [of c s0])

lemma getLong_arg:
  "getLongFromObjectOrReply s e (Some (createStringObject t b)) msg =
     Some (string2ll b, if string2ll b = None
       then addReplyError s e (case msg of Some m \<Rightarrow> m | None \<Rightarrow> ''value is not an integer or out of range'') else s)"
proof -
  have "\<not> sint v < sint LLONG_MIN" "\<not> sint v > sint LLONG_MAX" for v :: i64
    using sint_ge [of v] sint_lt [of v] by (simp_all add: LLONG_MIN_def LLONG_MAX_def)
  then show ?thesis by (simp add: getLongFromObjectOrReply_def getLongLongFromObjectOrReply_def getLongLong_arg split: option.split)
qed

lemma wp_getLong [run_rules]:
  assumes "during c s0 P s" "\<And>s'. during c s0 P s' \<Longrightarrow> wp (f (string2ll b, s')) Q"
  shows "wp (getLongFromObjectOrReply s e (Some (createStringObject t b)) msg \<bind> f) Q"
  using assms by (simp add: getLong_arg)

lemma wp_setrange_finish:
  assumes d: "during c s0 {(cdb s0 c, argv s0 c ! 1)} s" and p': "\<exists>b. ptr ob = Str_RAW b"
    and n: "0 \<le> sint off" "sint off + int (length (argv s0 c ! 3)) < 2 ^ 63"
  shows "wp (setrangeCommand_finish s c ob off) (during c s0 {})"
proof -
  obtain b where p: "ptr ob = Str_RAW b" using p' by blast
  have "sint (off + of_nat (length (argv s0 c ! 3))) = sint off + int (length (argv s0 c ! 3))"
    using n sint_of_int_64 [of "sint off + int (length (argv s0 c ! 3))"] by simp
  then have "sdsgrowzero b (off + of_nat (length (argv s0 c ! 3))) \<noteq> None" using n by (simp add: sdsgrowzero_def)
  then obtain b' where g: "sdsgrowzero b (off + of_nat (length (argv s0 c ! 3))) = Some b'" by blast
  define s1 where "s1 = signalModifiedKey (upd_db (cdb s0 c) (\<lambda>db. db\<lparr>d_dict := (d_dict db)(argv s0 c ! 1 \<mapsto>
      ob\<lparr>ptr := Str_RAW (overwrite b' (unat off) (argv s0 c ! 3))\<rparr>)\<rparr>) s) (cdb s0 c) (argv s0 c ! 1)"
  have "during c s0 {} s1" unfolding s1_def using d duringD(3-6) [OF d] by (simp add: run_simps)
  then show ?thesis
    unfolding setrangeCommand_finish_def Let_def duringD(5,6) [OF d] s1_def [symmetric] p optr.case bind.bind_lunit g
    by (auto intro!: wp_rules run_rules [of c s0 "{}"])
qed

lemma checkStringLength_case:
  "(case checkStringLength s c n of (ok, s) \<Rightarrow> f ok s) =
     (if sint n > 512 * 1024 * 1024 then f False (addReplyError s c ''string exceeds maximum allowed size (512MB)'') else f True s)"
  by (simp add: checkStringLength_def)

lemma wp_setrange:
  assumes "during c s0 {} s"
    and n: "\<And>off. string2ll (argv s0 c ! 2) = Some off \<Longrightarrow> sint off + int (length (argv s0 c ! 3)) < 2 ^ 63"
  shows "wp (setrangeCommand s c) (during c s0 {})"
proof -
  have z: "wp (sdsnewlen_zero (off + of_nat (length (argv s0 c ! 3))) \<bind> f) Q"
    if "string2ll (argv s0 c ! 2) = Some off" "0 \<le> sint off" "\<And>z. wp (f z) Q" for off f and Q :: "redisServer \<Rightarrow> bool"
    using n [OF that(1)] that(2,3) sint_of_int_64 [of "sint off + int (length (argv s0 c ! 3))"] by (simp add: sdsnewlen_zero_def)
  show ?thesis
    unfolding setrangeCommand_def Let_def checkStringLength_case
    using assms duringD(3) [OF assms(1)]
    by (auto simp: run_simps duringD(3-11) [of c s0] stringObjectLen_sval checkType_string createObject_def not_less
      intro!: z wp_rules run_rules [of c s0 "{}"] wp_setrange_finish [of c s0])
qed

end
