(* ===== verification/Generic.thy ===== *)
theory Generic
  imports TStringSafe "HOL-Library.Signed_Division"
begin

text \<open>The commands on keys of any type (\<open>db.c\<close>, \<open>expire.c\<close>), with the lookup of commands (\<open>server.c\<close>) and the
  rewriting of the argument vector (\<open>networking.c\<close>).  A name that contains a NUL byte is not found in the
  command table.  Files written or removed by \<open>FLUSHALL\<close> are not modelled.\<close>

section \<open>Looking up and rewriting commands\<close>

definition lookupCommand :: "redisServer \<Rightarrow> bytes \<Rightarrow> redisCommand option" where
  "lookupCommand s name = commands s (map lower name)"

definition lookupCommandOrOriginal :: "redisServer \<Rightarrow> bytes \<Rightarrow> redisCommand option" where
  "lookupCommandOrOriginal s name =
     (case commands s (map lower name) of Some cmd \<Rightarrow> Some cmd | None \<Rightarrow> orig_commands s (map lower name))"

definition rewriteClientCommandVector :: "redisServer \<Rightarrow> nat \<Rightarrow> bytes list \<Rightarrow> redisServer option" where
  "rewriteClientCommandVector s c av =
     (let s = upd_cl c (\<lambda>cl. cl\<lparr>c_argv := av, c_cmd := lookupCommandOrOriginal s (hd av)\<rparr>) s in
      if c_cmd (clients s c) = None then None else Some s)"

section \<open>Flushing\<close>

text \<open>\<open>None\<close> when the error was sent; \<open>Some True\<close> for \<open>EMPTYDB_ASYNC\<close>.\<close>

definition getFlushCommandFlags :: "redisServer \<Rightarrow> nat \<Rightarrow> bool option \<times> redisServer" where
  "getFlushCommandFlags s c =
     (if length (argv s c) > 1 then
        if length (argv s c) > 2 \<or> \<not> strcaseeq (argv s c ! 1) ''async'' then (None, addReply s c shared_syntaxerr)
        else (Some True, s)
      else (Some False, s))"

definition flushdbCommand :: "redisServer \<Rightarrow> nat \<Rightarrow> redisServer option" where
  "flushdbCommand s c =
     (let (fl, s) = getFlushCommandFlags s c in
      case fl of
        None \<Rightarrow> Some s
      | Some async \<Rightarrow>
          let s = signalFlushedDb s (Some (cdb s c));
              (n, s) = emptyDb s (int (cdb s c)) async;
              s = s\<lparr>dirty := dirty s + n\<rparr> in
          Some (addReply s c shared_ok))"

text \<open>The blocking save after the flush keeps \<open>dirty\<close> in an \<open>int\<close>.\<close>

definition flushallCommand :: "redisServer \<Rightarrow> nat \<Rightarrow> redisServer option" where
  "flushallCommand s c =
     (let (fl, s) = getFlushCommandFlags s c in
      case fl of
        None \<Rightarrow> Some s
      | Some async \<Rightarrow>
          let s = signalFlushedDb s None;
              (n, s) = emptyDb s (- 1) async;
              s = s\<lparr>dirty := dirty s + n\<rparr>;
              s = addReply s c shared_ok;
              s = (if saveparamslen s > 0 then s\<lparr>dirty := sint (of_int (dirty s) :: u32)\<rparr> else s) in
          Some (s\<lparr>dirty := dirty s + 1\<rparr>))"

section \<open>Keys\<close>

definition delGenericCommand :: "redisServer \<Rightarrow> nat \<Rightarrow> bool \<Rightarrow> redisServer option" where
  "delGenericCommand s c lazy =
     do { (numdel, s) \<leftarrow> foldM (\<lambda>key (numdel, s).
            do { (_, s) \<leftarrow> expireIfNeeded s (cdb s c) key;
                 let (deleted, s) = (if lazy then dbAsyncDelete s (cdb s c) key else dbSyncDelete s (cdb s c) key) in
                 if deleted then
                   let s = signalModifiedKey s (cdb s c) key in
                   do { s \<leftarrow> notifyKeyspaceEvent s NOTIFY_GENERIC ''del'' key (cdb s c);
                        Some (numdel + 1, s\<lparr>dirty := dirty s + 1\<rparr>) }
                 else Some (numdel, s) }) (tl (argv s c)) (0 :: nat, s);
          addReplyLongLong s c (of_nat numdel) }"

definition delCommand :: "redisServer \<Rightarrow> nat \<Rightarrow> redisServer option" where
  "delCommand s c = delGenericCommand s c False"

definition unlinkCommand :: "redisServer \<Rightarrow> nat \<Rightarrow> redisServer option" where
  "unlinkCommand s c = delGenericCommand s c True"

definition existsCommand :: "redisServer \<Rightarrow> nat \<Rightarrow> redisServer option" where
  "existsCommand s c =
     do { (count, s) \<leftarrow> foldM (\<lambda>key (count, s).
            do { (ob, s) \<leftarrow> lookupKeyRead s (cdb s c) key;
                 Some (if ob \<noteq> None then count + 1 else count, s) }) (tl (argv s c)) (0 :: nat, s);
          addReplyLongLong s c (of_nat count) }"

text \<open>The index is a \<open>long\<close>, the parameter of \<open>selectDb\<close> an \<open>int\<close>.\<close>

definition to_int32 :: "i64 \<Rightarrow> int" where
  "to_int32 v = sint (ucast v :: u32)"

definition selectCommand :: "redisServer \<Rightarrow> nat \<Rightarrow> redisServer option" where
  "selectCommand s c =
     do { (idx, s) \<leftarrow> getLongFromObjectOrReply s c (Some (createStringObject s (argv s c ! 1))) (Some ''invalid DB index'');
          (case idx of
             None \<Rightarrow> Some s
           | Some idx \<Rightarrow>
               if cluster_enabled s \<and> idx \<noteq> 0 then Some (addReplyError s c ''SELECT is not allowed in cluster mode'')
               else
                 let (ok, s) = selectDb s c (to_int32 idx) in
                 Some (if ok then addReply s c shared_ok else addReplyError s c ''DB index is out of range'')) }"

definition keysCommand :: "redisServer \<Rightarrow> nat \<Rightarrow> redisServer option" where
  "keysCommand s c =
     (let pattern = argv s c ! 1;
          (node, s) = addDeferredMultiBulkLength s c;
          allkeys = (case pattern @ [0] of p0 # p1 # _ \<Rightarrow> p0 = 42 \<and> p1 = 0 | _ \<Rightarrow> False) in
      do { (numkeys, s) \<leftarrow> foldM (\<lambda>key (numkeys, s).
             do { m \<leftarrow> (if allkeys then Some True else stringmatchlen (pattern @ [0]) (int (length pattern)) key False);
                  if m then
                    do { e \<leftarrow> keyIsExpired s (cdb s c) key;
                         if \<not> e then
                           do { s \<leftarrow> addReplyBulkObj s c (createStringObject s key); Some (numkeys + 1, s) }
                         else Some (numkeys, s) }
                  else Some (numkeys, s) })
             (iter_order s (dom (d_dict (db_of s (cdb s c))))) (0 :: nat, s);
           setDeferredMultiBulkLength s c node numkeys })"

definition dbsizeCommand :: "redisServer \<Rightarrow> nat \<Rightarrow> redisServer option" where
  "dbsizeCommand s c = addReplyLongLong s c (of_nat (card (dom (d_dict (db_of s (cdb s c))))))"

definition typeCommand :: "redisServer \<Rightarrow> nat \<Rightarrow> redisServer option" where
  "typeCommand s c =
     do { (ob, s) \<leftarrow> lookupKeyReadWithFlags s (cdb s c) (argv s c ! 1) True;
          Some (addReplyStatus s c
            (case ob of
               None \<Rightarrow> ''none''
             | Some ob \<Rightarrow>
                 (case otype ob of
                    OBJ_STRING \<Rightarrow> ''string'' | OBJ_LIST \<Rightarrow> ''list'' | OBJ_SET \<Rightarrow> ''set'' | OBJ_ZSET \<Rightarrow> ''zset''
                  | OBJ_HASH \<Rightarrow> ''hash'' | OBJ_STREAM \<Rightarrow> ''stream''
                  | OBJ_MODULE \<Rightarrow> (case ptr ob of Module_VAL t _ \<Rightarrow> t | _ \<Rightarrow> ''unknown'')))) }"

definition renameGenericCommand_finish :: "redisServer \<Rightarrow> nat \<Rightarrow> nat \<Rightarrow> bytes \<Rightarrow> bytes \<Rightarrow> robj \<Rightarrow> i64 \<Rightarrow> bool \<Rightarrow> redisServer option" where
  "renameGenericCommand_finish s c d k1 k2 ob expire nx =
     do { s \<leftarrow> dbAdd s d k2 ob;
          s \<leftarrow> (if expire \<noteq> - 1 then setExpire s (Some c) d k2 expire else Some s);
          let s = snd (dbDelete s d k1); s = signalModifiedKey s d k1; s = signalModifiedKey s d k2 in
          do { s \<leftarrow> notifyKeyspaceEvent s NOTIFY_GENERIC ''rename_from'' k1 d;
               s \<leftarrow> notifyKeyspaceEvent s NOTIFY_GENERIC ''rename_to'' k2 d;
               let s = s\<lparr>dirty := dirty s + 1\<rparr> in
               Some (addReply s c (if nx then shared_cone else shared_ok)) } }"

definition renameGenericCommand :: "redisServer \<Rightarrow> nat \<Rightarrow> bool \<Rightarrow> redisServer option" where
  "renameGenericCommand s c nx =
     (let k1 = argv s c ! 1; k2 = argv s c ! 2; samekey = (k1 = k2); d = cdb s c in
      do { (ob, s) \<leftarrow> lookupKeyWriteOrReply s c k1 shared_nokeyerr;
           (case ob of
              None \<Rightarrow> Some s
            | Some ob \<Rightarrow>
                if samekey then Some (addReply s c (if nx then shared_czero else shared_ok))
                else
                  do { expire \<leftarrow> getExpire s d k1;
                       (old, s) \<leftarrow> lookupKeyWrite s d k2;
                       if old \<noteq> None \<and> nx then Some (addReply s c shared_czero)
                       else
                         let s = (if old \<noteq> None then snd (dbDelete s d k2) else s) in
                         renameGenericCommand_finish s c d k1 k2 ob expire nx }) })"

definition renameCommand :: "redisServer \<Rightarrow> nat \<Rightarrow> redisServer option" where
  "renameCommand s c = renameGenericCommand s c False"

definition renamenxCommand :: "redisServer \<Rightarrow> nat \<Rightarrow> redisServer option" where
  "renamenxCommand s c = renameGenericCommand s c True"

section \<open>Databases\<close>

definition INT_MIN :: int where "INT_MIN = - 2147483648"
definition INT_MAX :: int where "INT_MAX = 2147483647"

definition moveCommand_finish :: "redisServer \<Rightarrow> nat \<Rightarrow> nat \<Rightarrow> nat \<Rightarrow> bytes \<Rightarrow> redisServer option" where
  "moveCommand_finish s c src dst k =
     do { (ob, s) \<leftarrow> lookupKeyWrite s (cdb s c) k;
          (case ob of
             None \<Rightarrow> Some (addReply s c shared_czero)
           | Some ob \<Rightarrow>
               do { expire \<leftarrow> getExpire s (cdb s c) k;
                    (old, s) \<leftarrow> lookupKeyWrite s dst k;
                    if old \<noteq> None then Some (addReply s c shared_czero)
                    else
                      do { s \<leftarrow> dbAdd s dst k ob;
                           s \<leftarrow> (if expire \<noteq> - 1 then setExpire s (Some c) dst k expire else Some s);
                           let s = snd (dbDelete s src k); s = s\<lparr>dirty := dirty s + 1\<rparr> in
                           Some (addReply s c shared_cone) } }) }"

definition moveCommand :: "redisServer \<Rightarrow> nat \<Rightarrow> redisServer option" where
  "moveCommand s c =
     (if cluster_enabled s then Some (addReplyError s c ''MOVE is not allowed in cluster mode'')
      else
        let src = cdb s c; k = argv s c ! 1 in
        do { dbid \<leftarrow> getLongLongFromObject (Some (createStringObject s (argv s c ! 2)));
             let (ok, s') = (case dbid of
                None \<Rightarrow> (False, s)
              | Some n \<Rightarrow> if sint n < INT_MIN \<or> sint n > INT_MAX then (False, s) else selectDb s c (sint n)) in
             if \<not> ok then Some (addReply s' c shared_outofrangeerr)
             else
               let dst = cdb s' c; (_, s) = selectDb s' c (int src) in
               if src = dst then Some (addReply s c shared_sameobjecterr)
               else moveCommand_finish s c src dst k })"

definition scanDatabaseForReadyLists :: "redisServer \<Rightarrow> nat \<Rightarrow> redisServer" where
  "scanDatabaseForReadyLists s d =
     fold (\<lambda>key s.
       let (value, s) = lookupKey s d key True in
       case value of
         None \<Rightarrow> s
       | Some v \<Rightarrow> if otype v \<in> {OBJ_LIST, OBJ_STREAM, OBJ_ZSET} then signalKeyAsReady s d key else s)
       (iter_order s (dom (d_blocking_keys (db_of s d)))) s"

definition dbSwapDatabases :: "redisServer \<Rightarrow> int \<Rightarrow> int \<Rightarrow> bool \<times> redisServer" where
  "dbSwapDatabases s id1 id2 =
     (let dbnum = int (length (dbs s)) in
      if id1 < 0 \<or> id1 \<ge> dbnum \<or> id2 < 0 \<or> id2 \<ge> dbnum then (False, s)
      else if id1 = id2 then (True, s)
      else
        let db1 = nat id1; db2 = nat id2; aux = db_of s db1;
            s = upd_db db1 (\<lambda>db. db\<lparr>d_dict := d_dict (db_of s db2), d_expires := d_expires (db_of s db2)\<rparr>) s;
            s = upd_db db2 (\<lambda>db. db\<lparr>d_dict := d_dict aux, d_expires := d_expires aux\<rparr>) s;
            s = scanDatabaseForReadyLists s db1;
            s = scanDatabaseForReadyLists s db2 in
        (True, s))"

definition swapdbCommand :: "redisServer \<Rightarrow> nat \<Rightarrow> redisServer option" where
  "swapdbCommand s c =
     (if cluster_enabled s then Some (addReplyError s c ''SWAPDB is not allowed in cluster mode'')
      else
        do { (id1, s) \<leftarrow> getLongFromObjectOrReply s c (Some (createStringObject s (argv s c ! 1))) (Some ''invalid first DB index'');
             (case id1 of
                None \<Rightarrow> Some s
              | Some id1 \<Rightarrow>
                  do { (id2, s) \<leftarrow> getLongFromObjectOrReply s c (Some (createStringObject s (argv s c ! 2))) (Some ''invalid second DB index'');
                       (case id2 of
                          None \<Rightarrow> Some s
                        | Some id2 \<Rightarrow>
                            let (ok, s) = dbSwapDatabases s (to_int32 id1) (to_int32 id2) in
                            if \<not> ok then Some (addReplyError s c ''DB index is out of range'')
                            else Some (addReply (s\<lparr>dirty := dirty s + 1\<rparr>) c shared_ok)) }) })"

section \<open>Expires\<close>

text \<open>The two branches once the key is found.\<close>

definition expireGenericCommand_del :: "redisServer \<Rightarrow> nat \<Rightarrow> bytes \<Rightarrow> redisServer option" where
  "expireGenericCommand_del s c key =
     (let (deleted, s) = (if lazyfree_lazy_expire s then dbAsyncDelete s (cdb s c) key else dbSyncDelete s (cdb s c) key) in
      if \<not> deleted then None
      else
        let s = s\<lparr>dirty := dirty s + 1\<rparr>; aux = (if lazyfree_lazy_expire s then lit ''UNLINK'' else lit ''DEL'') in
        do { s \<leftarrow> rewriteClientCommandVector s c [aux, key];
             let s = signalModifiedKey s (cdb s c) key in
             do { s \<leftarrow> notifyKeyspaceEvent s NOTIFY_GENERIC ''del'' key (cdb s c);
                  Some (addReply s c shared_cone) } })"

definition expireGenericCommand_set :: "redisServer \<Rightarrow> nat \<Rightarrow> bytes \<Rightarrow> i64 \<Rightarrow> redisServer option" where
  "expireGenericCommand_set s c key when =
     do { s \<leftarrow> setExpire s (Some c) (cdb s c) key when;
          let s = addReply s c shared_cone; s = signalModifiedKey s (cdb s c) key in
          do { s \<leftarrow> notifyKeyspaceEvent s NOTIFY_GENERIC ''expire'' key (cdb s c);
               Some (s\<lparr>dirty := dirty s + 1\<rparr>) } }"

definition expireGenericCommand :: "redisServer \<Rightarrow> nat \<Rightarrow> i64 \<Rightarrow> unit_t \<Rightarrow> redisServer option" where
  "expireGenericCommand s c basetime un =
     (let key = argv s c ! 1; param = argv s c ! 2 in
      do { (w, s) \<leftarrow> getLongLongFromObjectOrReply s c (Some (createStringObject s param)) None;
           (case w of
              None \<Rightarrow> Some s
            | Some when \<Rightarrow>
                let when = (if un = UNIT_SECONDS then when * 1000 else when) + basetime in
                do { (ob, s) \<leftarrow> lookupKeyWrite s (cdb s c) key;
                     if ob = None then Some (addReply s c shared_czero)
                     else if sint when \<le> sint (mstime s) \<and> \<not> loading s \<and> masterhost s = None
                     then expireGenericCommand_del s c key
                     else expireGenericCommand_set s c key when }) })"

definition expireCommand :: "redisServer \<Rightarrow> nat \<Rightarrow> redisServer option" where
  "expireCommand s c = expireGenericCommand s c (mstime s) UNIT_SECONDS"

definition expireatCommand :: "redisServer \<Rightarrow> nat \<Rightarrow> redisServer option" where
  "expireatCommand s c = expireGenericCommand s c 0 UNIT_SECONDS"

definition pexpireCommand :: "redisServer \<Rightarrow> nat \<Rightarrow> redisServer option" where
  "pexpireCommand s c = expireGenericCommand s c (mstime s) UNIT_MILLISECONDS"

definition pexpireatCommand :: "redisServer \<Rightarrow> nat \<Rightarrow> redisServer option" where
  "pexpireatCommand s c = expireGenericCommand s c 0 UNIT_MILLISECONDS"

definition ttlGenericCommand :: "redisServer \<Rightarrow> nat \<Rightarrow> bool \<Rightarrow> redisServer option" where
  "ttlGenericCommand s c output_ms =
     do { (ob, s) \<leftarrow> lookupKeyReadWithFlags s (cdb s c) (argv s c ! 1) True;
          if ob = None then addReplyLongLong s c (- 2)
          else
            do { expire \<leftarrow> getExpire s (cdb s c) (argv s c ! 1);
                 let ttl = (if expire \<noteq> - 1 then
                              let ttl = expire - mstime s in (if sint ttl < 0 then 0 else ttl)
                            else - 1) in
                 if ttl = - 1 then addReplyLongLong s c (- 1)
                 else addReplyLongLong s c (if output_ms then ttl else of_int (sint (ttl + 500) sdiv 1000)) } }"

definition ttlCommand :: "redisServer \<Rightarrow> nat \<Rightarrow> redisServer option" where
  "ttlCommand s c = ttlGenericCommand s c False"

definition pttlCommand :: "redisServer \<Rightarrow> nat \<Rightarrow> redisServer option" where
  "pttlCommand s c = ttlGenericCommand s c True"

definition persistCommand :: "redisServer \<Rightarrow> nat \<Rightarrow> redisServer option" where
  "persistCommand s c =
     do { (ob, s) \<leftarrow> lookupKeyWrite s (cdb s c) (argv s c ! 1);
          if ob \<noteq> None then
            do { (removed, s) \<leftarrow> removeExpire s (cdb s c) (argv s c ! 1);
                 if removed then let s = addReply s c shared_cone in Some (s\<lparr>dirty := dirty s + 1\<rparr>)
                 else Some (addReply s c shared_czero) }
          else Some (addReply s c shared_czero) }"

definition touchCommand :: "redisServer \<Rightarrow> nat \<Rightarrow> redisServer option" where
  "touchCommand s c =
     do { (touched, s) \<leftarrow> foldM (\<lambda>key (touched, s).
            do { (ob, s) \<leftarrow> lookupKeyRead s (cdb s c) key;
                 Some (if ob \<noteq> None then touched + 1 else touched, s) }) (tl (argv s c)) (0 :: nat, s);
          addReplyLongLong s c (of_nat touched) }"

section \<open>The commands keep the invariants\<close>

lemma wp_foldM_pair [run_rules]:
  assumes "during c s0 P s" "\<And>a n s. a \<in> set l \<Longrightarrow> during c s0 P s \<Longrightarrow> wp (f a (n, s)) (\<lambda>(n, s). during c s0 P s)"
    "\<And>n s. during c s0 P s \<Longrightarrow> wp (g (n, s)) Q"
  shows "wp (foldM f l (n, s) \<bind> g) Q"
  by (rule wp_bind [OF wp_foldM [of "\<lambda>(n, s). during c s0 P s" "(n, s)" l f]]) (use assms in auto)

lemma wp_getExpire [run_rules]:
  assumes "during c s0 P s" "d < length (dbs s)" "\<And>w. wp (f w) Q"
  shows "wp (getExpire s d k \<bind> f) Q"
  using assms dbs_okD [OF duringD(2) [OF assms(1)] assms(2), of k]
  by (cases "d_expires (db_of s d) k") (auto simp: getExpire_def has_key_def)

lemma wp_read_commands:
  assumes "during c s0 {} s"
  shows "wp (existsCommand s c) (during c s0 {})" "wp (dbsizeCommand s c) (during c s0 {})" "wp (typeCommand s c) (during c s0 {})"
    "wp (ttlCommand s c) (during c s0 {})" "wp (pttlCommand s c) (during c s0 {})" "wp (touchCommand s c) (during c s0 {})"
  unfolding existsCommand_def dbsizeCommand_def typeCommand_def ttlCommand_def pttlCommand_def ttlGenericCommand_def
    touchCommand_def addReplyStatus_def Let_def
  using assms duringD(3) [OF assms]
  by (auto simp: run_simps duringD(3-11) [of c s0] intro!: wp_rules run_rules [of c s0 "{}"])

lemma del_either:
  "d < length (dbs s) \<Longrightarrow> (if b then dbAsyncDelete s d k else dbSyncDelete s d k) = (has_key s d k, del_key d k s)"
  by (simp add: dbSyncDelete_eq dbAsyncDelete_eq)

lemma del_key_absent:
  assumes "dbs_ok s" "d < length (dbs s)" "\<not> has_key s d k"
  shows "del_key d k s = s"
proof -
  have "d_expires (db_of s d) k = None" using dbs_okD [OF assms(1,2), of k] assms(3) by (cases "d_expires (db_of s d) k") auto
  then have "(db_of s d)\<lparr>d_expires := (d_expires (db_of s d))(k := None), d_dict := (d_dict (db_of s d))(k := None)\<rparr> = db_of s d"
    using assms(3) by (simp add: has_key_def fun_upd_idem)
  then show ?thesis using assms(3) by (simp add: del_key_def has_key_def upd_db_def)
qed

lemma during_del_absent: "during c s0 P s \<Longrightarrow> d < length (dbs s) \<Longrightarrow> \<not> has_key s d k \<Longrightarrow> during c s0 P (del_key d k s)"
  using del_key_absent [OF duringD(2)] by simp

lemma wp_del:
  assumes "during c s0 {} s"
  shows "wp (delGenericCommand s c lazy) (during c s0 {})"
  unfolding delGenericCommand_def Let_def
  using assms duringD(3) [OF assms]
  apply (auto simp: run_simps del_either during_del_absent duringD(3-11) [of c s0] intro!: wp_rules run_rules [of c s0 "{}"])
  done

lemma wp_persist:
  assumes "during c s0 {} s"
  shows "wp (persistCommand s c) (during c s0 {(cdb s0 c, argv s0 c ! 1)})"
  unfolding persistCommand_def Let_def
  using assms duringD(3) [OF assms]
  apply (auto simp: run_simps duringD(3-11) [of c s0] intro!: wp_rules run_rules [of c s0 "{}"])
  done

lemma wp_rename_finish:
  assumes "during c s0 {(d, k2)} s" "d < length (dbs s)" "d_dict (db_of s d) k2 = None"
  shows "wp (renameGenericCommand_finish s c d k1 k2 ob w nx) (during c s0 {})"
  unfolding renameGenericCommand_finish_def Let_def
  using assms duringD(3) [OF assms(1)]
  by (auto simp: run_simps duringD(3-11) [of c s0]
      intro!: wp_rules wp_dbAdd [of c s0 "{(d, k2)}"] wp_setExpire [of c s0 "{(d, k2)}"] wp_notify [of c s0 "{}"])

lemma wp_rename:
  assumes "during c s0 {} s"
  shows "wp (renameGenericCommand s c nx) (during c s0 {})"
  unfolding renameGenericCommand_def lookupKeyWriteOrReply_def Let_def
  using assms duringD(3) [OF assms]
  apply (auto simp: run_simps duringD(3-11) [of c s0] intro!: wp_rules wp_rename_finish [of c s0] run_rules [of c s0 "{}"])
  done

subsection \<open>Commands that change their own client\<close>

definition recast :: "nat \<Rightarrow> bytes list \<Rightarrow> redisCommand option \<Rightarrow> nat \<Rightarrow> redisServer \<Rightarrow> redisServer" where
  "recast c av cmd d = upd_cl c (\<lambda>cl. cl\<lparr>c_argv := av, c_cmd := cmd, c_db := d\<rparr>)"

text \<open>A command that may select another database, or rewrite itself to a deletion, ends in \<open>s\<close>.\<close>

definition rewritten :: "redisServer \<Rightarrow> nat \<Rightarrow> bytes list \<Rightarrow> redisCommand option \<Rightarrow> bool" where
  "rewritten s0 c av cmd \<longleftrightarrow> av = argv s0 c \<and> cmd = c_cmd (clients s0 c) \<or>
     (\<exists>n \<in> {lit ''DEL'', lit ''UNLINK''}. \<exists>k. av = [n, k] \<and> cmd = lookupCommandOrOriginal s0 n)"

definition after :: "nat \<Rightarrow> redisServer \<Rightarrow> (nat \<times> bytes) set \<Rightarrow> redisServer \<Rightarrow> bool" where
  "after c s0 P s \<longleftrightarrow> (\<exists>av cmd d. during c (recast c av cmd d s0) P s \<and> rewritten s0 c av cmd)"

lemma recast_id: "recast c (argv s c) (c_cmd (clients s c)) (cdb s c) s = s"
  by (simp add: recast_def upd_cl_def)

lemma during_after: "during c s0 P s \<Longrightarrow> after c s0 P s"
  unfolding after_def rewritten_def using recast_id [of c s0] by metis

lemma afterI: "during c (recast c av cmd d s0) P s \<Longrightarrow> rewritten s0 c av cmd \<Longrightarrow> after c s0 P s"
  by (auto simp: after_def)

lemma wp_during_after: "wp m (during c s0 P) \<Longrightarrow> wp m (after c s0 P)"
  by (erule wp_mono) (rule during_after)

lemma recast_sel [simp]:
  "dbs (recast c av cmd d s) = dbs s" "client_list (recast c av cmd d s) = client_list s" "commands (recast c av cmd d s) = commands s" "orig_commands (recast c av cmd d s) = orig_commands s"
  "clients (recast c av cmd d s) e = (if e = c then (clients s c)\<lparr>c_argv := av, c_cmd := cmd, c_db := d\<rparr> else clients s e)"
  "masterhost (recast c av cmd d s) = masterhost s" "mstime (recast c av cmd d s) = mstime s" "loading (recast c av cmd d s) = loading s"
  "lua_caller (recast c av cmd d s) = lua_caller s" "lua_time_start (recast c av cmd d s) = lua_time_start s"
  "cluster_enabled (recast c av cmd d s) = cluster_enabled s" "maxmemory (recast c av cmd d s) = maxmemory s" "current_client (recast c av cmd d s) = current_client s" "proto_max_bulk_len (recast c av cmd d s) = proto_max_bulk_len s"
  "also_propagate (recast c av cmd d s) = also_propagate s"
  "prop_ok (recast c av cmd d s) = prop_ok s" "dbs_ok (recast c av cmd d s) = dbs_ok s"
  by (simp_all add: recast_def upd_cl_def dbs_ok_def prop_ok_def backlog_holds_def cong: option.case_cong)

lemma idle_recast [simp]: "idle (recast c av cmd d s) = idle s"
  by (rule idle_cong) (simp_all add: recast_def upd_cl_def)

lemma recast_recast: "recast c av cmd d (recast c av' cmd' d' s) = recast c av cmd d s"
  by (simp add: recast_def upd_cl_def)

lemma core_recast: "core (recast c av cmd d s) = recast c av cmd d (core s)"
  unfolding recast_def by (rule core_upd_cl) (simp add: quiet_client_def)

lemma frame_recast:
  assumes f: "frame P x y"
  shows "frame P (recast c av cmd d x) (recast c av cmd d y)"
proof -
  have "content (recast c av cmd d z) = content z" "expired (recast c av cmd d z) = expired z" "touched (recast c av cmd d z) = touched z" for z
    by (auto simp: fun_eq_iff content_def expired_def now_def touched_def watchers_def cong: option.case_cong)
  moreover have "same_client (clients (recast c av cmd d x) e) (clients (recast c av cmd d y) e)" for e
    using f by (simp add: frame_def same_client_def)
  ultimately show ?thesis using f by (simp add: frame_def changed_ok_def)
qed

lemma during_recast:
  assumes "during c s0 P s" "d < length (dbs s)" "cmd \<noteq> None"
  shows "during c (recast c av cmd d s0) P (recast c av cmd d s)"
  using assms frame_recast duringD(4) [OF assms(1)] by (auto simp: during_def core_recast)

lemma wp_rewrite:
  assumes d: "during c s0 P s" and cmd: "lookupCommandOrOriginal s0 (hd av) = Some cmd"
    and f: "\<And>s'. during c (recast c av (Some cmd) (cdb s0 c) s0) P s' \<Longrightarrow> wp (f s') Q"
  shows "wp (rewriteClientCommandVector s c av \<bind> f) Q"
proof -
  have l: "lookupCommandOrOriginal s (hd av) = Some cmd" using cmd duringD(10,11) [OF d] by (simp add: lookupCommandOrOriginal_def cong: option.case_cong)
  have "rewriteClientCommandVector s c av = Some (recast c av (Some cmd) (cdb s0 c) s)"
    unfolding duringD(5) [OF d, symmetric] by (cases "clients s c") (simp add: rewriteClientCommandVector_def l recast_def upd_cl_def)
  then show ?thesis using f [OF during_recast [OF d, of "cdb s0 c" "Some cmd" av]] duringD(3) [OF d] by simp
qed

lemma wp_expire_del:
  assumes d: "during c s0 {} s" and k: "d_dict (db_of s (cdb s0 c)) k \<noteq> None"
    and cmd: "\<And>n. n \<in> {lit ''DEL'', lit ''UNLINK''} \<Longrightarrow> lookupCommandOrOriginal s0 n \<noteq> None"
  shows "wp (expireGenericCommand_del s c k) (after c s0 {})"
proof -
  have h: "has_key s (cdb s0 c) k" "cdb s0 c < length (dbs s)" using k duringD(3) [OF d] by (simp_all add: has_key_def)
  define n where "n = (if lazyfree_lazy_expire s then lit ''UNLINK'' else lit ''DEL'')"
  have "n \<in> {lit ''DEL'', lit ''UNLINK''}" by (simp add: n_def)
  then obtain cm where cm: "lookupCommandOrOriginal s0 (hd [n, k]) = Some cm" using cmd [of n] by fastforce
  have lz: "lazyfree_lazy_expire (del_key (cdb s0 c) k s) = lazyfree_lazy_expire s"
    by (simp add: del_key_def slotToKeyDel_def slotToKeyUpdateKey_def Let_def)
  let ?s = "(del_key (cdb s0 c) k s)\<lparr>dirty := dirty (del_key (cdb s0 c) k s) + 1\<rparr>"
  have 1: "during c s0 {(cdb s0 c, k)} ?s" using d h by (simp add: run_simps)
  let ?t = "recast c [n, k] (Some cm) (cdb s0 c) s0"
  have rw: "rewritten s0 c [n, k] (Some cm)" using cm by (auto simp: rewritten_def n_def)
  have "wp (rewriteClientCommandVector ?s c [n, k] \<bind> (\<lambda>s. notifyKeyspaceEvent (signalModifiedKey s (cdb s c) k)
      NOTIFY_GENERIC ''del'' k (cdb (signalModifiedKey s (cdb s c) k) c) \<bind> (\<lambda>s. Some (addReply s c shared_cone)))) (after c s0 {})"
  proof (rule wp_rewrite [OF 1 cm])
    fix s'
    assume 2: "during c ?t {(cdb s0 c, k)} s'"
    then have "during c ?t {} (signalModifiedKey s' (cdb s' c) k)"
      using duringD(3-5) [OF 2] by (simp add: run_simps)
    then show "wp (notifyKeyspaceEvent (signalModifiedKey s' (cdb s' c) k) NOTIFY_GENERIC ''del'' k
        (cdb (signalModifiedKey s' (cdb s' c) k) c) \<bind> (\<lambda>s. Some (addReply s c shared_cone))) (after c s0 {})"
      by (rule wp_notify) (rule wp_Some, erule afterI [OF during_reply(2) rw])
  qed
  then show ?thesis using h duringD(5) [OF d]
    by (simp add: expireGenericCommand_del_def del_either Let_def n_def lz)
qed

lemma wp_expire:
  assumes d: "during c s0 {} s"
    and cmd: "\<And>n. n \<in> {lit ''DEL'', lit ''UNLINK''} \<Longrightarrow> lookupCommandOrOriginal s0 n \<noteq> None"
  shows "wp (expireGenericCommand s c t un) (after c s0 {})"
proof -
  have set: "wp (expireGenericCommand_set s' c k w) (after c s0 {})"
    if "during c s0 {} s'" "d_dict (db_of s' (cdb s0 c)) k \<noteq> None" for s' k w
  proof (rule wp_during_after)
    show "wp (expireGenericCommand_set s' c k w) (during c s0 {})"
      unfolding expireGenericCommand_set_def Let_def
      using that duringD(3) [OF that(1)]
      by (auto simp: run_simps duringD(3-11) [of c s0] intro!: wp_rules wp_setExpire [of c s0 "{}"] run_rules [of c s0 "{}"])
  qed
  show ?thesis unfolding expireGenericCommand_def Let_def
    using d duringD(3) [OF d]
    by (auto simp: run_simps duringD(3-11) [of c s0] during_after intro!: wp_rules run_rules [of c s0 "{}"] set wp_expire_del [OF _ _ cmd])
qed

end
