(* ===== verification/GenericSafe.thy ===== *)
theory GenericSafe
  imports Generic
begin

text \<open>The commands that select, move, flush and swap databases, and \<open>KEYS\<close>: they run without failing and keep the
  invariants, with the keys they change unseen by \<open>WATCH\<close> named.\<close>

lemma during_quiet: "during c s0 P s \<Longrightarrow> quiet s' = quiet s \<Longrightarrow> during c s0 P s'"
  using core_quiet [of s' s] prop_ok_quiet [of s' s] by (simp add: during_def)

lemma after_reply:
  assumes "after c s0 P s"
  shows "after c s0 P (addReply s e str)" "after c s0 P (addReplyError s e msg)"
proof -
  from assms obtain av cmd d where d: "during c (recast c av cmd d s0) P s" "rewritten s0 c av cmd" unfolding after_def by blast
  show "after c s0 P (addReply s e str)" using d by (rule afterI [OF during_reply(2)])
  show "after c s0 P (addReplyError s e msg)" using d by (rule afterI [OF during_reply(5)])
qed

lemma selectDb_after:
  assumes a: "during c s0 P s"
  shows "after c s0 P (snd (selectDb s c i))"
proof (cases "i < 0 \<or> i \<ge> int (length (dbs s))")
  case False
  obtain cmd where cmd: "c_cmd (clients s0 c) = Some cmd" using during_cmd [OF a] by blast
  have "during c (recast c (argv s0 c) (Some cmd) (nat i) s0) P (recast c (argv s0 c) (Some cmd) (nat i) s)"
    using False by (intro during_recast [OF a]) auto
  moreover have "recast c (argv s0 c) (Some cmd) (nat i) s = snd (selectDb s c i)"
    using False duringD(6,7) [OF a, symmetric] unfolding cmd [symmetric]
    by (cases "clients s c") (simp add: selectDb_def recast_def upd_cl_def)
  moreover have "rewritten s0 c (argv s0 c) (Some cmd)" using cmd by (simp add: rewritten_def)
  ultimately show ?thesis using afterI by metis
qed (use a during_after in \<open>simp add: selectDb_def\<close>)

lemma wp_select:
  assumes d: "during c s0 {} s"
  shows "wp (selectCommand s c) (after c s0 {})"
  unfolding selectCommand_def Let_def
proof (rule wp_getLong [OF d], rule wp_case_pair, erule conjE [OF iffD1 [OF prod.inject]], goal_cases)
  case (1 s' v s1)
  then have s1: "during c s0 {} s1" and s2: "after c s0 {} s1" using during_after by auto
  show ?case
    using after_reply(1) [OF selectDb_after [OF s1]] after_reply(2) [OF selectDb_after [OF s1]] after_reply(2) [OF s2] s2
    by (auto simp: case_prod_unfold wp_def simp del: reply_defs split: option.split)
qed

lemma wp_move_finish:
  assumes d: "during c s0 {} s" and dst: "dst < length (dbs s)"
  shows "wp (moveCommand_finish s c (cdb s0 c) dst k) (during c s0 {(cdb s0 c, k), (dst, k)})"
  unfolding moveCommand_finish_def Let_def
  using d dst duringD(3,4) [OF d]
  by (auto simp: run_simps duringD(3-11) [of c s0]
      intro!: wp_rules wp_setExpire [of c s0 "{(dst, k)}"] run_rules [of c s0 "{}"])

lemma wp_move:
  assumes d: "during c s0 {} s"
  shows "\<exists>dst. wp (moveCommand s c) (during c s0 {(cdb s0 c, argv s0 c ! 1), (dst, argv s0 c ! 1)})"
proof -
  have bk: "selectDb (upd_cl c (\<lambda>cl. cl\<lparr>c_db := e\<rparr>) s) c (int (cdb s0 c)) = (True, s)" for e
    using duringD(3,5) [OF d] by (simp add: selectDb_def upd_cl_def fun_upd_idem)
  show ?thesis
  proof (cases "string2ll (argv s0 c ! 2)")
    case None
    then show ?thesis unfolding moveCommand_def Let_def
      using d by (auto simp: getLongLong_arg duringD(3-11) [OF d] run_simps intro!: wp_rules)
  next
    case (Some n)
    show ?thesis
    proof (cases "sint n < INT_MIN \<or> sint n > INT_MAX \<or> sint n < 0 \<or> sint n \<ge> int (length (dbs s))")
      case True
      then have "(if sint n < INT_MIN \<or> sint n > INT_MAX then (False, s) else selectDb s c (sint n)) = (False, s)"
        by (auto simp: selectDb_def)
      then show ?thesis unfolding moveCommand_def Let_def
        using d Some by (auto simp: getLongLong_arg duringD(3-11) [OF d] run_simps intro!: wp_rules)
    next
      case False
      let ?e = "nat (sint n)"
      have sel: "(if sint n < INT_MIN \<or> sint n > INT_MAX then (False, s) else selectDb s c (sint n)) =
          (True, upd_cl c (\<lambda>cl. cl\<lparr>c_db := ?e\<rparr>) s)"
        using False by (auto simp: selectDb_def)
      have e: "?e < length (dbs s)" using False by auto
      have "wp (moveCommand s c) (during c s0 {(cdb s0 c, argv s0 c ! 1), (?e, argv s0 c ! 1)})"
        unfolding moveCommand_def Let_def duringD(5,6) [OF d] getLongLong_arg Some bind.bind_lunit option.case sel prod.case bk
        using d wp_move_finish [OF d e, of "argv s0 c ! 1"] by (auto simp: run_simps intro!: wp_rules)
      then show ?thesis by blast
    qed
  qed
qed

subsection \<open>Flushing\<close>

definition flushes :: "nat option \<Rightarrow> redisServer \<Rightarrow> nat \<Rightarrow> bool" where
  "flushes dbid x c \<longleftrightarrow> (\<exists>(d, k) \<in> set (c_watched_keys (clients x c)). (dbid = None \<or> dbid = Some d) \<and> d_dict (db_of x d) k \<noteq> None)"

lemma set_flag_idem [simp]: "set_flag c fl (set_flag c fl x) = set_flag c fl x"
  by (simp add: set_flag_def upd_cl_def)

lemma fold_flag_once:
  assumes "\<And>a x. B a (set_flag c fl x) = B a x"
  shows "fold (\<lambda>a s. if B a s then set_flag c fl s else s) l x = (if \<exists>a \<in> set l. B a x then set_flag c fl x else x)"
proof (induction l arbitrary: x)
  case (Cons a l)
  then show ?case using assms by (cases "B a x") simp_all
qed simp

lemma touch_inner:
  "fold (\<lambda>(d, k) s. if (dbid = None \<or> dbid = Some d) \<and> d_dict (db_of s d) k \<noteq> None then set_flag c fl s else s) l x =
     (if \<exists>(d, k) \<in> set l. (dbid = None \<or> dbid = Some d) \<and> d_dict (db_of x d) k \<noteq> None then set_flag c fl x else x)"
proof -
  define B where "B a s = (case a of (d, k) \<Rightarrow> (dbid = None \<or> dbid = Some d) \<and> d_dict (db_of s d) k \<noteq> None)" for a s
  have "(\<lambda>(d, k) s. if (dbid = None \<or> dbid = Some d) \<and> d_dict (db_of s d) k \<noteq> None then set_flag c fl s else s) =
      (\<lambda>a s. if B a s then set_flag c fl s else s)" by (auto simp: B_def fun_eq_iff)
  then show ?thesis using fold_flag_once [of B c fl l x] by (simp add: B_def split_beta)
qed

lemma flushes_set_flag [simp]: "flushes dbid (set_flag e fl x) c = flushes dbid x c"
  by (simp add: flushes_def clients_set_flag)

lemma touchOnFlush_eq:
  "touchWatchedKeysOnFlush x dbid = fold (\<lambda>c s. if flushes dbid s c then set_flag c CLIENT_DIRTY_CAS s else s) (client_list x) x"
  unfolding touchWatchedKeysOnFlush_def touch_inner flushes_def [symmetric] ..

lemma fold_flag_if:
  assumes "\<And>e x. B (set_flag e fl x) = B x"
  shows "fold (\<lambda>c s. if B s c then set_flag c fl s else s) cs x = fold (\<lambda>c. set_flag c fl) (filter (B x) cs) x"
  using assms by (induction cs arbitrary: x) auto

lemma touchOnFlush_fold:
  "touchWatchedKeysOnFlush x dbid = fold (\<lambda>c. set_flag c CLIENT_DIRTY_CAS) (filter (flushes dbid x) (client_list x)) x"
  unfolding touchOnFlush_eq by (rule fold_flag_if) (simp add: fun_eq_iff)

text \<open>The two tables of watched keys agree, and only connected clients watch.\<close>

definition watch_ok :: "redisServer \<Rightarrow> bool" where
  "watch_ok s \<longleftrightarrow>
     (\<forall>d < length (dbs s). \<forall>k. \<forall>c \<in> watchers s d k. c \<in> set (client_list s) \<and> (d, k) \<in> set (c_watched_keys (clients s c))) \<and>
     (\<forall>c d k. (d, k) \<in> set (c_watched_keys (clients s c)) \<longrightarrow> d < length (dbs s) \<and> c \<in> watchers s d k)"

lemma watch_okD:
  assumes "watch_ok s"
  shows "d < length (dbs s) \<Longrightarrow> c \<in> watchers s d k \<Longrightarrow> c \<in> set (client_list s) \<and> (d, k) \<in> set (c_watched_keys (clients s c))"
    "(d, k) \<in> set (c_watched_keys (clients s c)) \<Longrightarrow> d < length (dbs s)"
    "(d, k) \<in> set (c_watched_keys (clients s c)) \<Longrightarrow> c \<in> watchers s d k"
  using assms unfolding watch_ok_def by blast+

lemma watch_ok_core:
  assumes "watch_ok s"
  shows "watch_ok (core s)"
proof -
  have w: "watchers (core s) d k = watchers s d k" if "d < length (dbs s)" for d k using that by (simp add: watchers_def core_db_def)
  have c: "c_watched_keys (clients (core s) c) = c_watched_keys (clients s c)" for c by (simp add: quiet_client_def)
  have l: "length (dbs (core s)) = length (dbs s)" "client_list (core s) = client_list s" by simp_all
  show ?thesis unfolding watch_ok_def c l
  proof (intro conjI allI impI ballI, goal_cases)
    case (1 d k c)
    then show ?case using watch_okD(1) [OF assms, of d c k] unfolding w [OF 1(1)] by blast
  next
    case (2 d k c)
    then show ?case using watch_okD(1) [OF assms, of d c k] unfolding w [OF 2(1)] by blast
  next
    case (3 c d k)
    then show ?case by (rule watch_okD(2) [OF assms])
  next
    case (4 c d k)
    then show ?case using watch_okD(3) [OF assms 4] w [OF watch_okD(2) [OF assms 4]] by blast
  qed
qed

lemma touchOnFlush_touched:
  assumes w: "watch_ok x" and d: "d < length (dbs x)" "dbid = None \<or> dbid = Some d" "d_dict (db_of x d) k \<noteq> None"
  shows "touched (touchWatchedKeysOnFlush x dbid) d k"
proof -
  have "c \<in> set (client_list x) \<and> flushes dbid x c" if "c \<in> watchers x d k" for c
    using watch_okD(1) [OF w d(1) that] d by (auto simp: flushes_def)
  then show ?thesis unfolding touched_def touchOnFlush_fold by (simp add: fold_set_flag_clients fold_set_flag_sel watchers_def)
qed

definition cleared :: "redisDb \<Rightarrow> redisDb" where
  "cleared db = db\<lparr>d_dict := Map.empty, d_expires := Map.empty\<rparr>"

lemma fold_cleared:
  assumes "\<forall>d \<in> set l. d < length (dbs x)"
  shows "length (dbs (fold (\<lambda>d. upd_db d cleared) l x)) = length (dbs x) \<and>
    (\<forall>e. dbs (fold (\<lambda>d. upd_db d cleared) l x) ! e = (if e \<in> set l then cleared (db_of x e) else db_of x e)) \<and>
    (\<exists>ds. fold (\<lambda>d. upd_db d cleared) l x = x\<lparr>dbs := ds\<rparr>)"
  using assms
proof (induction l arbitrary: x)
  case (Cons d l)
  have d: "\<forall>e \<in> set l. e < length (dbs (upd_db d cleared x))" using Cons.prems by simp
  obtain ds where ds: "fold (\<lambda>d. upd_db d cleared) l (upd_db d cleared x) = (upd_db d cleared x)\<lparr>dbs := ds\<rparr>" using Cons.IH [OF d] by blast
  have "(upd_db d cleared x)\<lparr>dbs := ds\<rparr> = x\<lparr>dbs := ds\<rparr>" by (simp add: upd_db_def)
  then have "\<exists>ds. fold (\<lambda>d. upd_db d cleared) (d # l) x = x\<lparr>dbs := ds\<rparr>" using ds by (metis fold_simps(2))
  moreover have "cleared (cleared db) = cleared db" for db by (simp add: cleared_def)
  ultimately show ?case using Cons.IH [OF d] Cons.prems by simp
next
  case Nil
  have "x = x\<lparr>dbs := dbs x\<rparr>" by simp
  then have "\<exists>ds. x = x\<lparr>dbs := ds\<rparr>" by blast
  then show ?case by simp
qed

lemma emptyDb_fold:
  "snd (fold (\<lambda>j (removed, s). (removed + g s j, if async then emptyDbAsync s j
      else upd_db j (\<lambda>db. db\<lparr>d_dict := Map.empty, d_expires := Map.empty\<rparr>) s)) l (n, s)) = fold (\<lambda>d. upd_db d cleared) l s"
  by (induction l arbitrary: n s) (simp_all add: emptyDbAsync_def cleared_def [abs_def])

text \<open>What \<open>emptyDb\<close> leaves, for a database number in range.\<close>

definition flushed :: "nat list \<Rightarrow> bool \<Rightarrow> redisServer \<Rightarrow> redisServer" where
  "flushed l al s =
     (let s = fold (\<lambda>d. upd_db d cleared) l s; s = (if cluster_enabled s then slotToKeyFlush s else s) in
      if al then flushSlaveKeysWithExpireList s else s)"

lemma emptyDb_eq:
  assumes "- 1 \<le> i" "i < int (length (dbs s))"
  shows "\<exists>n. emptyDb s i async = (n, flushed (if i = - 1 then [0..<length (dbs s)] else [nat i]) (i = - 1) s)"
proof -
  have sl: "slotToKeyFlushAsync s = slotToKeyFlush s" for s by (simp add: slotToKeyFlushAsync_def slotToKeyFlush_def)
  let ?l = "if i = - 1 then [0..<length (dbs s)] else [nat i]"
  have r: "\<not> (i < - 1 \<or> i \<ge> int (length (dbs s)))" using assms by simp
  obtain a b where ab: "(if i = - 1 then (0, int (length (dbs s)) - 1) else (i, i)) = (a, b)" by fastforce
  have l: "[nat a..<nat (b + 1)] = ?l"
  proof (cases "i = - 1")
    case False
    then have "nat (i + 1) = Suc (nat i)" using assms by (simp add: nat_add_distrib)
    then show ?thesis using False ab by auto
  qed (use ab in auto)
  let ?f = "\<lambda>j (removed, s). (removed + int (card (dom (d_dict (db_of s j)))), if async then emptyDbAsync s j
      else upd_db j (\<lambda>db. db\<lparr>d_dict := Map.empty, d_expires := Map.empty\<rparr>) s)"
  obtain n s' where n': "fold ?f ?l (0, s) = (n, s')" by fastforce
  have n: "fold ?f ?l (0, s) = (n, fold (\<lambda>d. upd_db d cleared) ?l s)"
    using emptyDb_fold [of "\<lambda>s j. int (card (dom (d_dict (db_of s j))))" async ?l 0 s] unfolding n' snd_conv by simp
  show ?thesis unfolding emptyDb_def if_not_P [OF r] ab prod.case Let_def l n
    by (simp add: flushed_def sl Let_def)
qed

lemma lifts_if: "(\<And>s. length (dbs s) = n \<Longrightarrow> b (core s) = b s) \<Longrightarrow> lifts n F \<Longrightarrow> lifts n G \<Longrightarrow> lifts n (\<lambda>s. if b s then F s else G s)"
  by (auto simp: lifts_def)

lemma lifts_flushed: "lifts n (flushed l al)"
proof -
  have 1: "lifts n (fold (\<lambda>d. upd_db d cleared) l)"
    by (intro lifts_fold lifts_upd_db) (simp add: cleared_def core_db_def fun_eq_iff)
  have sl: "slotToKeyFlush = (\<lambda>s. (s\<lparr>slots_keys_count := (\<lambda>_ _. 0) (slots_keys_count s)\<rparr>)\<lparr>slots_to_keys := (\<lambda>_. {}) (slots_to_keys s)\<rparr>)"
    by (simp add: slotToKeyFlush_def fun_eq_iff)
  have "lifts n slotToKeyFlush" unfolding sl
    using lifts_comp [OF lifts_fields(2) [of n "\<lambda>_. {}"] lifts_fields(3) [of n "\<lambda>_ _. 0"]] by simp
  then have 2: "lifts n (\<lambda>s. if cluster_enabled s then slotToKeyFlush s else s)" by (intro lifts_if lifts_id) simp_all
  have 3: "lifts n (\<lambda>s. if al then flushSlaveKeysWithExpireList s else s)"
    using lifts_fields(5) [of n "\<lambda>_. None"] lifts_id by (cases al) (simp_all add: flushSlaveKeysWithExpireList_def [abs_def])
  show ?thesis unfolding flushed_def Let_def using lifts_comp [OF 3 lifts_comp [OF 2 1]] by simp
qed

lemma lifts_touchOnFlush:
  assumes s: "watch_ok s" "length (dbs s) = n"
  shows "core (touchWatchedKeysOnFlush s dbid) = touchWatchedKeysOnFlush (core s) dbid"
    "prop_ok (touchWatchedKeysOnFlush s dbid) = prop_ok s" "bystander (touchWatchedKeysOnFlush s dbid) c = bystander s c"
    "out (clients (touchWatchedKeysOnFlush s dbid) c) = out (clients s c)"
proof -
  have "flushes dbid (core s) e = flushes dbid s e" for e
  proof -
    have "d_dict (db_of (core s) d) k \<noteq> None \<longleftrightarrow> d_dict (db_of s d) k \<noteq> None" if "(d, k) \<in> set (c_watched_keys (clients s e))" for d k
      using watch_okD(2) [OF s(1) that] by (simp add: core_db_def)
    then show ?thesis unfolding flushes_def by (intro bex_cong) (auto simp: quiet_client_def)
  qed
  then have e: "filter (flushes dbid (core s)) (client_list (core s)) = filter (flushes dbid s) (client_list s)" by (simp cong: filter_cong)
  have "lifts n (fold (\<lambda>c. set_flag c CLIENT_DIRTY_CAS) cs)" for cs by (intro lifts_fold lifts_set_flag) simp
  then show "core (touchWatchedKeysOnFlush s dbid) = touchWatchedKeysOnFlush (core s) dbid"
    "prop_ok (touchWatchedKeysOnFlush s dbid) = prop_ok s" "bystander (touchWatchedKeysOnFlush s dbid) c = bystander s c"
    "out (clients (touchWatchedKeysOnFlush s dbid) c) = out (clients s c)"
    using s(2) unfolding touchOnFlush_fold e by (auto simp: lifts_def)
qed

lemma flushed_sel:
  assumes "\<forall>d \<in> set l. d < length (dbs x)"
  shows "length (dbs (flushed l al x)) = length (dbs x)"
    "dbs (flushed l al x) ! e = (if e \<in> set l then cleared (db_of x e) else db_of x e)"
    "clients (flushed l al x) = clients x" "client_list (flushed l al x) = client_list x" "masterhost (flushed l al x) = masterhost x" "mstime (flushed l al x) = mstime x"
    "loading (flushed l al x) = loading x" "lua_caller (flushed l al x) = lua_caller x"
    "lua_time_start (flushed l al x) = lua_time_start x" "commands (flushed l al x) = commands x"
    "orig_commands (flushed l al x) = orig_commands x" "cluster_enabled (flushed l al x) = cluster_enabled x"
    "maxmemory (flushed l al x) = maxmemory x" "current_client (flushed l al x) = current_client x" "proto_max_bulk_len (flushed l al x) = proto_max_bulk_len x" "also_propagate (flushed l al x) = also_propagate x"
proof -
  obtain ds where ds: "fold (\<lambda>d. upd_db d cleared) l x = x\<lparr>dbs := ds\<rparr>" using fold_cleared [OF assms] by blast
  have l: "length ds = length (dbs x)" "\<And>e. ds ! e = (if e \<in> set l then cleared (db_of x e) else db_of x e)"
    using fold_cleared [OF assms] unfolding ds by simp_all
  show "length (dbs (flushed l al x)) = length (dbs x)"
    "dbs (flushed l al x) ! e = (if e \<in> set l then cleared (db_of x e) else db_of x e)"
    "clients (flushed l al x) = clients x" "client_list (flushed l al x) = client_list x" "masterhost (flushed l al x) = masterhost x" "mstime (flushed l al x) = mstime x"
    "loading (flushed l al x) = loading x" "lua_caller (flushed l al x) = lua_caller x"
    "lua_time_start (flushed l al x) = lua_time_start x" "commands (flushed l al x) = commands x"
    "orig_commands (flushed l al x) = orig_commands x" "cluster_enabled (flushed l al x) = cluster_enabled x"
    "maxmemory (flushed l al x) = maxmemory x" "current_client (flushed l al x) = current_client x" "proto_max_bulk_len (flushed l al x) = proto_max_bulk_len x" "also_propagate (flushed l al x) = also_propagate x"
    using l by (simp_all add: flushed_def ds slotToKeyFlush_def flushSlaveKeysWithExpireList_def Let_def)
qed

lemma idle_flushed: "idle (flushed l al x) = idle x"
proof -
  have f: "idle (fold (\<lambda>d. upd_db d cleared) l x) = idle x" for x
    by (induction l arbitrary: x) (simp_all add: idle_upd_db cleared_def)
  have s: "idle (slotToKeyFlush x) = idle x" "idle (flushSlaveKeysWithExpireList x) = idle x" for x
    by (rule idle_cong; simp add: slotToKeyFlush_def flushSlaveKeysWithExpireList_def)+
  show ?thesis by (simp add: flushed_def f s Let_def)
qed

lemma frame_flushed:
  assumes l: "\<forall>d \<in> set l. d < length (dbs x)" and t: "\<And>d k. d \<in> set l \<Longrightarrow> d_dict (db_of x d) k \<noteq> None \<Longrightarrow> touched x d k"
    and ok: "dbs_ok x"
  shows "frame {} x (flushed l al x)"
proof -
  have "changed_ok x (flushed l al x) d k" if "d < length (dbs x)" for d k
  proof (cases "d \<in> set l \<and> d_dict (db_of x d) k \<noteq> None")
    case True
    then have "touched x d k" using t by blast
    then show ?thesis by (simp add: changed_ok_def touched_def watchers_def flushed_sel [OF l] cleared_def)
  next
    case False
    then have "content (flushed l al x) d k = content x d k"
      using dbs_okD [OF ok that, of k] by (cases "d_expires (db_of x d) k") (auto simp: content_def flushed_sel [OF l] cleared_def has_key_def)
    then show ?thesis by (simp add: changed_ok_def)
  qed
  moreover have "dbs_ok (flushed l al x)" using ok by (auto simp: dbs_ok_def flushed_sel [OF l] cleared_def)
  ultimately show ?thesis by (simp add: frame_def flushed_sel [OF l] cleared_def idle_flushed)
qed

lemma frame_set_flag: "frame {} x (fold (\<lambda>c. set_flag c CLIENT_DIRTY_CAS) cs x)"
proof (induction cs arbitrary: x)
  case (Cons c cs)
  have "frame {} x (set_flag c CLIENT_DIRTY_CAS x)"
    by (auto simp: frame_def set_flag_def upd_cl_def dbs_ok_def same_client_def changed_ok_def content_def idle_def)
  then show ?case using frame_trans [of "{}" x "set_flag c CLIENT_DIRTY_CAS x" "{}"] Cons.IH by simp
qed simp

lemma during_flush:
  assumes d: "during c s0 {} s" and w: "watch_ok s" and i: "case dbid of None \<Rightarrow> True | Some d \<Rightarrow> d < length (dbs s)"
    and l: "l = (case dbid of None \<Rightarrow> [0..<length (dbs s)] | Some d \<Rightarrow> [d])"
  shows "during c s0 {} (flushed l al (touchWatchedKeysOnFlush s dbid))"
proof -
  let ?t = "touchWatchedKeysOnFlush s dbid" and ?u = "touchWatchedKeysOnFlush (core s) dbid"
  note t = lifts_touchOnFlush [OF w refl, of dbid]
  have len: "length (dbs ?t) = length (dbs s)" "length (dbs ?u) = length (dbs s)" unfolding touchOnFlush_fold by (simp_all add: fold_set_flag_sel)
  have f1: "frame {} (core s) ?u" unfolding touchOnFlush_fold by (rule frame_set_flag)
  have ok: "dbs_ok ?u" using f1 duringD(2) [OF d] by (simp add: frame_def)
  have lf: "core (flushed l al ?t) = flushed l al ?u" "prop_ok (flushed l al ?t) = prop_ok s"
    using lifts_flushed [of "length (dbs s)" l al] len t by (simp_all add: lifts_def)
  have wc: "watch_ok (core s)" using w by (rule watch_ok_core)
  have "frame {} ?u (flushed l al ?u)"
  proof (rule frame_flushed [OF _ _ ok])
    show "\<forall>d \<in> set l. d < length (dbs ?u)" using i len by (auto simp: l split: option.splits)
    show "touched ?u d k" if "d \<in> set l" "d_dict (db_of ?u d) k \<noteq> None" for d k
      using that i by (intro touchOnFlush_touched [OF wc]) (auto simp: l touchOnFlush_fold fold_set_flag_sel split: option.splits)
  qed
  from frame_trans [OF frame_trans [OF _ f1] this] show ?thesis using d lf by (auto simp: during_def)
qed

lemma wp_flush:
  assumes d: "during c s0 {} s" and w: "watch_ok s"
  shows "wp (flushdbCommand s c) (during c s0 {})" "wp (flushallCommand s c) (during c s0 {})"
proof -
  have cd: "cdb s c < length (dbs s)" using duringD(3,5) [OF d] by simp
  have fl: "snd (getFlushCommandFlags s c) = s \<or> fst (getFlushCommandFlags s c) = None \<and> during c s0 {} (snd (getFlushCommandFlags s c))"
    using d by (auto simp: getFlushCommandFlags_def)
  have t: "length (dbs (touchWatchedKeysOnFlush s dbid)) = length (dbs s)" "cdb (touchWatchedKeysOnFlush s dbid) c = cdb s c" for dbid
    unfolding touchOnFlush_fold by (simp_all add: fold_set_flag_sel fold_set_flag_clients)
  obtain n where n: "emptyDb (touchWatchedKeysOnFlush s (Some (cdb s c))) (int (cdb s c)) async =
      (n async, flushed [cdb s c] False (touchWatchedKeysOnFlush s (Some (cdb s c))))" for async
    using emptyDb_eq [of "int (cdb s c)" "touchWatchedKeysOnFlush s (Some (cdb s c))"] cd t by (simp, metis)
  obtain m where m: "emptyDb (touchWatchedKeysOnFlush s None) (- 1) async =
      (m async, flushed [0..<length (dbs s)] True (touchWatchedKeysOnFlush s None))" for async
    using emptyDb_eq [of "- 1" "touchWatchedKeysOnFlush s None"] t by (simp, metis)
  have f: "during c s0 {} (flushed [cdb s c] False (touchWatchedKeysOnFlush s (Some (cdb s c))))"
    "during c s0 {} (flushed [0..<length (dbs s)] True (touchWatchedKeysOnFlush s None))"
    using cd by (auto intro!: during_flush [OF d w])
  obtain fl s' where g: "getFlushCommandFlags s c = (fl, s')" by fastforce
  show "wp (flushdbCommand s c) (during c s0 {})" "wp (flushallCommand s c) (during c s0 {})"
    using d fl f unfolding flushdbCommand_def flushallCommand_def g signalFlushedDb_def Let_def
    by (auto simp: wp_def n m t split: option.splits)
qed

subsection \<open>Swapping\<close>

definition swapped :: "nat \<Rightarrow> nat \<Rightarrow> redisServer \<Rightarrow> redisServer" where
  "swapped a b s = s\<lparr>dbs := (dbs s)[a := (db_of s a)\<lparr>d_dict := d_dict (db_of s b), d_expires := d_expires (db_of s b)\<rparr>,
     b := (db_of s b)\<lparr>d_dict := d_dict (db_of s a), d_expires := d_expires (db_of s a)\<rparr>]\<rparr>"

lemma lifts_dbs:
  assumes "\<And>l. length l = n \<Longrightarrow> length (F l) = n \<and> map core_db (F l) = F (map core_db l)"
  shows "lifts n (\<lambda>s. s\<lparr>dbs := F (dbs s)\<rparr>)"
  unfolding lifts_def
proof (intro allI impI)
  fix s :: redisServer
  assume s: "length (dbs s) = n"
  have "core (s\<lparr>dbs := l\<rparr>) = (core s)\<lparr>dbs := map core_db l\<rparr>" for l by (simp add: core_def erase_def quiet_def)
  moreover have "prop_ok (s\<lparr>dbs := F (dbs s)\<rparr>) = prop_ok s" using s assms [OF s] by (simp add: prop_ok_def backlog_holds_def cong: option.case_cong)
  moreover have "bystander (s\<lparr>dbs := F (dbs s)\<rparr>) c = bystander s c" for c by (simp add: bystander_def pubsub_clients_def)
  ultimately show "core (s\<lparr>dbs := F (dbs s)\<rparr>) = (core s)\<lparr>dbs := F (dbs (core s))\<rparr> \<and> prop_ok (s\<lparr>dbs := F (dbs s)\<rparr>) = prop_ok s \<and>
       length (dbs (s\<lparr>dbs := F (dbs s)\<rparr>)) = n \<and>
       (\<forall>c. bystander (s\<lparr>dbs := F (dbs s)\<rparr>) c = bystander s c \<and> out (clients (s\<lparr>dbs := F (dbs s)\<rparr>) c) = out (clients s c))"
    using assms [OF s] by (simp add: out_def)
qed

lemma lifts_swapped:
  assumes "a < n" "b < n"
  shows "lifts n (swapped a b)"
proof -
  have c: "db\<lparr>d_expires := e, d_dict := m\<rparr> = db\<lparr>d_dict := m, d_expires := e\<rparr>" for db :: redisDb and e m by (cases db) simp
  show ?thesis unfolding swapped_def [abs_def] by (rule lifts_dbs) (use assms in \<open>simp add: map_update core_db_def c\<close>)
qed

lemma lifts_scan:
  assumes "d < n"
  shows "lifts n (\<lambda>s. scanDatabaseForReadyLists s d)"
proof -
  define F where "F key s = (case d_dict (db_of s d) key of None \<Rightarrow> s
      | Some v \<Rightarrow> if otype v \<in> {OBJ_LIST, OBJ_STREAM, OBJ_ZSET} then signalKeyAsReady s d key else s)" for key s
  have eq: "scanDatabaseForReadyLists s d = fold F (iter_order s (dom (d_blocking_keys (db_of s d)))) s" for s
    by (auto simp: scanDatabaseForReadyLists_def F_def lookupKey_def fun_eq_iff intro!: fold_cong split: option.splits)
  have "F key = (\<lambda>s. if (\<exists>v. d_dict (db_of s d) key = Some v \<and> otype v \<in> {OBJ_LIST, OBJ_STREAM, OBJ_ZSET}) then signalKeyAsReady s d key else s)" for key
    by (auto simp: F_def fun_eq_iff split: option.split)
  moreover have "lifts n (\<lambda>s. if (\<exists>v. d_dict (db_of s d) key = Some v \<and> otype v \<in> {OBJ_LIST, OBJ_STREAM, OBJ_ZSET}) then signalKeyAsReady s d key else s)" for key
    by (rule lifts_if [OF _ lifts_ready [OF assms] lifts_id]) (use assms in \<open>auto simp: core_db_def core_obj_def otype_def\<close>)
  ultimately have "lifts n (fold F l)" for l by (intro lifts_fold) simp
  then show ?thesis unfolding eq
    by (rule lifts_cases [where b = "\<lambda>s. iter_order s (dom (d_blocking_keys (db_of s d)))", rotated]) (use assms in \<open>simp add: core_db_def\<close>)
qed

lemma frame_ready:
  assumes "d < length (dbs x)"
  shows "frame {} x (signalKeyAsReady x d k)"
proof -
  let ?y = "upd_db d (\<lambda>db. db\<lparr>d_ready_keys := insert k (d_ready_keys db)\<rparr>) (x\<lparr>ready_keys := ready_keys x @ [(d, k)]\<rparr>)"
  have e: "d_dict (db_of ?y e) = d_dict (db_of x e)" "d_expires (db_of ?y e) = d_expires (db_of x e)"
    "d_watched_keys (db_of ?y e) = d_watched_keys (db_of x e)" for e using assms by (auto simp: upd_db_def nth_list_update)
  have "frame {} x ?y" if "\<not> idle x" unfolding frame_def changed_ok_def content_def dbs_ok_def e
    using that by (simp add: upd_db_def)
  then show ?thesis using idle_ready [of x d k] assms by (cases "idle x") (simp_all add: signalKeyAsReady_def)
qed

lemma frame_scan:
  assumes "d < length (dbs x)"
  shows "frame {} x (scanDatabaseForReadyLists x d)"
proof -
  have "frame {} y (fold (\<lambda>key s. let (value, s) = lookupKey s d key True in
       case value of None \<Rightarrow> s | Some v \<Rightarrow> if otype v \<in> {OBJ_LIST, OBJ_STREAM, OBJ_ZSET} then signalKeyAsReady s d key else s) l y)"
    if "d < length (dbs y)" for l y using that
  proof (induction l arbitrary: y)
    case (Cons k l)
    let ?y = "let (value, s) = lookupKey y d k True in
       case value of None \<Rightarrow> s | Some v \<Rightarrow> if otype v \<in> {OBJ_LIST, OBJ_STREAM, OBJ_ZSET} then signalKeyAsReady s d k else s"
    have f: "frame {} y ?y" using frame_ready [OF Cons.prems, of k] by (simp add: lookupKey_def split: option.split)
    then have "d < length (dbs ?y)" using Cons.prems by (simp only: frame_def)
    from frame_trans [OF f Cons.IH [OF this]] show ?case by simp
  qed simp
  from this [OF assms] show ?thesis unfolding scanDatabaseForReadyLists_def .
qed

lemma frame_swapped:
  assumes "a < length (dbs x)" "b < length (dbs x)"
  shows "frame {(d, k). d = a \<or> d = b} x (swapped a b x)"
proof -
  have w: "d_watched_keys (db_of (swapped a b x) d) = d_watched_keys (db_of x d)" for d
    using assms by (auto simp: swapped_def nth_list_update)
  have e: "db_of (swapped a b x) d = db_of x d" if "d \<noteq> a" "d \<noteq> b" for d using that by (simp add: swapped_def)
  have ok: "dbs_ok (swapped a b x)" if "dbs_ok x" using that assms by (auto simp: dbs_ok_def swapped_def nth_list_update)
  have "length (dbs (swapped a b x)) = length (dbs x)" "clients (swapped a b x) = clients x" "client_list (swapped a b x) = client_list x"
    "masterhost (swapped a b x) = masterhost x" "mstime (swapped a b x) = mstime x" "loading (swapped a b x) = loading x"
    "lua_caller (swapped a b x) = lua_caller x" "lua_time_start (swapped a b x) = lua_time_start x"
    "commands (swapped a b x) = commands x" "orig_commands (swapped a b x) = orig_commands x"
    "cluster_enabled (swapped a b x) = cluster_enabled x" "maxmemory (swapped a b x) = maxmemory x" "current_client (swapped a b x) = current_client x" "proto_max_bulk_len (swapped a b x) = proto_max_bulk_len x" "also_propagate (swapped a b x) = also_propagate x" by (simp_all add: swapped_def)
  moreover have "idle (swapped a b x)" if "idle x" using that assms by (auto simp: idle_def swapped_def nth_list_update)
  ultimately show ?thesis using ok by (auto simp: frame_def w changed_ok_def content_def e)
qed

lemma dbSwapDatabases_eq:
  assumes "a < length (dbs s)" "b < length (dbs s)" "a \<noteq> b"
  shows "dbSwapDatabases s (int a) (int b) =
    (True, scanDatabaseForReadyLists (scanDatabaseForReadyLists (swapped a b s) a) b)"
proof -
  have "upd_db b (\<lambda>db. db\<lparr>d_dict := d_dict (db_of s a), d_expires := d_expires (db_of s a)\<rparr>)
     (upd_db a (\<lambda>db. db\<lparr>d_dict := d_dict (db_of s b), d_expires := d_expires (db_of s b)\<rparr>) s) = swapped a b s"
    using assms by (simp add: upd_db_def swapped_def)
  then show ?thesis using assms by (simp add: dbSwapDatabases_def Let_def)
qed

lemma during_lifts:
  assumes d: "during c s0 P s" and F: "lifts (length (dbs s)) F" and f: "frame Q (core s) (F (core s))"
  shows "during c s0 (P \<union> Q) (F s)"
  using d F frame_trans [OF _ f] by (auto simp: during_def lifts_def)

lemma during_swap:
  assumes d: "during c s0 {} s" and s: "dbSwapDatabases s a b = (ok, s')"
  shows "during c s0 {(d, k). d = nat a \<or> d = nat b} s'"
proof (cases "a < 0 \<or> a \<ge> int (length (dbs s)) \<or> b < 0 \<or> b \<ge> int (length (dbs s)) \<or> a = b")
  case True
  then have "dbSwapDatabases s a b = (a = b \<and> 0 \<le> a \<and> a < int (length (dbs s)), s)" by (auto simp: dbSwapDatabases_def Let_def)
  then have "s' = s" using s by simp
  then show ?thesis using during_mono [OF d] by blast
next
  case False
  let ?n = "length (dbs s)" and ?a = "nat a" and ?b = "nat b"
  let ?F = "\<lambda>s. scanDatabaseForReadyLists (scanDatabaseForReadyLists (swapped ?a ?b s) ?a) ?b"
  have l: "?a < ?n" "?b < ?n" "?a \<noteq> ?b" using False by auto
  have "s' = ?F s" using dbSwapDatabases_eq [OF l] s False by simp
  moreover have "lifts ?n ?F" using lifts_comp [OF lifts_scan [OF l(2)] lifts_comp [OF lifts_scan [OF l(1)] lifts_swapped [OF l(1,2)]]] by simp
  moreover have "frame {(d, k). d = ?a \<or> d = ?b} (core s) (?F (core s))"
  proof -
    have l1: "?a < length (dbs (swapped ?a ?b (core s)))" "?b < length (dbs (swapped ?a ?b (core s)))" using l by (simp_all add: swapped_def)
    note f1 = frame_scan [OF l1(1)]
    have l2: "?b < length (dbs (scanDatabaseForReadyLists (swapped ?a ?b (core s)) ?a))" using f1 l1 by (simp add: frame_def)
    have "frame {(d, k). d = ?a \<or> d = ?b} (core s) (swapped ?a ?b (core s))" using l by (intro frame_swapped) simp_all
    from frame_trans [OF frame_trans [OF this f1] frame_scan [OF l2]] show ?thesis by simp
  qed
  ultimately show ?thesis using during_lifts [OF d] by fastforce
qed

lemma wp_swapdb:
  assumes d: "during c s0 {} s"
  shows "\<exists>a b. wp (swapdbCommand s c) (during c s0 {(d, k). d = a \<or> d = b})"
proof -
  define a b where "a = to_int32 (the (string2ll (argv s0 c ! 1)))" and "b = to_int32 (the (string2ll (argv s0 c ! 2)))"
  have sw: "wp (let (ok, s) = dbSwapDatabases s' (to_int32 v) (to_int32 w) in
      if \<not> ok then Some (addReplyError s c msg) else Some (addReply (s\<lparr>dirty := dirty s + 1\<rparr>) c shared_ok))
      (during c s0 {(d, k). d = nat a \<or> d = nat b})"
    if "during c s0 {} s'" "string2ll (argv s0 c ! 1) = Some v" "string2ll (argv s0 c ! 2) = Some w" for s' v w msg
  proof -
    obtain ok s2 where sw: "dbSwapDatabases s' (to_int32 v) (to_int32 w) = (ok, s2)" by fastforce
    have "during c s0 {(d, k). d = nat a \<or> d = nat b} s2" using during_swap [OF that(1) sw] that(2,3) by (simp add: a_def b_def)
    then show ?thesis unfolding sw by (simp add: wp_def del: reply_defs)
  qed
  have "wp (swapdbCommand s c) (during c s0 {(d, k). d = nat a \<or> d = nat b})"
    unfolding swapdbCommand_def using d duringD(3) [OF d]
    by (auto simp: duringD(3-11) [of c s0] simp del: reply_defs Let_def
        intro!: wp_rules run_rules [of c s0 "{}"] sw during_reply intro: during_mono)
  then show ?thesis by blast
qed

subsection \<open>KEYS\<close>

definition keys_select :: "redisServer \<Rightarrow> nat \<Rightarrow> bytes \<Rightarrow> bytes list" where
  "keys_select s d pat =
     filter (\<lambda>k. \<not> expired s d k \<and> ((\<exists>r. pat @ [0] = 42 # 0 # r) \<or> glob_decides False pat k)) (iter_order s (dom (d_dict (db_of s d))))"

lemma reply_bulks_frame: "quiet (fold (\<lambda>k s. reply_bulk s c k) ks s) = quiet s"
  by (induction ks arbitrary: s) (simp_all add: reply_bulk_def)

lemma reply_bulks_strings:
  "\<exists>strs. fold (\<lambda>k s. reply_bulk s c k) ks s = fold (\<lambda>x s. addReplyString s c x) strs s \<and> concat strs = concat (map bulk ks)"
proof (induction ks arbitrary: s)
  case (Cons k ks)
  obtain strs where "fold (\<lambda>k s. reply_bulk s c k) ks (reply_bulk s c k) = fold (\<lambda>x s. addReplyString s c x) strs (reply_bulk s c k)"
    "concat strs = concat (map bulk ks)" using Cons by blast
  then show ?case by (intro exI [of _ "[item ''$'' (of_nat (length k)), k, crlf] @ strs"]) (simp add: bulk_def [of k] reply_bulk_def)
next
  case Nil
  show ?case by (intro exI [of _ "[]"]) simp
qed

lemma keys_loop:
  assumes ok: "dbs_ok s" "d < length (dbs s)"
    and "quiet s' = quiet s" "cdb s c = d" "ks = filter (\<lambda>k. \<not> expired s d k \<and> (allkeys \<or> glob_decides False pat k)) l"
  shows "foldM (\<lambda>key (numkeys, s).
             do { m \<leftarrow> (if allkeys then Some True else stringmatchlen (pat @ [0]) (int (length pat)) key False);
                  if m then
                    do { e \<leftarrow> keyIsExpired s (cdb s c) key;
                         if \<not> e then
                           do { s \<leftarrow> addReplyBulkObj s c (createStringObject s key); Some (numkeys + 1, s) }
                         else Some (numkeys, s) }
                  else Some (numkeys, s) }) l (n, s') =
         Some (n + length ks, fold (\<lambda>k s. reply_bulk s c k) ks s')"
  using assms(3-5)
proof (induction l arbitrary: s' n ks)
  case (Cons k l)
  have q: "dbs s' = dbs s" "cdb s' c = d" "now s' = now s" "loading s' = loading s"
    using quiet_fields [OF Cons.prems(1)] quiet_client_fields [OF quiet_clients [OF Cons.prems(1)], of c] Cons.prems(2) by (simp_all add: now_def)
  have ex: "keyIsExpired s' (cdb s' c) k = Some (expired s d k)"
    using keyIsExpired_eq [of s' d k] ok q by (simp add: dbs_ok_def expired_def cong: option.case_cong)
  have m: "(if allkeys then Some True else stringmatchlen (pat @ [0]) (int (length pat)) k False) = Some (allkeys \<or> glob_decides False pat k)"
    using stringmatchlen_at_spec [of 0 pat False k] by (simp add: stringmatchlen_def)
  have b: "addReplyBulkObj s' c (createStringObject s' k) = Some (reply_bulk s' c k)"
    by (simp add: addReplyBulkObj_eq str_of_sval ptr_createStringObject)
  have "quiet (reply_bulk s' c k) = quiet s" using Cons.prems(1) by (simp add: reply_bulk_def)
  then show ?case using Cons.IH [OF _ Cons.prems(2) refl] Cons.prems by (auto simp: ex m b simp del: reply_defs)
qed simp

lemma addReplyString_deferred_any:
  assumes d: "deferred (clients s c) ln pre post"
  shows "\<exists>post'. deferred (clients (addReplyString s c str) c) ln pre post'"
proof (cases "takes_output (clients s c)")
  case True
  then show ?thesis using addReplyString_deferred [OF d] by blast
next
  case False
  then have "c_reply (clients (addReplyString s c str) c) = c_reply (clients s c)" "c_buf (clients (addReplyString s c str) c) = c_buf (clients s c)"
    using prepare_frame(4,5,6) [of s c] prepare_buffers [of s c]
    by (auto simp: addReplyString_def u_addReplyToBuffer_def Let_def split: prod.split)
  then show ?thesis using d by (simp add: deferred_def)
qed

lemma reply_strings_deferred:
  "deferred (clients s c) ln pre post \<Longrightarrow> \<exists>post'. deferred (clients (fold (\<lambda>x s. addReplyString s c x) strs s) c) ln pre post'"
proof (induction strs arbitrary: s post)
  case (Cons x strs)
  then show ?case using addReplyString_deferred_any [OF Cons.prems, of x] by auto
qed auto

lemma fold_reply_other: "e \<noteq> c \<Longrightarrow> clients (fold (\<lambda>x s. addReplyString s c x) strs s) e = clients s e"
  by (induction strs arbitrary: s) simp_all

lemma keysCommand_run:
  assumes ok: "dbs_ok s" "cdb s c < length (dbs s)" and pat: "pat = argv s c ! 1"
  shows "\<exists>s'. keysCommand s c = Some s' \<and> quiet s' = quiet s \<and> (\<forall>e. e \<noteq> c \<longrightarrow> clients s' e = clients s e) \<and>
    (takes_output (clients s c) \<longrightarrow> out (clients s' c) = out (clients s c) @ lit ''*'' @ dec (length (keys_select s (cdb s c) pat)) @ crlf @
       concat (map bulk (keys_select s (cdb s c) pat)))"
proof -
  let ?ks = "keys_select s (cdb s c) pat"
  obtain node s1 where n: "addDeferredMultiBulkLength s c = (node, s1)" by fastforce
  have q1: "quiet s1 = quiet s" "\<forall>e. e \<noteq> c \<longrightarrow> clients s1 e = clients s e"
    using prepare_frame [where s = s and c = c] quiet_upd_cl [of "\<lambda>cl. cl\<lparr>c_reply := c_reply cl @ [None]\<rparr>"] n
    by (auto simp: addDeferredMultiBulkLength_def quiet_client_def split: prod.splits if_splits)
  let ?s2 = "fold (\<lambda>k s. reply_bulk s c k) ?ks s1"
  have al: "(case pat @ [0] of p0 # p1 # _ \<Rightarrow> p0 = 42 \<and> p1 = 0 | _ \<Rightarrow> False) = (\<exists>r. pat @ [0] = 42 # 0 # r)"
    by (auto split: list.split)
  have it: "iter_order s1 (dom (d_dict (db_of s1 (cdb s1 c)))) = iter_order s (dom (d_dict (db_of s (cdb s c))))"
    using quiet_fields [OF q1(1)] quiet_client_fields [OF quiet_clients [OF q1(1)], of c] by simp
  have k: "keysCommand s c = setDeferredMultiBulkLength ?s2 c node (length ?ks)"
    unfolding keysCommand_def n Let_def prod.case pat [symmetric] al it
    using keys_loop [OF ok q1(1) refl refl] by (simp add: keys_select_def)
  obtain strs where strs: "?s2 = fold (\<lambda>x s. addReplyString s c x) strs s1" "concat strs = concat (map bulk ?ks)"
    using reply_bulks_strings [of c ?ks s1] by blast
  have q2: "quiet ?s2 = quiet s" "\<forall>e. e \<noteq> c \<longrightarrow> clients ?s2 e = clients s e"
    using reply_bulks_frame [of c ?ks s1] fold_reply_other [of _ c strs s1] q1 strs(1) by simp_all
  show ?thesis
  proof (cases node)
    case None
    then have "\<not> takes_output (clients s c)" using n addDeferred_frame [of s c] by auto
    then show ?thesis using k None q2 by (auto simp: setDeferredMultiBulkLength_def)
  next
    case (Some ln)
    have d: "deferred (clients s1 c) ln (out (clients s c)) []"
      using n Some prepare_frame(3,4) [of s c] prepare_buffers [of s c]
      by (auto simp: addDeferredMultiBulkLength_def deferred_def out_blocks split: prod.splits if_splits)
    obtain post where "deferred (clients ?s2 c) ln (out (clients s c)) post" using reply_strings_deferred [OF d, of strs] strs(1) by auto
    moreover have "deferred (clients ?s2 c) ln (out (clients s c)) (concat (map bulk ?ks))" if "takes_output (clients s c)"
      using addReplyStrings_deferred [OF d, of strs] that takes_output_quiet [OF quiet_clients [OF q1(1)], of c] strs by simp
    ultimately show ?thesis using setDeferred_frame [of ?s2 c ln "out (clients s c)"] k Some q2 by (simp, metis)
  qed
qed

lemma wp_keys:
  assumes d: "during c s0 P s"
  shows "wp (keysCommand s c) (during c s0 P)"
  using keysCommand_run [OF duringD(2) [OF d], of c] duringD(3,5) [OF d] during_quiet [OF d] by (auto simp: wp_def)

section \<open>Properties\<close>



text \<open>C20: \<open>SELECT\<close> keeps only 32 bits of its argument.  Outside cluster mode \<open>SELECT n\<close> of any 64 bit integer whose low 32
  bits are the number of a database selects that database and replies \<open>+OK\<close>, also for indexes such as
  \<open>4294967296\<close> that are out of range.\<close>

theorem select_truncates:
  assumes a: "argv s c = [a0, decimal n]" and c: "\<not> cluster_enabled s" and t: "takes_output (clients s c)"
    and n: "sint n mod 2 ^ 32 < int (length (dbs s))" "length (dbs s) < 2 ^ 31"
  shows "\<exists>s'. selectCommand s c = Some s' \<and> cdb s' c = nat (sint n mod 2 ^ 32) \<and> dbs s' = dbs s \<and>
    out (clients s' c) = out (clients s c) @ lit ''+OK'' @ crlf"
proof -
  let ?d = "sint n mod 2 ^ 32"
  have "((x + 9223372036854775808) mod 18446744073709551616 - 9223372036854775808) mod 4294967296 = x mod (4294967296 :: int)" for x
  proof -
    have "((x + 9223372036854775808) mod 18446744073709551616 - 9223372036854775808) mod 4294967296 =
        (((x + 9223372036854775808) mod 18446744073709551616) mod 4294967296 - 9223372036854775808) mod (4294967296 :: int)"
      by (simp only: mod_diff_left_eq)
    also have "\<dots> = (x + 9223372036854775808 - 9223372036854775808) mod 4294967296" by (subst mod_mod_cancel) (simp_all only: mod_diff_left_eq, simp)
    finally show ?thesis by simp
  qed
  then have "uint (ucast n :: u32) = ?d"
    by (simp add: unsigned_ucast_eq take_bit_eq_mod uint_word_of_int_eq sint_uint signed_take_bit_eq_take_bit_shift)
  then have d: "to_int32 n = ?d"
    using n by (simp add: to_int32_def sint_uint signed_take_bit_eq_take_bit_shift take_bit_eq_mod)
  have [simp]: "out ((clients s c)\<lparr>c_db := e\<rparr>) = out (clients s c)" "takes_output ((clients s c)\<lparr>c_db := e\<rparr>) = takes_output (clients s c)" for e
    by (simp_all add: out_def takes_output_def)
  have "\<not> ?d < 0" by (simp add: not_less)
  then show ?thesis using assms d
    by (simp add: selectCommand_def getLong_arg selectDb_def upd_cl_def shared_ok_def)
qed

theorem select_truncates_witness:
  "\<exists>s'. selectCommand (fresh [lit ''select'', decimal 4294967297]) 0 = Some s' \<and> cdb s' 0 = 1 \<and> out (clients s' 0) = lit ''+OK'' @ crlf"
proof -
  have "\<not> cluster_enabled (fresh av)" for av by (simp add: fresh_def init_server_def)
  then show ?thesis using select_truncates [of "fresh [lit ''select'', decimal 4294967297]" 0 "lit ''select''" 4294967297] by auto
qed

end
