(* ===== verification/Call.thy ===== *)
theory Call
  imports GenericSafe
begin

text \<open>The slow log (\<open>slowlog.c\<close>), latency samples (\<open>latency.c\<close>) and \<open>call\<close> (\<open>server.c\<close>), the function every command
  is run by: monitors, propagation flags, the command itself, the logs, the statistics, and what goes to the
  append only file and to the replicas.  How long a command takes is the field \<open>cmd_duration\<close>.\<close>

section \<open>The slow log\<close>

definition SLOWLOG_ENTRY_MAX_ARGC :: nat where "SLOWLOG_ENTRY_MAX_ARGC = 32"
definition SLOWLOG_ENTRY_MAX_STRING :: nat where "SLOWLOG_ENTRY_MAX_STRING = 128"

definition slowlog_arg :: "bytes \<Rightarrow> bytes" where
  "slowlog_arg a =
     (if length a > SLOWLOG_ENTRY_MAX_STRING
      then take SLOWLOG_ENTRY_MAX_STRING a @ lit ''... ('' @ dec (length a - SLOWLOG_ENTRY_MAX_STRING) @ lit '' more bytes)''
      else a)"

definition slowlogCreateEntry :: "redisServer \<Rightarrow> nat \<Rightarrow> bytes list \<Rightarrow> int \<Rightarrow> slowlogEntry \<times> redisServer" where
  "slowlogCreateEntry s c av duration =
     (let argc = length av;
          slargc = (if argc > SLOWLOG_ENTRY_MAX_ARGC then SLOWLOG_ENTRY_MAX_ARGC else argc);
          args = map (\<lambda>j. if slargc \<noteq> argc \<and> j = slargc - 1
                          then lit ''... ('' @ dec (argc - slargc + 1) @ lit '' more arguments)''
                          else slowlog_arg (av ! j)) [0..<slargc] in
      (\<lparr>se_id = slowlog_entry_id s, se_time = unixtime s, se_duration = duration, se_argv = args,
        se_peerid = c_peerid (clients s c),
        se_cname = (case c_name (clients s c) of Some n \<Rightarrow> cstr n | None \<Rightarrow> [])\<rparr>,
       s\<lparr>slowlog_entry_id := slowlog_entry_id s + 1\<rparr>))"

text \<open>The loop that drops the oldest entries.\<close>

function slowlog_trim :: "nat \<Rightarrow> slowlogEntry list \<Rightarrow> slowlogEntry list" where
  "slowlog_trim n l = (if length l > n then slowlog_trim n (butlast l) else l)"
  by pat_completeness auto
termination by (relation "measure (\<lambda>(n, l). length l)") auto

declare slowlog_trim.simps [simp del]

definition slowlogPushEntryIfNeeded :: "redisServer \<Rightarrow> nat \<Rightarrow> bytes list \<Rightarrow> int \<Rightarrow> redisServer" where
  "slowlogPushEntryIfNeeded s c av duration =
     (if slowlog_log_slower_than s < 0 then s
      else
        let s = (if duration \<ge> slowlog_log_slower_than s
                 then let (se, s) = slowlogCreateEntry s c av duration in s\<lparr>slowlog := se # slowlog s\<rparr>
                 else s) in
        s\<lparr>slowlog := slowlog_trim (slowlog_max_len s) (slowlog s)\<rparr>)"

definition slowlogReset :: "redisServer \<Rightarrow> redisServer" where
  "slowlogReset s = s\<lparr>slowlog := slowlog_trim 0 (slowlog s)\<rparr>"

section \<open>Latency samples\<close>

definition LATENCY_TS_LEN :: nat where "LATENCY_TS_LEN = 160"

definition latencyAddSample :: "redisServer \<Rightarrow> string \<Rightarrow> int \<Rightarrow> redisServer" where
  "latencyAddSample s event latency =
     (let ts = (case latency_events s event of
                  None \<Rightarrow> \<lparr>ts_idx = 0, ts_max = 0, ts_samples = replicate LATENCY_TS_LEN (0, 0)\<rparr>
                | Some ts \<Rightarrow> ts);
          ts = (if latency > uint (ts_max ts) then ts\<lparr>ts_max := of_int latency\<rparr> else ts);
          prev = (ts_idx ts + LATENCY_TS_LEN - 1) mod LATENCY_TS_LEN;
          (ptime, plat) = ts_samples ts ! prev;
          ts = (if sint ptime = unixtime s then
                  (if latency > uint plat then ts\<lparr>ts_samples := (ts_samples ts)[prev := (ptime, of_int latency)]\<rparr> else ts)
                else
                  let idx = ts_idx ts + 1 in
                  ts\<lparr>ts_samples := (ts_samples ts)[ts_idx ts := (of_int (unixtime s), of_int latency)],
                     ts_idx := (if idx = LATENCY_TS_LEN then 0 else idx)\<rparr>) in
      s\<lparr>latency_events := (latency_events s)(event \<mapsto> ts)\<rparr>)"

definition latencyAddSampleIfNeeded :: "redisServer \<Rightarrow> string \<Rightarrow> int \<Rightarrow> redisServer" where
  "latencyAddSampleIfNeeded s event var =
     (if latency_monitor_threshold s \<noteq> 0 \<and> var \<ge> latency_monitor_threshold s then latencyAddSample s event var else s)"

section \<open>call\<close>

definition CMD_CALL_PROPAGATE :: "callflag set" where
  "CMD_CALL_PROPAGATE = {CMD_CALL_PROPAGATE_AOF, CMD_CALL_PROPAGATE_REPL}"

definition CMD_CALL_FULL :: "callflag set" where
  "CMD_CALL_FULL = {CMD_CALL_SLOWLOG, CMD_CALL_STATS} \<union> CMD_CALL_PROPAGATE"

definition CLIENT_PREVENT_PROP :: "cflag set" where
  "CLIENT_PREVENT_PROP = {CLIENT_PREVENT_AOF_PROP, CLIENT_PREVENT_REPL_PROP}"

definition prop_flags :: "cflag set" where
  "prop_flags = {CLIENT_FORCE_AOF, CLIENT_FORCE_REPL} \<union> CLIENT_PREVENT_PROP"

text \<open>The parts of \<open>call\<close>: what comes before the command, the logs and statistics, and the propagation.\<close>

definition call_before :: "redisServer \<Rightarrow> nat \<Rightarrow> redisCommand \<Rightarrow> redisServer" where
  "call_before s c cmd =
     (let s = (if monitors s \<noteq> [] \<and> \<not> loading s \<and> cm_flags cmd \<inter> {CMD_SKIP_MONITOR, CMD_ADMIN} = {}
               then replicationFeedMonitors s c (c_db (clients s c)) (argv s c) else s);
          s = clear_flags c prop_flags s in
      s\<lparr>also_propagate := []\<rparr>)"

definition call_stats :: "redisServer \<Rightarrow> nat \<Rightarrow> redisCommand \<Rightarrow> redisCommand \<Rightarrow> callflag set \<Rightarrow> redisServer" where
  "call_stats s c real_cmd cmd fl =
     (let fl = (if loading s \<and> CLIENT_LUA \<in> flags s c then fl - {CMD_CALL_SLOWLOG, CMD_CALL_STATS} else fl);
          s = (case lua_caller s of
                 Some lc \<Rightarrow>
                   if CLIENT_LUA \<in> flags s c then
                     let s' = (if CLIENT_FORCE_REPL \<in> flags s c then set_flag lc CLIENT_FORCE_REPL s else s) in
                     if CLIENT_FORCE_AOF \<in> flags s c then set_flag lc CLIENT_FORCE_AOF s' else s'
                   else s
               | None \<Rightarrow> s);
          s = (if CMD_CALL_SLOWLOG \<in> fl \<and> proc cmd \<noteq> ''execCommand'' then
                 let s = latencyAddSampleIfNeeded s (if CMD_FAST \<in> cm_flags cmd then ''fast-command'' else ''command'')
                           (cmd_duration s sdiv 1000) in
                 slowlogPushEntryIfNeeded s c (argv s c) (cmd_duration s)
               else s) in
      if CMD_CALL_STATS \<in> fl then
        let (us, calls) = cmd_stats s (cm_name real_cmd) in
        s\<lparr>cmd_stats := (cmd_stats s)(cm_name real_cmd := (us + cmd_duration s, calls + 1))\<rparr>
      else s)"

definition call_propagate_flags :: "redisServer \<Rightarrow> nat \<Rightarrow> int \<Rightarrow> callflag set \<Rightarrow> pflag set" where
  "call_propagate_flags s c dirt fl =
     (let pf = (if dirt \<noteq> 0 then {PROPAGATE_AOF, PROPAGATE_REPL} else {});
          pf = (if CLIENT_FORCE_REPL \<in> flags s c then insert PROPAGATE_REPL pf else pf);
          pf = (if CLIENT_FORCE_AOF \<in> flags s c then insert PROPAGATE_AOF pf else pf);
          pf = (if CLIENT_PREVENT_REPL_PROP \<in> flags s c \<or> CMD_CALL_PROPAGATE_REPL \<notin> fl then pf - {PROPAGATE_REPL} else pf) in
      if CLIENT_PREVENT_AOF_PROP \<in> flags s c \<or> CMD_CALL_PROPAGATE_AOF \<notin> fl then pf - {PROPAGATE_AOF} else pf)"

definition call_propagate :: "redisServer \<Rightarrow> nat \<Rightarrow> redisCommand \<Rightarrow> int \<Rightarrow> callflag set \<Rightarrow> redisServer option" where
  "call_propagate s c cmd dirt fl =
     (if fl \<inter> CMD_CALL_PROPAGATE \<noteq> {} \<and> \<not> CLIENT_PREVENT_PROP \<subseteq> flags s c then
        let pf = call_propagate_flags s c dirt fl in
        if pf \<noteq> {} \<and> CMD_MODULE \<notin> cm_flags cmd
        then propagate s cmd (int (c_db (clients s c))) (argv s c) pf else Some s
      else Some s)"

definition call_also_propagate :: "redisServer \<Rightarrow> callflag set \<Rightarrow> redisServer option" where
  "call_also_propagate s fl =
     (if fl \<inter> CMD_CALL_PROPAGATE \<noteq> {} then
        foldM (\<lambda>rop s.
          let target = op_target rop;
              target = (if CMD_CALL_PROPAGATE_AOF \<notin> fl then target - {PROPAGATE_AOF} else target);
              target = (if CMD_CALL_PROPAGATE_REPL \<notin> fl then target - {PROPAGATE_REPL} else target) in
          if target \<noteq> {} then propagate s (op_cmd rop) (op_dbid rop) (op_argv rop) target else Some s)
          (also_propagate s) s
      else Some s)"

text \<open>\<open>call\<close>, given the functions behind the \<open>proc\<close> pointers of the command table.\<close>

definition call_with :: "(string \<Rightarrow> redisServer \<Rightarrow> nat \<Rightarrow> redisServer option) \<Rightarrow> redisServer \<Rightarrow> nat \<Rightarrow> callflag set \<Rightarrow> redisServer option" where
  "call_with procs s c fl =
     (case c_cmd (clients s c) of
        None \<Rightarrow> None
      | Some real_cmd \<Rightarrow>
          let client_old_flags = flags s c; prev = also_propagate s;
              s = call_before s c real_cmd; dirty0 = dirty s in
          do { s \<leftarrow> procs (proc real_cmd) s c;
               cmd \<leftarrow> c_cmd (clients s c);
               let dirt = (if dirty s - dirty0 < 0 then 0 else dirty s - dirty0);
                   s = call_stats s c real_cmd cmd fl in
               do { s \<leftarrow> call_propagate s c cmd dirt fl;
                    let s = upd_cl c (\<lambda>cl. cl\<lparr>c_flags := c_flags cl - prop_flags \<union> client_old_flags \<inter> prop_flags\<rparr>) s in
                    do { s \<leftarrow> call_also_propagate s fl;
                         Some (s\<lparr>also_propagate := prev, stat_numcommands := stat_numcommands s + 1\<rparr>) } } })"

end
