(* ===== verification/Multi.thy ===== *)
theory Multi
  imports Call
begin

text \<open>Transactions and optimistic locking (\<open>multi.c\<close>).  \<open>execCommand\<close> takes the functions behind the commands it
  runs as an argument, since it is one of them itself; \<open>EXEC\<close> is never among the queued commands.\<close>

section \<open>Watched keys\<close>

definition watchForKey :: "redisServer \<Rightarrow> nat \<Rightarrow> bytes \<Rightarrow> redisServer" where
  "watchForKey s c key =
     (let d = c_db (clients s c) in
      if (d, key) \<in> set (c_watched_keys (clients s c)) then s
      else
        let cs = (case d_watched_keys (db_of s d) key of None \<Rightarrow> [] | Some cs \<Rightarrow> cs);
            s = upd_db d (\<lambda>db. db\<lparr>d_watched_keys := (d_watched_keys db)(key \<mapsto> cs @ [c])\<rparr>) s in
        upd_cl c (\<lambda>cl. cl\<lparr>c_watched_keys := c_watched_keys cl @ [(d, key)]\<rparr>) s)"

text \<open>The clients of a watched key are asserted to be there, and the client is deleted from them; one that
  is not among them would be a null pointer.\<close>

definition unwatchKey :: "nat \<Rightarrow> nat \<times> bytes \<Rightarrow> redisServer \<Rightarrow> redisServer option" where
  "unwatchKey c wk s =
     (let (d, key) = wk in
      case d_watched_keys (db_of s d) key of
        None \<Rightarrow> None
      | Some cs \<Rightarrow>
          if c \<notin> set cs then None
          else
            let cs = remove1 c cs;
                s = upd_db d (\<lambda>db. db\<lparr>d_watched_keys := (d_watched_keys db)(key := if cs = [] then None else Some cs)\<rparr>) s in
            Some (upd_cl c (\<lambda>cl. cl\<lparr>c_watched_keys := remove1 wk (c_watched_keys cl)\<rparr>) s))"

definition unwatchAllKeys :: "redisServer \<Rightarrow> nat \<Rightarrow> redisServer option" where
  "unwatchAllKeys s c = foldM (unwatchKey c) (c_watched_keys (clients s c)) s"

definition watchCommand :: "redisServer \<Rightarrow> nat \<Rightarrow> redisServer option" where
  "watchCommand s c =
     (if CLIENT_MULTI \<in> flags s c then Some (addReplyError s c ''WATCH inside MULTI is not allowed'')
      else
        let s = fold (\<lambda>key s. watchForKey s c key) (tl (argv s c)) s in
        Some (addReply s c shared_ok))"

definition unwatchCommand :: "redisServer \<Rightarrow> nat \<Rightarrow> redisServer option" where
  "unwatchCommand s c =
     do { s \<leftarrow> unwatchAllKeys s c;
          let s = clear_flags c {CLIENT_DIRTY_CAS} s in
          Some (addReply s c shared_ok) }"

section \<open>Transactions\<close>

definition initClientMultiState :: "client \<Rightarrow> client" where
  "initClientMultiState cl = cl\<lparr>c_commands := [], c_mstate_cmd_flags := {}\<rparr>"

definition queueMultiCommand :: "redisServer \<Rightarrow> nat \<Rightarrow> redisServer option" where
  "queueMultiCommand s c =
     do { cmd \<leftarrow> c_cmd (clients s c);
          Some (upd_cl c (\<lambda>cl. cl\<lparr>c_commands := c_commands cl @ [\<lparr>mc_argv = c_argv cl, mc_cmd = cmd\<rparr>],
                                  c_mstate_cmd_flags := c_mstate_cmd_flags cl \<union> cm_flags cmd\<rparr>) s) }"

definition discardTransaction :: "redisServer \<Rightarrow> nat \<Rightarrow> redisServer option" where
  "discardTransaction s c =
     (let s = upd_cl c initClientMultiState s;
          s = clear_flags c {CLIENT_MULTI, CLIENT_DIRTY_CAS, CLIENT_DIRTY_EXEC} s in
      unwatchAllKeys s c)"

definition flagTransaction :: "redisServer \<Rightarrow> nat \<Rightarrow> redisServer" where
  "flagTransaction s c = (if CLIENT_MULTI \<in> flags s c then set_flag c CLIENT_DIRTY_EXEC s else s)"

definition multiCommand :: "redisServer \<Rightarrow> nat \<Rightarrow> redisServer option" where
  "multiCommand s c =
     (if CLIENT_MULTI \<in> flags s c then Some (addReplyError s c ''MULTI calls can not be nested'')
      else Some (addReply (set_flag c CLIENT_MULTI s) c shared_ok))"

definition discardCommand :: "redisServer \<Rightarrow> nat \<Rightarrow> redisServer option" where
  "discardCommand s c =
     (if CLIENT_MULTI \<notin> flags s c then Some (addReplyError s c ''DISCARD without MULTI'')
      else
        do { s \<leftarrow> discardTransaction s c;
             Some (addReply s c shared_ok) })"

text \<open>\<open>server.multiCommand\<close> is the entry of \<open>MULTI\<close> in the original command table.\<close>

definition execCommandPropagateMulti :: "redisServer \<Rightarrow> nat \<Rightarrow> redisServer option" where
  "execCommandPropagateMulti s c =
     do { multi \<leftarrow> orig_commands s (lit ''multi'');
          propagate s multi (int (c_db (clients s c))) [lit ''MULTI''] {PROPAGATE_AOF, PROPAGATE_REPL} }"

text \<open>One round of the loop over the queue; the flag tells whether \<open>MULTI\<close> was propagated.\<close>

definition exec_round :: "(string \<Rightarrow> redisServer \<Rightarrow> nat \<Rightarrow> redisServer option) \<Rightarrow> nat \<Rightarrow> nat \<Rightarrow> bool \<times> redisServer \<Rightarrow>
    (bool \<times> redisServer) option" where
  "exec_round procs c j st =
     (let (must_propagate, s) = st; mc = c_commands (clients s c) ! j;
          s = upd_cl c (\<lambda>cl. cl\<lparr>c_argv := mc_argv mc, c_cmd := Some (mc_cmd mc)\<rparr>) s in
      do { (must_propagate, s) \<leftarrow>
             (if \<not> must_propagate \<and> cm_flags (mc_cmd mc) \<inter> {CMD_READONLY, CMD_ADMIN} = {}
              then do { s \<leftarrow> execCommandPropagateMulti s c; Some (True, s) }
              else Some (must_propagate, s));
           s \<leftarrow> call_with procs s c (if loading s then {} else CMD_CALL_FULL);
           cmd \<leftarrow> c_cmd (clients s c);
           Some (must_propagate, upd_cl c (\<lambda>cl. cl\<lparr>c_commands := (c_commands cl)[j := \<lparr>mc_argv = c_argv cl, mc_cmd = cmd\<rparr>]\<rparr>) s) })"

definition exec_monitor :: "redisServer \<Rightarrow> nat \<Rightarrow> redisServer" where
  "exec_monitor s c =
     (if monitors s \<noteq> [] \<and> \<not> loading s then replicationFeedMonitors s c (c_db (clients s c)) (argv s c) else s)"

definition execCommand :: "(string \<Rightarrow> redisServer \<Rightarrow> nat \<Rightarrow> redisServer option) \<Rightarrow> redisServer \<Rightarrow> nat \<Rightarrow> redisServer option" where
  "execCommand procs s c =
     (let was_master = (masterhost s = None) in
      if CLIENT_MULTI \<notin> flags s c then Some (addReplyError s c ''EXEC without MULTI'')
      else if CLIENT_DIRTY_CAS \<in> flags s c \<or> CLIENT_DIRTY_EXEC \<in> flags s c then
        let s = addReply s c (if CLIENT_DIRTY_EXEC \<in> flags s c then shared_execaborterr else shared_nullmultibulk) in
        do { s \<leftarrow> discardTransaction s c; Some (exec_monitor s c) }
      else if \<not> loading s \<and> masterhost s \<noteq> None \<and> repl_slave_ro s \<and> CLIENT_MASTER \<notin> flags s c \<and>
              CMD_WRITE \<in> c_mstate_cmd_flags (clients s c) then
        let s = addReplyError s c ''Transaction contains write commands but instance is now a read-only slave. EXEC aborted.'' in
        do { s \<leftarrow> discardTransaction s c; Some (exec_monitor s c) }
      else
        do { s \<leftarrow> unwatchAllKeys s c;
             let orig_argv = argv s c; orig_cmd = c_cmd (clients s c); count = length (c_commands (clients s c)) in
             do { s \<leftarrow> addReplyMultiBulkLen s c count;
                  (must_propagate, s) \<leftarrow> foldM (exec_round procs c) [0..<count] (False, s);
                  let s = upd_cl c (\<lambda>cl. cl\<lparr>c_argv := orig_argv, c_cmd := orig_cmd\<rparr>) s in
                  do { s \<leftarrow> discardTransaction s c;
                       s \<leftarrow> (if must_propagate then
                               let is_master = (masterhost s = None); s = s\<lparr>dirty := dirty s + 1\<rparr> in
                               if repl_backlog s \<noteq> None \<and> was_master \<and> \<not> is_master
                               then feedReplicationBacklog s (lit ''*1'' @ crlf @ lit ''$4'' @ crlf @ lit ''EXEC'' @ crlf)
                               else Some s
                             else Some s);
                       Some (exec_monitor s c) } } })"

end
