(* ===== verification/Server.thy ===== *)
theory Server
  imports Multi
begin

text \<open>The command table and \<open>processCommand\<close> (\<open>server.c\<close>): every check a request goes through before it is queued or
  run.  Commands whose functions are not modelled, cluster redirection and eviction under \<open>maxmemory\<close> are
  outside of the model, as is waking up blocked clients, which no modelled command leaves to do; there
  the functions are \<open>None\<close>.\<close>

section \<open>The command table\<close>

text \<open>Name, function, arity, flags as a string, function for the keys, first key, last key, step.\<close>

definition redisCommandTable :: "(string \<times> string \<times> int \<times> string \<times> string option \<times> int \<times> int \<times> int) list" where
  "redisCommandTable =
     [(''module'', ''moduleCommand'', - 2, ''as'', None, 0, 0, 0),
      (''get'', ''getCommand'', 2, ''rF'', None, 1, 1, 1),
      (''set'', ''setCommand'', - 3, ''wm'', None, 1, 1, 1),
      (''setnx'', ''setnxCommand'', 3, ''wmF'', None, 1, 1, 1),
      (''setex'', ''setexCommand'', 4, ''wm'', None, 1, 1, 1),
      (''psetex'', ''psetexCommand'', 4, ''wm'', None, 1, 1, 1),
      (''append'', ''appendCommand'', 3, ''wm'', None, 1, 1, 1),
      (''strlen'', ''strlenCommand'', 2, ''rF'', None, 1, 1, 1),
      (''del'', ''delCommand'', - 2, ''w'', None, 1, - 1, 1),
      (''unlink'', ''unlinkCommand'', - 2, ''wF'', None, 1, - 1, 1),
      (''exists'', ''existsCommand'', - 2, ''rF'', None, 1, - 1, 1),
      (''setbit'', ''setbitCommand'', 4, ''wm'', None, 1, 1, 1),
      (''getbit'', ''getbitCommand'', 3, ''rF'', None, 1, 1, 1),
      (''bitfield'', ''bitfieldCommand'', - 2, ''wm'', None, 1, 1, 1),
      (''setrange'', ''setrangeCommand'', 4, ''wm'', None, 1, 1, 1),
      (''getrange'', ''getrangeCommand'', 4, ''r'', None, 1, 1, 1),
      (''substr'', ''getrangeCommand'', 4, ''r'', None, 1, 1, 1),
      (''incr'', ''incrCommand'', 2, ''wmF'', None, 1, 1, 1),
      (''decr'', ''decrCommand'', 2, ''wmF'', None, 1, 1, 1),
      (''mget'', ''mgetCommand'', - 2, ''rF'', None, 1, - 1, 1),
      (''rpush'', ''rpushCommand'', - 3, ''wmF'', None, 1, 1, 1),
      (''lpush'', ''lpushCommand'', - 3, ''wmF'', None, 1, 1, 1),
      (''rpushx'', ''rpushxCommand'', - 3, ''wmF'', None, 1, 1, 1),
      (''lpushx'', ''lpushxCommand'', - 3, ''wmF'', None, 1, 1, 1),
      (''linsert'', ''linsertCommand'', 5, ''wm'', None, 1, 1, 1),
      (''rpop'', ''rpopCommand'', 2, ''wF'', None, 1, 1, 1),
      (''lpop'', ''lpopCommand'', 2, ''wF'', None, 1, 1, 1),
      (''brpop'', ''brpopCommand'', - 3, ''ws'', None, 1, - 2, 1),
      (''brpoplpush'', ''brpoplpushCommand'', 4, ''wms'', None, 1, 2, 1),
      (''blpop'', ''blpopCommand'', - 3, ''ws'', None, 1, - 2, 1),
      (''llen'', ''llenCommand'', 2, ''rF'', None, 1, 1, 1),
      (''lindex'', ''lindexCommand'', 3, ''r'', None, 1, 1, 1),
      (''lset'', ''lsetCommand'', 4, ''wm'', None, 1, 1, 1),
      (''lrange'', ''lrangeCommand'', 4, ''r'', None, 1, 1, 1),
      (''ltrim'', ''ltrimCommand'', 4, ''w'', None, 1, 1, 1),
      (''lrem'', ''lremCommand'', 4, ''w'', None, 1, 1, 1),
      (''rpoplpush'', ''rpoplpushCommand'', 3, ''wm'', None, 1, 2, 1),
      (''sadd'', ''saddCommand'', - 3, ''wmF'', None, 1, 1, 1),
      (''srem'', ''sremCommand'', - 3, ''wF'', None, 1, 1, 1),
      (''smove'', ''smoveCommand'', 4, ''wF'', None, 1, 2, 1),
      (''sismember'', ''sismemberCommand'', 3, ''rF'', None, 1, 1, 1),
      (''scard'', ''scardCommand'', 2, ''rF'', None, 1, 1, 1),
      (''spop'', ''spopCommand'', - 2, ''wRF'', None, 1, 1, 1),
      (''srandmember'', ''srandmemberCommand'', - 2, ''rR'', None, 1, 1, 1),
      (''sinter'', ''sinterCommand'', - 2, ''rS'', None, 1, - 1, 1),
      (''sinterstore'', ''sinterstoreCommand'', - 3, ''wm'', None, 1, - 1, 1),
      (''sunion'', ''sunionCommand'', - 2, ''rS'', None, 1, - 1, 1),
      (''sunionstore'', ''sunionstoreCommand'', - 3, ''wm'', None, 1, - 1, 1),
      (''sdiff'', ''sdiffCommand'', - 2, ''rS'', None, 1, - 1, 1),
      (''sdiffstore'', ''sdiffstoreCommand'', - 3, ''wm'', None, 1, - 1, 1),
      (''smembers'', ''sinterCommand'', 2, ''rS'', None, 1, 1, 1),
      (''sscan'', ''sscanCommand'', - 3, ''rR'', None, 1, 1, 1),
      (''zadd'', ''zaddCommand'', - 4, ''wmF'', None, 1, 1, 1),
      (''zincrby'', ''zincrbyCommand'', 4, ''wmF'', None, 1, 1, 1),
      (''zrem'', ''zremCommand'', - 3, ''wF'', None, 1, 1, 1),
      (''zremrangebyscore'', ''zremrangebyscoreCommand'', 4, ''w'', None, 1, 1, 1),
      (''zremrangebyrank'', ''zremrangebyrankCommand'', 4, ''w'', None, 1, 1, 1),
      (''zremrangebylex'', ''zremrangebylexCommand'', 4, ''w'', None, 1, 1, 1),
      (''zunionstore'', ''zunionstoreCommand'', - 4, ''wm'', Some ''zunionInterGetKeys'', 0, 0, 0),
      (''zinterstore'', ''zinterstoreCommand'', - 4, ''wm'', Some ''zunionInterGetKeys'', 0, 0, 0),
      (''zrange'', ''zrangeCommand'', - 4, ''r'', None, 1, 1, 1),
      (''zrangebyscore'', ''zrangebyscoreCommand'', - 4, ''r'', None, 1, 1, 1),
      (''zrevrangebyscore'', ''zrevrangebyscoreCommand'', - 4, ''r'', None, 1, 1, 1),
      (''zrangebylex'', ''zrangebylexCommand'', - 4, ''r'', None, 1, 1, 1),
      (''zrevrangebylex'', ''zrevrangebylexCommand'', - 4, ''r'', None, 1, 1, 1),
      (''zcount'', ''zcountCommand'', 4, ''rF'', None, 1, 1, 1),
      (''zlexcount'', ''zlexcountCommand'', 4, ''rF'', None, 1, 1, 1),
      (''zrevrange'', ''zrevrangeCommand'', - 4, ''r'', None, 1, 1, 1),
      (''zcard'', ''zcardCommand'', 2, ''rF'', None, 1, 1, 1),
      (''zscore'', ''zscoreCommand'', 3, ''rF'', None, 1, 1, 1),
      (''zrank'', ''zrankCommand'', 3, ''rF'', None, 1, 1, 1),
      (''zrevrank'', ''zrevrankCommand'', 3, ''rF'', None, 1, 1, 1),
      (''zscan'', ''zscanCommand'', - 3, ''rR'', None, 1, 1, 1),
      (''zpopmin'', ''zpopminCommand'', - 2, ''wF'', None, 1, 1, 1),
      (''zpopmax'', ''zpopmaxCommand'', - 2, ''wF'', None, 1, 1, 1),
      (''bzpopmin'', ''bzpopminCommand'', - 3, ''wsF'', None, 1, - 2, 1),
      (''bzpopmax'', ''bzpopmaxCommand'', - 3, ''wsF'', None, 1, - 2, 1),
      (''hset'', ''hsetCommand'', - 4, ''wmF'', None, 1, 1, 1),
      (''hsetnx'', ''hsetnxCommand'', 4, ''wmF'', None, 1, 1, 1),
      (''hget'', ''hgetCommand'', 3, ''rF'', None, 1, 1, 1),
      (''hmset'', ''hsetCommand'', - 4, ''wmF'', None, 1, 1, 1),
      (''hmget'', ''hmgetCommand'', - 3, ''rF'', None, 1, 1, 1),
      (''hincrby'', ''hincrbyCommand'', 4, ''wmF'', None, 1, 1, 1),
      (''hincrbyfloat'', ''hincrbyfloatCommand'', 4, ''wmF'', None, 1, 1, 1),
      (''hdel'', ''hdelCommand'', - 3, ''wF'', None, 1, 1, 1),
      (''hlen'', ''hlenCommand'', 2, ''rF'', None, 1, 1, 1),
      (''hstrlen'', ''hstrlenCommand'', 3, ''rF'', None, 1, 1, 1),
      (''hkeys'', ''hkeysCommand'', 2, ''rS'', None, 1, 1, 1),
      (''hvals'', ''hvalsCommand'', 2, ''rS'', None, 1, 1, 1),
      (''hgetall'', ''hgetallCommand'', 2, ''rR'', None, 1, 1, 1),
      (''hexists'', ''hexistsCommand'', 3, ''rF'', None, 1, 1, 1),
      (''hscan'', ''hscanCommand'', - 3, ''rR'', None, 1, 1, 1),
      (''incrby'', ''incrbyCommand'', 3, ''wmF'', None, 1, 1, 1),
      (''decrby'', ''decrbyCommand'', 3, ''wmF'', None, 1, 1, 1),
      (''incrbyfloat'', ''incrbyfloatCommand'', 3, ''wmF'', None, 1, 1, 1),
      (''getset'', ''getsetCommand'', 3, ''wm'', None, 1, 1, 1),
      (''mset'', ''msetCommand'', - 3, ''wm'', None, 1, - 1, 2),
      (''msetnx'', ''msetnxCommand'', - 3, ''wm'', None, 1, - 1, 2),
      (''randomkey'', ''randomkeyCommand'', 1, ''rR'', None, 0, 0, 0),
      (''select'', ''selectCommand'', 2, ''lF'', None, 0, 0, 0),
      (''swapdb'', ''swapdbCommand'', 3, ''wF'', None, 0, 0, 0),
      (''move'', ''moveCommand'', 3, ''wF'', None, 1, 1, 1),
      (''rename'', ''renameCommand'', 3, ''w'', None, 1, 2, 1),
      (''renamenx'', ''renamenxCommand'', 3, ''wF'', None, 1, 2, 1),
      (''expire'', ''expireCommand'', 3, ''wF'', None, 1, 1, 1),
      (''expireat'', ''expireatCommand'', 3, ''wF'', None, 1, 1, 1),
      (''pexpire'', ''pexpireCommand'', 3, ''wF'', None, 1, 1, 1),
      (''pexpireat'', ''pexpireatCommand'', 3, ''wF'', None, 1, 1, 1),
      (''keys'', ''keysCommand'', 2, ''rS'', None, 0, 0, 0),
      (''scan'', ''scanCommand'', - 2, ''rR'', None, 0, 0, 0),
      (''dbsize'', ''dbsizeCommand'', 1, ''rF'', None, 0, 0, 0),
      (''auth'', ''authCommand'', 2, ''sltF'', None, 0, 0, 0),
      (''ping'', ''pingCommand'', - 1, ''tF'', None, 0, 0, 0),
      (''echo'', ''echoCommand'', 2, ''F'', None, 0, 0, 0),
      (''save'', ''saveCommand'', 1, ''as'', None, 0, 0, 0),
      (''bgsave'', ''bgsaveCommand'', - 1, ''as'', None, 0, 0, 0),
      (''bgrewriteaof'', ''bgrewriteaofCommand'', 1, ''as'', None, 0, 0, 0),
      (''shutdown'', ''shutdownCommand'', - 1, ''aslt'', None, 0, 0, 0),
      (''lastsave'', ''lastsaveCommand'', 1, ''RF'', None, 0, 0, 0),
      (''type'', ''typeCommand'', 2, ''rF'', None, 1, 1, 1),
      (''multi'', ''multiCommand'', 1, ''sF'', None, 0, 0, 0),
      (''exec'', ''execCommand'', 1, ''sM'', None, 0, 0, 0),
      (''discard'', ''discardCommand'', 1, ''sF'', None, 0, 0, 0),
      (''sync'', ''syncCommand'', 1, ''ars'', None, 0, 0, 0),
      (''psync'', ''syncCommand'', 3, ''ars'', None, 0, 0, 0),
      (''replconf'', ''replconfCommand'', - 1, ''aslt'', None, 0, 0, 0),
      (''flushdb'', ''flushdbCommand'', - 1, ''w'', None, 0, 0, 0),
      (''flushall'', ''flushallCommand'', - 1, ''w'', None, 0, 0, 0),
      (''sort'', ''sortCommand'', - 2, ''wm'', Some ''sortGetKeys'', 1, 1, 1),
      (''info'', ''infoCommand'', - 1, ''ltR'', None, 0, 0, 0),
      (''monitor'', ''monitorCommand'', 1, ''as'', None, 0, 0, 0),
      (''ttl'', ''ttlCommand'', 2, ''rFR'', None, 1, 1, 1),
      (''touch'', ''touchCommand'', - 2, ''rF'', None, 1, 1, 1),
      (''pttl'', ''pttlCommand'', 2, ''rFR'', None, 1, 1, 1),
      (''persist'', ''persistCommand'', 2, ''wF'', None, 1, 1, 1),
      (''slaveof'', ''replicaofCommand'', 3, ''ast'', None, 0, 0, 0),
      (''replicaof'', ''replicaofCommand'', 3, ''ast'', None, 0, 0, 0),
      (''role'', ''roleCommand'', 1, ''lst'', None, 0, 0, 0),
      (''debug'', ''debugCommand'', - 2, ''as'', None, 0, 0, 0),
      (''config'', ''configCommand'', - 2, ''last'', None, 0, 0, 0),
      (''subscribe'', ''subscribeCommand'', - 2, ''pslt'', None, 0, 0, 0),
      (''unsubscribe'', ''unsubscribeCommand'', - 1, ''pslt'', None, 0, 0, 0),
      (''psubscribe'', ''psubscribeCommand'', - 2, ''pslt'', None, 0, 0, 0),
      (''punsubscribe'', ''punsubscribeCommand'', - 1, ''pslt'', None, 0, 0, 0),
      (''publish'', ''publishCommand'', 3, ''pltF'', None, 0, 0, 0),
      (''pubsub'', ''pubsubCommand'', - 2, ''pltR'', None, 0, 0, 0),
      (''watch'', ''watchCommand'', - 2, ''sF'', None, 1, - 1, 1),
      (''unwatch'', ''unwatchCommand'', 1, ''sF'', None, 0, 0, 0),
      (''cluster'', ''clusterCommand'', - 2, ''a'', None, 0, 0, 0),
      (''restore'', ''restoreCommand'', - 4, ''wm'', None, 1, 1, 1),
      (''restore-asking'', ''restoreCommand'', - 4, ''wmk'', None, 1, 1, 1),
      (''migrate'', ''migrateCommand'', - 6, ''wR'', Some ''migrateGetKeys'', 0, 0, 0),
      (''asking'', ''askingCommand'', 1, ''F'', None, 0, 0, 0),
      (''readonly'', ''readonlyCommand'', 1, ''F'', None, 0, 0, 0),
      (''readwrite'', ''readwriteCommand'', 1, ''F'', None, 0, 0, 0),
      (''dump'', ''dumpCommand'', 2, ''rR'', None, 1, 1, 1),
      (''object'', ''objectCommand'', - 2, ''rR'', None, 2, 2, 1),
      (''memory'', ''memoryCommand'', - 2, ''rR'', None, 0, 0, 0),
      (''client'', ''clientCommand'', - 2, ''as'', None, 0, 0, 0),
      (''eval'', ''evalCommand'', - 3, ''s'', Some ''evalGetKeys'', 0, 0, 0),
      (''evalsha'', ''evalShaCommand'', - 3, ''s'', Some ''evalGetKeys'', 0, 0, 0),
      (''slowlog'', ''slowlogCommand'', - 2, ''aR'', None, 0, 0, 0),
      (''script'', ''scriptCommand'', - 2, ''s'', None, 0, 0, 0),
      (''time'', ''timeCommand'', 1, ''RF'', None, 0, 0, 0),
      (''bitop'', ''bitopCommand'', - 4, ''wm'', None, 2, - 1, 1),
      (''bitcount'', ''bitcountCommand'', - 2, ''r'', None, 1, 1, 1),
      (''bitpos'', ''bitposCommand'', - 3, ''r'', None, 1, 1, 1),
      (''wait'', ''waitCommand'', 3, ''s'', None, 0, 0, 0),
      (''command'', ''commandCommand'', 0, ''ltR'', None, 0, 0, 0),
      (''geoadd'', ''geoaddCommand'', - 5, ''wm'', None, 1, 1, 1),
      (''georadius'', ''georadiusCommand'', - 6, ''w'', Some ''georadiusGetKeys'', 1, 1, 1),
      (''georadius_ro'', ''georadiusroCommand'', - 6, ''r'', Some ''georadiusGetKeys'', 1, 1, 1),
      (''georadiusbymember'', ''georadiusbymemberCommand'', - 5, ''w'', Some ''georadiusGetKeys'', 1, 1, 1),
      (''georadiusbymember_ro'', ''georadiusbymemberroCommand'', - 5, ''r'', Some ''georadiusGetKeys'', 1, 1, 1),
      (''geohash'', ''geohashCommand'', - 2, ''r'', None, 1, 1, 1),
      (''geopos'', ''geoposCommand'', - 2, ''r'', None, 1, 1, 1),
      (''geodist'', ''geodistCommand'', - 4, ''r'', None, 1, 1, 1),
      (''pfselftest'', ''pfselftestCommand'', 1, ''a'', None, 0, 0, 0),
      (''pfadd'', ''pfaddCommand'', - 2, ''wmF'', None, 1, 1, 1),
      (''pfcount'', ''pfcountCommand'', - 2, ''r'', None, 1, - 1, 1),
      (''pfmerge'', ''pfmergeCommand'', - 2, ''wm'', None, 1, - 1, 1),
      (''pfdebug'', ''pfdebugCommand'', - 3, ''w'', None, 0, 0, 0),
      (''xadd'', ''xaddCommand'', - 5, ''wmFR'', None, 1, 1, 1),
      (''xrange'', ''xrangeCommand'', - 4, ''r'', None, 1, 1, 1),
      (''xrevrange'', ''xrevrangeCommand'', - 4, ''r'', None, 1, 1, 1),
      (''xlen'', ''xlenCommand'', 2, ''rF'', None, 1, 1, 1),
      (''xread'', ''xreadCommand'', - 4, ''rs'', Some ''xreadGetKeys'', 1, 1, 1),
      (''xreadgroup'', ''xreadCommand'', - 7, ''ws'', Some ''xreadGetKeys'', 1, 1, 1),
      (''xgroup'', ''xgroupCommand'', - 2, ''wm'', None, 2, 2, 1),
      (''xsetid'', ''xsetidCommand'', 3, ''wmF'', None, 1, 1, 1),
      (''xack'', ''xackCommand'', - 4, ''wF'', None, 1, 1, 1),
      (''xpending'', ''xpendingCommand'', - 3, ''rR'', None, 1, 1, 1),
      (''xclaim'', ''xclaimCommand'', - 6, ''wRF'', None, 1, 1, 1),
      (''xinfo'', ''xinfoCommand'', - 2, ''rR'', None, 2, 2, 1),
      (''xdel'', ''xdelCommand'', - 3, ''wF'', None, 1, 1, 1),
      (''xtrim'', ''xtrimCommand'', - 2, ''wFR'', None, 1, 1, 1),
      (''post'', ''securityWarningCommand'', - 1, ''lt'', None, 0, 0, 0),
      (''host:'', ''securityWarningCommand'', - 1, ''lt'', None, 0, 0, 0),
      (''latency'', ''latencyCommand'', - 2, ''aslt'', None, 0, 0, 0),
      (''lolwut'', ''lolwutCommand'', - 1, ''r'', None, 0, 0, 0)]"

definition command_flag :: "char \<Rightarrow> cmdflag option" where
  "command_flag c =
     (if c = CHR ''w'' then Some CMD_WRITE else if c = CHR ''r'' then Some CMD_READONLY
      else if c = CHR ''m'' then Some CMD_DENYOOM else if c = CHR ''a'' then Some CMD_ADMIN
      else if c = CHR ''p'' then Some CMD_PUBSUB else if c = CHR ''s'' then Some CMD_NOSCRIPT
      else if c = CHR ''R'' then Some CMD_RANDOM else if c = CHR ''S'' then Some CMD_SORT_FOR_SCRIPT
      else if c = CHR ''l'' then Some CMD_LOADING else if c = CHR ''t'' then Some CMD_STALE
      else if c = CHR ''M'' then Some CMD_SKIP_MONITOR else if c = CHR ''k'' then Some CMD_ASKING
      else if c = CHR ''F'' then Some CMD_FAST else None)"

text \<open>A flag that is not known is a panic, a name that is there twice a failed assertion.\<close>

fun populate :: "(string \<times> string \<times> int \<times> string \<times> string option \<times> int \<times> int \<times> int) list \<Rightarrow> (bytes \<rightharpoonup> redisCommand) \<Rightarrow>
    (bytes \<rightharpoonup> redisCommand) option" where
  "populate [] m = Some m"
| "populate ((name, pr, ar, sfl, gk, fk, lk, ks) # l) m =
     (if list_all (\<lambda>f. command_flag f \<noteq> None) sfl \<and> m (lit name) = None
      then populate l (m(lit name \<mapsto> \<lparr>cm_name = lit name, proc = pr, arity = ar, cm_flags = set (List.map_filter command_flag sfl),
                               getkeys_proc = gk, firstkey = fk, lastkey = lk, keystep = ks\<rparr>))
      else None)"

definition populateCommandTable :: "(bytes \<rightharpoonup> redisCommand) option" where
  "populateCommandTable = populate redisCommandTable Map.empty"

section \<open>Small commands\<close>

definition CONFIG_AUTHPASS_MAX_LEN :: nat where "CONFIG_AUTHPASS_MAX_LEN = 512"

text \<open>The two buffers are compared byte by byte; the result is zero when the strings are the same.\<close>

definition time_independent_strcmp :: "bytes \<Rightarrow> bytes \<Rightarrow> bool" where
  "time_independent_strcmp a b =
     (let a = cstr a; b = cstr b; alen = length a; blen = length b in
      if alen > CONFIG_AUTHPASS_MAX_LEN \<or> blen > CONFIG_AUTHPASS_MAX_LEN then True
      else
        let bufa = a @ replicate (CONFIG_AUTHPASS_MAX_LEN - alen) 0; bufb = b @ replicate (CONFIG_AUTHPASS_MAX_LEN - blen) 0;
            diff = fold (\<lambda>j d. d OR (bufa ! j XOR bufb ! j)) [0..<CONFIG_AUTHPASS_MAX_LEN] 0 in
        diff \<noteq> 0 \<or> alen \<noteq> blen)"

definition authCommand :: "redisServer \<Rightarrow> nat \<Rightarrow> redisServer option" where
  "authCommand s c =
     (case requirepass s of
        None \<Rightarrow> Some (addReplyError s c ''Client sent AUTH, but no password is set'')
      | Some pass \<Rightarrow>
          if \<not> time_independent_strcmp (argv s c ! 1) pass
          then Some (addReply (upd_cl c (\<lambda>cl. cl\<lparr>c_authenticated := True\<rparr>) s) c shared_ok)
          else Some (addReplyError (upd_cl c (\<lambda>cl. cl\<lparr>c_authenticated := False\<rparr>) s) c ''invalid password''))"

definition wrong_args :: "bytes \<Rightarrow> bytes" where
  "wrong_args name = lit ''wrong number of arguments for '' @ [39] @ name @ [39] @ lit '' command''"

definition pingCommand :: "redisServer \<Rightarrow> nat \<Rightarrow> redisServer option" where
  "pingCommand s c =
     (if length (argv s c) > 2 then
        do { cmd \<leftarrow> c_cmd (clients s c);
             Some (addReplyErrorFormat s c (wrong_args (cm_name cmd))) }
      else if CLIENT_PUBSUB \<in> flags s c then
        let s = addReply s c (shared_mbulkhdr 2) in
        do { s \<leftarrow> addReplyBulkCBuffer s c (lit ''pong'');
             if length (argv s c) = 1 then addReplyBulkCBuffer s c [] else addReplyBulk s c (argv s c ! 1) }
      else if length (argv s c) = 1 then Some (addReply s c shared_pong)
      else addReplyBulk s c (argv s c ! 1))"

definition echoCommand :: "redisServer \<Rightarrow> nat \<Rightarrow> redisServer option" where
  "echoCommand s c = addReplyBulk s c (argv s c ! 1)"

definition timeCommand :: "redisServer \<Rightarrow> nat \<Rightarrow> redisServer option" where
  "timeCommand s c =
     do { s \<leftarrow> addReplyMultiBulkLen s c 2;
          s \<leftarrow> addReplyBulkLongLong s c (of_nat (fst (timeofday s)));
          addReplyBulkLongLong s c (of_nat (snd (timeofday s))) }"

section \<open>Dispatch\<close>

text \<open>The functions behind the \<open>proc\<close> pointers, without and with \<open>EXEC\<close>.\<close>

definition string_procs :: "string \<rightharpoonup> (redisServer \<Rightarrow> nat \<Rightarrow> redisServer option)" where
  "string_procs = map_of
     [(''setCommand'', setCommand), (''setnxCommand'', setnxCommand), (''setexCommand'', setexCommand),
      (''psetexCommand'', psetexCommand), (''getCommand'', getCommand), (''getsetCommand'', getsetCommand),
      (''setrangeCommand'', setrangeCommand), (''getrangeCommand'', getrangeCommand), (''mgetCommand'', mgetCommand),
      (''msetCommand'', msetCommand), (''msetnxCommand'', msetnxCommand), (''incrCommand'', incrCommand),
      (''decrCommand'', decrCommand), (''incrbyCommand'', incrbyCommand), (''decrbyCommand'', decrbyCommand),
      (''appendCommand'', appendCommand), (''strlenCommand'', strlenCommand)]"

definition generic_procs :: "string \<rightharpoonup> (redisServer \<Rightarrow> nat \<Rightarrow> redisServer option)" where
  "generic_procs = map_of
     [(''delCommand'', delCommand), (''unlinkCommand'', unlinkCommand), (''existsCommand'', existsCommand),
      (''typeCommand'', typeCommand), (''renameCommand'', renameCommand), (''renamenxCommand'', renamenxCommand),
      (''expireCommand'', expireCommand), (''expireatCommand'', expireatCommand), (''pexpireCommand'', pexpireCommand),
      (''pexpireatCommand'', pexpireatCommand), (''ttlCommand'', ttlCommand), (''pttlCommand'', pttlCommand),
      (''persistCommand'', persistCommand), (''touchCommand'', touchCommand), (''flushdbCommand'', flushdbCommand),
      (''flushallCommand'', flushallCommand), (''selectCommand'', selectCommand), (''keysCommand'', keysCommand),
      (''dbsizeCommand'', dbsizeCommand), (''moveCommand'', moveCommand), (''swapdbCommand'', swapdbCommand)]"

definition server_procs :: "string \<rightharpoonup> (redisServer \<Rightarrow> nat \<Rightarrow> redisServer option)" where
  "server_procs = map_of
     [(''authCommand'', authCommand), (''pingCommand'', pingCommand), (''echoCommand'', echoCommand),
      (''timeCommand'', timeCommand), (''multiCommand'', multiCommand), (''discardCommand'', discardCommand),
      (''watchCommand'', watchCommand), (''unwatchCommand'', unwatchCommand),
      (''subscribeCommand'', subscribeCommand), (''unsubscribeCommand'', unsubscribeCommand),
      (''psubscribeCommand'', psubscribeCommand), (''punsubscribeCommand'', punsubscribeCommand),
      (''publishCommand'', publishCommand), (''pubsubCommand'', pubsubCommand)]"

definition run_queued :: "string \<Rightarrow> redisServer \<Rightarrow> nat \<Rightarrow> redisServer option" where
  "run_queued p s c =
     (case string_procs p of Some f \<Rightarrow> f s c
      | None \<Rightarrow> (case generic_procs p of Some f \<Rightarrow> f s c
      | None \<Rightarrow> (case server_procs p of Some f \<Rightarrow> f s c
      | None \<Rightarrow> None)))"

definition run_proc :: "string \<Rightarrow> redisServer \<Rightarrow> nat \<Rightarrow> redisServer option" where
  "run_proc p s c = (if p = ''execCommand'' then execCommand run_queued s c else run_queued p s c)"

definition call :: "redisServer \<Rightarrow> nat \<Rightarrow> callflag set \<Rightarrow> redisServer option" where
  "call = call_with run_proc"

section \<open>Processing a request\<close>

definition writeCommandsDeniedByDiskError :: "redisServer \<Rightarrow> disk_error" where
  "writeCommandsDeniedByDiskError s =
     (if stop_writes_on_bgsave_err s \<and> saveparamslen s > 0 \<and> \<not> lastbgsave_status s then DISK_ERROR_TYPE_RDB
      else if aof_state s \<noteq> AOF_OFF \<and> \<not> aof_last_write_status s then DISK_ERROR_TYPE_AOF
      else DISK_ERROR_TYPE_NONE)"

text \<open>The arguments an unknown command is reported with.\<close>

definition unknown_args :: "bytes list \<Rightarrow> bytes" where
  "unknown_args av =
     fold (\<lambda>a args. if length args < 128 then args @ [96] @ take (128 - length args) (cstr a) @ [96] @ lit '', '' else args) av []"

text \<open>The checks after the lookup, in the order of the code: \<open>Some s\<close> when the request was refused.\<close>

definition check_auth :: "redisServer \<Rightarrow> nat \<Rightarrow> redisCommand \<Rightarrow> redisServer option" where
  "check_auth s c cmd =
     (if requirepass s \<noteq> None \<and> \<not> c_authenticated (clients s c) \<and> proc cmd \<noteq> ''authCommand''
      then Some (addReply (flagTransaction s c) c shared_noautherr) else None)"

text \<open>Whether the slot of the keys is looked up in the cluster.\<close>

definition redirects :: "redisServer \<Rightarrow> nat \<Rightarrow> redisCommand \<Rightarrow> bool" where
  "redirects s c cmd \<longleftrightarrow>
     cluster_enabled s \<and> CLIENT_MASTER \<notin> flags s c \<and>
     \<not> (CLIENT_LUA \<in> flags s c \<and> (case lua_caller s of Some lc \<Rightarrow> CLIENT_MASTER \<in> flags s lc | None \<Rightarrow> False)) \<and>
     \<not> (getkeys_proc cmd = None \<and> firstkey cmd = 0 \<and> proc cmd \<noteq> ''execCommand'')"

definition check_disk :: "redisServer \<Rightarrow> nat \<Rightarrow> redisCommand \<Rightarrow> redisServer option" where
  "check_disk s c cmd =
     (let deny = writeCommandsDeniedByDiskError s in
      if deny \<noteq> DISK_ERROR_TYPE_NONE \<and> masterhost s = None \<and> (CMD_WRITE \<in> cm_flags cmd \<or> proc cmd = ''pingCommand'')
      then
        let s = flagTransaction s c in
        Some (if deny = DISK_ERROR_TYPE_RDB then addReply s c shared_bgsaveerr
              else addReply s c (lit ''-MISCONF Errors writing to the AOF file: '' @ aof_last_write_err s @ crlf))
      else None)"

definition check_good_slaves :: "redisServer \<Rightarrow> nat \<Rightarrow> redisCommand \<Rightarrow> redisServer option" where
  "check_good_slaves s c cmd =
     (if masterhost s = None \<and> repl_min_slaves_to_write s \<noteq> 0 \<and> repl_min_slaves_max_lag s \<noteq> 0 \<and>
         CMD_WRITE \<in> cm_flags cmd \<and> repl_good_slaves_count s < repl_min_slaves_to_write s
      then Some (addReply (flagTransaction s c) c shared_noreplicaserr) else None)"

definition check_readonly :: "redisServer \<Rightarrow> nat \<Rightarrow> redisCommand \<Rightarrow> redisServer option" where
  "check_readonly s c cmd =
     (if masterhost s \<noteq> None \<and> repl_slave_ro s \<and> CLIENT_MASTER \<notin> flags s c \<and> CMD_WRITE \<in> cm_flags cmd
      then Some (addReply s c shared_roslaveerr) else None)"

definition check_pubsub :: "redisServer \<Rightarrow> nat \<Rightarrow> redisCommand \<Rightarrow> redisServer option" where
  "check_pubsub s c cmd =
     (if CLIENT_PUBSUB \<in> flags s c \<and>
         proc cmd \<notin> {''pingCommand'', ''subscribeCommand'', ''unsubscribeCommand'', ''psubscribeCommand'', ''punsubscribeCommand''}
      then Some (addReplyError s c ''only (P)SUBSCRIBE / (P)UNSUBSCRIBE / PING / QUIT allowed in this context'') else None)"

definition check_stale :: "redisServer \<Rightarrow> nat \<Rightarrow> redisCommand \<Rightarrow> redisServer option" where
  "check_stale s c cmd =
     (if masterhost s \<noteq> None \<and> repl_state s \<noteq> REPL_STATE_CONNECTED \<and> \<not> repl_serve_stale_data s \<and> CMD_STALE \<notin> cm_flags cmd
      then Some (addReply (flagTransaction s c) c shared_masterdownerr) else None)"

definition check_loading :: "redisServer \<Rightarrow> nat \<Rightarrow> redisCommand \<Rightarrow> redisServer option" where
  "check_loading s c cmd =
     (if loading s \<and> CMD_LOADING \<notin> cm_flags cmd then Some (addReply s c shared_loadingerr) else None)"

definition check_script :: "redisServer \<Rightarrow> nat \<Rightarrow> redisCommand \<Rightarrow> redisServer option" where
  "check_script s c cmd =
     (let first = lower (hd (argv s c ! 1 @ [0])) in
      if lua_timedout s \<and> proc cmd \<noteq> ''authCommand'' \<and> proc cmd \<noteq> ''replconfCommand'' \<and>
         \<not> (proc cmd = ''shutdownCommand'' \<and> length (argv s c) = 2 \<and> first = 110) \<and>
         \<not> (proc cmd = ''scriptCommand'' \<and> length (argv s c) = 2 \<and> first = 107)
      then Some (addReply (flagTransaction s c) c shared_slowscripterr) else None)"

definition checks :: "(redisServer \<Rightarrow> nat \<Rightarrow> redisCommand \<Rightarrow> redisServer option) list" where
  "checks = [check_disk, check_good_slaves, check_readonly, check_pubsub, check_stale, check_loading, check_script]"

fun first_refusal :: "(redisServer \<Rightarrow> nat \<Rightarrow> redisCommand \<Rightarrow> redisServer option) list \<Rightarrow> redisServer \<Rightarrow> nat \<Rightarrow> redisCommand \<Rightarrow> redisServer option" where
  "first_refusal [] s c cmd = None"
| "first_refusal (f # fs) s c cmd = (case f s c cmd of Some s' \<Rightarrow> Some s' | None \<Rightarrow> first_refusal fs s c cmd)"

definition processCommand_exec :: "redisServer \<Rightarrow> nat \<Rightarrow> redisCommand \<Rightarrow> redisServer option" where
  "processCommand_exec s c cmd =
     (if CLIENT_MULTI \<in> flags s c \<and> proc cmd \<notin> {''execCommand'', ''discardCommand'', ''multiCommand'', ''watchCommand''} then
        do { s \<leftarrow> queueMultiCommand s c; Some (addReply s c shared_queued) }
      else
        do { s \<leftarrow> call s c CMD_CALL_FULL;
             let s = upd_cl c (\<lambda>cl. cl\<lparr>c_woff := master_repl_offset s\<rparr>) s in
             if ready_keys s \<noteq> [] then None else Some s })"

text \<open>The flag is \<open>False\<close> for \<open>C_ERR\<close>, after \<open>QUIT\<close>.\<close>

definition processCommand :: "redisServer \<Rightarrow> nat \<Rightarrow> (bool \<times> redisServer) option" where
  "processCommand s c =
     (if strcaseeq (argv s c ! 0) ''quit''
      then Some (False, set_flag c CLIENT_CLOSE_AFTER_REPLY (addReply s c shared_ok))
      else
        let oc = lookupCommand s (argv s c ! 0); s = upd_cl c (\<lambda>cl. cl\<lparr>c_cmd := oc, c_lastcmd := oc\<rparr>) s in
        case oc of
          None \<Rightarrow>
            Some (True, addReplyErrorFormat (flagTransaction s c) c
              (lit ''unknown command `'' @ cstr (argv s c ! 0) @ lit ''`, with args beginning with: '' @ unknown_args (tl (argv s c))))
        | Some cmd \<Rightarrow>
            if arity cmd > 0 \<and> arity cmd \<noteq> int (length (argv s c)) \<or> int (length (argv s c)) < - arity cmd then
              Some (True, addReplyErrorFormat (flagTransaction s c) c (wrong_args (cm_name cmd)))
            else
              case check_auth s c cmd of
                Some s \<Rightarrow> Some (True, s)
              | None \<Rightarrow>
                  if redirects s c cmd \<or> (maxmemory s \<noteq> 0 \<and> \<not> lua_timedout s) then None
                  else
                    case first_refusal checks s c cmd of
                      Some s \<Rightarrow> Some (True, s)
                    | None \<Rightarrow> map_option (Pair True) (processCommand_exec s c cmd))"

definition resetClient :: "redisServer \<Rightarrow> nat \<Rightarrow> redisServer" where
  "resetClient s c =
     (let prevcmd = map_option proc (c_cmd (clients s c));
          s = upd_cl c (\<lambda>cl. cl\<lparr>c_argv := [], c_cmd := None\<rparr>) s;
          s = (if CLIENT_MULTI \<notin> flags s c \<and> prevcmd \<noteq> Some ''askingCommand'' then clear_flags c {CLIENT_ASKING} s else s);
          s = clear_flags c {CLIENT_REPLY_SKIP} s in
      if CLIENT_REPLY_SKIP_NEXT \<in> flags s c
      then clear_flags c {CLIENT_REPLY_SKIP_NEXT} (set_flag c CLIENT_REPLY_SKIP s) else s)"

end
