(* ===== verification/Watch.thy ===== *)
theory Watch
  imports Server
begin

text \<open>The tables of watched keys stay consistent under the operations of \<open>multi.c\<close>, and what a command may do to
  a server is summed up in the relation \<open>moved\<close>: it keeps the invariants, leaves the connections of the other
  clients alone, and marks the watchers of every key it changes.\<close>

section \<open>The tables of watched keys\<close>

definition watch_inv :: "redisServer \<Rightarrow> bool" where
  "watch_inv s \<longleftrightarrow> watch_ok s \<and> (\<forall>c. distinct (c_watched_keys (clients s c))) \<and>
     (\<forall>d < length (dbs s). \<forall>k cs. d_watched_keys (db_of s d) k = Some cs \<longrightarrow> distinct cs)"

lemma watch_invD:
  assumes "watch_inv s"
  shows "watch_ok s" "distinct (c_watched_keys (clients s c))"
    "d < length (dbs s) \<Longrightarrow> d_watched_keys (db_of s d) k = Some cs \<Longrightarrow> distinct cs"
  using assms by (auto simp: watch_inv_def)

lemma watch_invI:
  assumes "\<And>d k c. d < length (dbs s) \<Longrightarrow> c \<in> watchers s d k \<Longrightarrow> c \<in> set (client_list s)"
    "\<And>d k c. d < length (dbs s) \<Longrightarrow> c \<in> watchers s d k \<longleftrightarrow> (d, k) \<in> set (c_watched_keys (clients s c))"
    "\<And>d k c. (d, k) \<in> set (c_watched_keys (clients s c)) \<Longrightarrow> d < length (dbs s)"
    "\<And>c. distinct (c_watched_keys (clients s c))"
    "\<And>d k cs. d < length (dbs s) \<Longrightarrow> d_watched_keys (db_of s d) k = Some cs \<Longrightarrow> distinct cs"
  shows "watch_inv s"
proof -
  have "watch_ok s" unfolding watch_ok_def
  proof (intro conjI allI impI ballI, goal_cases)
    case (1 d k c)
    then show ?case by (rule assms(1))
  next
    case (2 d k c)
    then show ?case using assms(2) by blast
  next
    case (3 c d k)
    then show ?case by (rule assms(3))
  next
    case (4 c d k)
    then show ?case using assms(2,3) by blast
  qed
  then show ?thesis unfolding watch_inv_def using assms(4,5) by blast
qed

lemma watch_inv_iff:
  assumes "watch_inv s" "d < length (dbs s)"
  shows "c \<in> watchers s d k \<longleftrightarrow> (d, k) \<in> set (c_watched_keys (clients s c))"
  using watch_okD [OF watch_invD(1) [OF assms(1)], of d] assms(2) by blast

lemma watch_inv_cong:
  assumes "length (dbs s') = length (dbs s)" "client_list s' = client_list s"
    "\<And>c. c_watched_keys (clients s' c) = c_watched_keys (clients s c)"
    "\<And>d. d < length (dbs s) \<Longrightarrow> d_watched_keys (db_of s' d) = d_watched_keys (db_of s d)"
    and i: "watch_inv s"
  shows "watch_inv s'"
proof (rule watch_invI, goal_cases)
  case (1 d k c)
  then show ?case using watch_okD(1) [OF watch_invD(1) [OF i], of d c k] assms(1-4) by (simp add: watchers_def)
next
  case (2 d k c)
  then show ?case using watch_inv_iff [OF i, of d c k] assms(1-4) by (simp add: watchers_def)
next
  case (3 d k c)
  then show ?case using watch_okD(2) [OF watch_invD(1) [OF i], of d k c] assms(1-4) by simp
next
  case (4 c)
  then show ?case using watch_invD(2) [OF i] assms(1-4) by simp
next
  case (5 d k cs)
  then show ?case using watch_invD(3) [OF i] assms(1-4) by simp
qed

lemma watchers_upd_db:
  assumes "d < length (dbs s)"
  shows "watchers (upd_db d (\<lambda>db. db\<lparr>d_watched_keys := (d_watched_keys db)(k := v)\<rparr>) s) e j =
    (if e = d \<and> j = k then (case v of None \<Rightarrow> {} | Some cs \<Rightarrow> set cs) else watchers s e j)"
  using assms by (simp add: watchers_def)

lemma upd_cl_tables [simp]: "dbs (upd_cl c f s) = dbs s" "client_list (upd_cl c f s) = client_list s"
  by (simp_all add: upd_cl_def)

lemma watchers_upd_cl [simp]: "watchers (upd_cl c f s) = watchers s"
  by (auto simp: fun_eq_iff watchers_def upd_cl_def)

lemma watchForKey_inv:
  assumes i: "watch_inv s" and c: "c \<in> set (client_list s)" "c_db (clients s c) < length (dbs s)"
  shows "watch_inv (watchForKey s c key)"
proof (cases "(c_db (clients s c), key) \<in> set (c_watched_keys (clients s c))")
  case False
  let ?d = "c_db (clients s c)"
  define cs where "cs = (case d_watched_keys (db_of s ?d) key of None \<Rightarrow> [] | Some cs \<Rightarrow> cs)"
  let ?s = "upd_cl c (\<lambda>cl. cl\<lparr>c_watched_keys := c_watched_keys cl @ [(?d, key)]\<rparr>)
    (upd_db ?d (\<lambda>db. db\<lparr>d_watched_keys := (d_watched_keys db)(key \<mapsto> cs @ [c])\<rparr>) s)"
  have cs: "set cs = watchers s ?d key" by (simp add: cs_def watchers_def split: option.split)
  have nc: "c \<notin> set cs" using watch_inv_iff [OF i c(2)] False cs by simp
  have dcs: "distinct cs" using watch_invD(3) [OF i c(2), of key] by (simp add: cs_def split: option.split)
  have "watch_inv ?s"
  proof (rule watch_invI, goal_cases)
    case (1 d k e)
    then show ?case using c watch_okD(1) [OF watch_invD(1) [OF i], of d e k] cs
      by (auto simp: watchers_upd_db split: if_splits)
  next
    case (2 d k e)
    then show ?case using c cs watch_inv_iff [OF i, of d e k] by (auto simp: watchers_upd_db)
  next
    case (3 d k e)
    then show ?case using c watch_okD(2) [OF watch_invD(1) [OF i], of d k e] by (auto split: if_splits)
  next
    case (4 e)
    then show ?case using watch_invD(2) [OF i, of e] False by auto
  next
    case (5 d k ds)
    then show ?case using watch_invD(3) [OF i, of d k ds] c nc dcs by (auto split: if_splits)
  qed
  then show ?thesis using False by (simp add: watchForKey_def Let_def cs_def)
qed (simp add: watchForKey_def i)

lemma watchForKey_sel:
  shows "length (dbs (watchForKey s c key)) = length (dbs s)" "client_list (watchForKey s c key) = client_list s"
    "c_db (clients (watchForKey s c key) e) = c_db (clients s e)"
  by (auto simp: watchForKey_def Let_def)

text \<open>Only the tables of watched keys and the client's own list change.\<close>

definition only_watch :: "nat \<Rightarrow> redisServer \<Rightarrow> redisServer \<Rightarrow> bool" where
  "only_watch c s s' \<longleftrightarrow> (\<exists>ds wl. s' = upd_cl c (\<lambda>cl. cl\<lparr>c_watched_keys := wl\<rparr>) (s\<lparr>dbs := ds\<rparr>) \<and> length ds = length (dbs s) \<and>
     (\<forall>d < length (dbs s). \<exists>w. ds ! d = (db_of s d)\<lparr>d_watched_keys := w\<rparr>))"

lemma only_watch_refl: "only_watch c s s"
proof -
  have "\<exists>w. db = db\<lparr>d_watched_keys := w\<rparr>" for db :: redisDb by (rule exI [of _ "d_watched_keys db"]) simp
  then show ?thesis unfolding only_watch_def
    by (intro exI [of _ "dbs s"] exI [of _ "c_watched_keys (clients s c)"] conjI allI impI) (simp_all add: upd_cl_def)
qed

lemma only_watch_trans:
  assumes "only_watch c s s1" "only_watch c s1 s2"
  shows "only_watch c s s2"
proof -
  obtain ds wl where 1: "s1 = upd_cl c (\<lambda>cl. cl\<lparr>c_watched_keys := wl\<rparr>) (s\<lparr>dbs := ds\<rparr>)" "length ds = length (dbs s)"
    "\<forall>d < length (dbs s). \<exists>w. ds ! d = (db_of s d)\<lparr>d_watched_keys := w\<rparr>" using assms(1) by (auto simp: only_watch_def)
  obtain es vl where 2: "s2 = upd_cl c (\<lambda>cl. cl\<lparr>c_watched_keys := vl\<rparr>) (s1\<lparr>dbs := es\<rparr>)" "length es = length (dbs s1)"
    "\<forall>d < length (dbs s1). \<exists>w. es ! d = (db_of s1 d)\<lparr>d_watched_keys := w\<rparr>" using assms(2) by (auto simp: only_watch_def)
  have "s2 = upd_cl c (\<lambda>cl. cl\<lparr>c_watched_keys := vl\<rparr>) (s\<lparr>dbs := es\<rparr>)" using 1(1) 2(1) by (simp add: upd_cl_def)
  moreover have "\<exists>w. es ! d = (db_of s d)\<lparr>d_watched_keys := w\<rparr>" if d: "d < length (dbs s)" for d
  proof -
    have "dbs s1 = ds" using 1(1) by simp
    obtain w where "ds ! d = (db_of s d)\<lparr>d_watched_keys := w\<rparr>" using 1(3) d by blast
    moreover obtain v where "es ! d = (ds ! d)\<lparr>d_watched_keys := v\<rparr>" using 2(3) d 1(2) \<open>dbs s1 = ds\<close> by auto
    ultimately show ?thesis by (intro exI [of _ v]) simp
  qed
  ultimately show ?thesis using 1(1,2) 2(2) by (auto simp: only_watch_def)
qed

lemma only_watch_upd:
  "only_watch c s (upd_cl c (\<lambda>cl. cl\<lparr>c_watched_keys := f (c_watched_keys cl)\<rparr>) (upd_db d (\<lambda>db. db\<lparr>d_watched_keys := g (d_watched_keys db)\<rparr>) s))"
proof -
  let ?ds = "(dbs s)[d := (db_of s d)\<lparr>d_watched_keys := g (d_watched_keys (db_of s d))\<rparr>]"
  have "\<exists>w. ?ds ! e = (db_of s e)\<lparr>d_watched_keys := w\<rparr>" if "e < length (dbs s)" for e
    using that
    by (intro exI [of _ "if e = d then g (d_watched_keys (db_of s d)) else d_watched_keys (db_of s e)"]) simp
  then show ?thesis unfolding only_watch_def
    by (intro exI [of _ ?ds] exI [of _ "f (c_watched_keys (clients s c))"]) (simp add: upd_cl_def upd_db_def)
qed

lemma watchForKey_only: "only_watch c s (watchForKey s c key)"
  using only_watch_upd [of c s "\<lambda>l. l @ [(c_db (clients s c), key)]" "c_db (clients s c)"
      "\<lambda>m. m(key \<mapsto> (case d_watched_keys (db_of s (c_db (clients s c))) key of None \<Rightarrow> [] | Some cs \<Rightarrow> cs) @ [c])"] only_watch_refl
  by (simp add: watchForKey_def Let_def)

lemma unwatchKey_run:
  assumes i: "watch_inv s" and w: "c_watched_keys (clients s c) = (d, k) # l"
  shows "\<exists>s'. unwatchKey c (d, k) s = Some s' \<and> watch_inv s' \<and> c_watched_keys (clients s' c) = l \<and> only_watch c s s'"
proof -
  have d: "d < length (dbs s)" using watch_okD(2) [OF watch_invD(1) [OF i], of d k c] w by simp
  have cw: "c \<in> watchers s d k" using watch_inv_iff [OF i d] w by simp
  then obtain cs where cs: "d_watched_keys (db_of s d) k = Some cs" "c \<in> set cs" by (auto simp: watchers_def split: option.splits)
  have dcs: "distinct cs" using watch_invD(3) [OF i d cs(1)] .
  have wcs: "watchers s d k = set cs" using cs by (simp add: watchers_def)
  let ?v = "if remove1 c cs = [] then None else Some (remove1 c cs)"
  have v: "(case ?v of None \<Rightarrow> {} | Some cs \<Rightarrow> set cs) = set cs - {c}" using dcs by (cases "remove1 c cs") (auto simp: set_remove1_eq [symmetric])
  let ?s = "upd_cl c (\<lambda>cl. cl\<lparr>c_watched_keys := remove1 (d, k) (c_watched_keys cl)\<rparr>)
    (upd_db d (\<lambda>db. db\<lparr>d_watched_keys := (d_watched_keys db)(k := ?v)\<rparr>) s)"
  have "watch_inv ?s"
  proof (rule watch_invI, goal_cases)
    case (1 e j b)
    then show ?case using d v watch_okD(1) [OF watch_invD(1) [OF i], of e b j] wcs
      by (auto simp: watchers_upd_db split: if_splits)
  next
    case (2 e j b)
    then show ?case using d v wcs watch_inv_iff [OF i, of e b j] w watch_invD(2) [OF i, of c] by (auto simp: watchers_upd_db)
  next
    case (3 e j b)
    then show ?case using watch_okD(2) [OF watch_invD(1) [OF i], of e j b] w by (auto split: if_splits)
  next
    case (4 e)
    then show ?case using watch_invD(2) [OF i, of e] w by auto
  next
    case (5 e j ds)
    then show ?case using watch_invD(3) [OF i, of e j ds] d dcs by (auto split: if_splits)
  qed
  moreover have "unwatchKey c (d, k) s = Some ?s" using cs by (simp add: unwatchKey_def Let_def)
  moreover have "only_watch c s ?s" using only_watch_upd [of c s "remove1 (d, k)" d "\<lambda>m. m(k := ?v)"] by simp
  ultimately show ?thesis using w by auto
qed

lemma unwatchAll_run:
  assumes "watch_inv s"
  shows "\<exists>s'. unwatchAllKeys s c = Some s' \<and> watch_inv s' \<and> c_watched_keys (clients s' c) = [] \<and> only_watch c s s'"
proof -
  have "\<exists>s'. foldM (unwatchKey c) l s = Some s' \<and> watch_inv s' \<and> c_watched_keys (clients s' c) = [] \<and> only_watch c s s'"
    if "watch_inv s" "c_watched_keys (clients s c) = l" for l s using that
  proof (induction l arbitrary: s)
    case (Cons dk l)
    obtain d k where dk: "dk = (d, k)" by fastforce
    obtain s1 where 1: "unwatchKey c dk s = Some s1" "watch_inv s1" "c_watched_keys (clients s1 c) = l" "only_watch c s s1"
      using unwatchKey_run [OF Cons.prems(1)] Cons.prems(2) dk by blast
    obtain s' where "foldM (unwatchKey c) l s1 = Some s'" "watch_inv s'" "c_watched_keys (clients s' c) = []" "only_watch c s1 s'"
      using Cons.IH [OF 1(2,3)] by blast
    then show ?case using 1 only_watch_trans [OF 1(4)] by auto
  qed (simp add: only_watch_refl)
  then show ?thesis using assms by (simp add: unwatchAllKeys_def)
qed

section \<open>What a command may do\<close>

definition same_world :: "nat \<Rightarrow> redisServer \<Rightarrow> redisServer \<Rightarrow> bool" where
  "same_world c x y \<longleftrightarrow> length (dbs y) = length (dbs x) \<and> client_list y = client_list x \<and> masterhost y = masterhost x \<and>
     mstime y = mstime x \<and> loading y = loading x \<and> lua_caller y = lua_caller x \<and> lua_time_start y = lua_time_start x \<and>
     commands y = commands x \<and> orig_commands y = orig_commands x \<and> cluster_enabled y = cluster_enabled x \<and>
     maxmemory y = maxmemory x \<and> current_client y = current_client x \<and> proto_max_bulk_len y = proto_max_bulk_len x \<and> (\<forall>e. e \<noteq> c \<longrightarrow> same_client (clients x e) (clients y e))"

definition marked :: "redisServer \<Rightarrow> nat \<Rightarrow> bytes \<Rightarrow> bool" where
  "marked y d k \<longleftrightarrow> (\<forall>e. (d, k) \<in> set (c_watched_keys (clients y e)) \<longrightarrow> CLIENT_DIRTY_CAS \<in> flags y e)"

definition content_ok :: "redisServer \<Rightarrow> redisServer \<Rightarrow> nat \<Rightarrow> bytes \<Rightarrow> bool" where
  "content_ok x y d k \<longleftrightarrow> content y d k = content x d k \<or> (expired x d k \<and> content y d k = (None, None)) \<or> marked y d k"

definition keeps_marks :: "redisServer \<Rightarrow> redisServer \<Rightarrow> bool" where
  "keeps_marks x y \<longleftrightarrow> (\<forall>e dk. dk \<in> set (c_watched_keys (clients x e)) \<longrightarrow> dk \<in> set (c_watched_keys (clients y e)) \<longrightarrow>
     CLIENT_DIRTY_CAS \<in> flags x e \<longrightarrow> CLIENT_DIRTY_CAS \<in> flags y e)"

definition step_ok :: "nat \<Rightarrow> (nat \<times> bytes) set \<Rightarrow> redisServer \<Rightarrow> redisServer \<Rightarrow> bool" where
  "step_ok c P x y \<longleftrightarrow> same_world c x y \<and> (dbs_ok x \<longrightarrow> dbs_ok y) \<and> (idle x \<longrightarrow> idle y) \<and> (watch_inv x \<longrightarrow> watch_inv y) \<and>
     c_db (clients y c) < length (dbs y) \<and> keeps_marks x y \<and>
     (\<forall>d < length (dbs x). \<forall>k. (d, k) \<notin> P \<longrightarrow> content_ok x y d k)"

text \<open>A command other than \<open>WATCH\<close>, and one that also leaves the queue of the client alone.\<close>

definition went :: "nat \<Rightarrow> (nat \<times> bytes) set \<Rightarrow> redisServer \<Rightarrow> redisServer \<Rightarrow> bool" where
  "went c P x y \<longleftrightarrow> step_ok c P x y \<and> set (c_watched_keys (clients y c)) \<subseteq> set (c_watched_keys (clients x c))"

definition moved :: "nat \<Rightarrow> (nat \<times> bytes) set \<Rightarrow> redisServer \<Rightarrow> redisServer \<Rightarrow> bool" where
  "moved c P x y \<longleftrightarrow> step_ok c P x y \<and> set (c_watched_keys (clients y c)) \<subseteq> set (c_watched_keys (clients x c)) \<and>
     c_commands (clients y c) = c_commands (clients x c)"

lemma same_world_trans: "same_world c x y \<Longrightarrow> same_world c y z \<Longrightarrow> same_world c x z"
  unfolding same_world_def using same_client_trans by simp blast

lemma marked_later:
  assumes w: "same_world c y z" and k: "keeps_marks y z" and s: "set (c_watched_keys (clients z c)) \<subseteq> set (c_watched_keys (clients y c))"
    and m: "marked y d k"
  shows "marked z d k"
  unfolding marked_def
proof (intro allI impI)
  fix e
  assume e: "(d, k) \<in> set (c_watched_keys (clients z e))"
  have "(d, k) \<in> set (c_watched_keys (clients y e))" using e s w by (cases "e = c") (auto simp: same_world_def same_client_def)
  then show "CLIENT_DIRTY_CAS \<in> flags z e" using e m k by (auto simp: marked_def keeps_marks_def)
qed

lemma content_ok_trans:
  assumes w: "same_world c x y" "same_world c y z" and k: "keeps_marks y z"
    and s: "set (c_watched_keys (clients z c)) \<subseteq> set (c_watched_keys (clients y c))"
    and c: "content_ok x y d k" "content_ok y z d k"
  shows "content_ok x z d k"
proof -
  have n: "now y = now x" "loading y = loading x" using w(1) by (simp_all add: same_world_def now_def)
  have "expired y d k = expired x d k" if "content y d k = content x d k"
    using that n by (simp add: expired_def content_def cong: option.case_cong)
  moreover have "\<not> expired y d k" if "content y d k = (None, None)" using that by (simp add: expired_def content_def)
  ultimately show ?thesis using c marked_later [OF w(2) k s] unfolding content_ok_def by metis
qed

lemma went_trans:
  assumes "went c P x y" "went c Q y z"
  shows "went c (P \<union> Q) x z"
proof -
  have xy: "same_world c x y" "keeps_marks x y" and yz: "same_world c y z" "keeps_marks y z"
    and s: "set (c_watched_keys (clients z c)) \<subseteq> set (c_watched_keys (clients y c))" "set (c_watched_keys (clients y c)) \<subseteq> set (c_watched_keys (clients x c))"
    using assms by (auto simp: went_def step_ok_def)
  have "content_ok x z d k" if "d < length (dbs x)" "(d, k) \<notin> P \<union> Q" for d k
    using that assms by (intro content_ok_trans [OF xy(1) yz s(1)]) (auto simp: went_def step_ok_def same_world_def)
  moreover have "keeps_marks x z" unfolding keeps_marks_def
  proof (intro allI impI)
    fix e dk
    assume e: "dk \<in> set (c_watched_keys (clients x e))" "dk \<in> set (c_watched_keys (clients z e))" "CLIENT_DIRTY_CAS \<in> flags x e"
    have "dk \<in> set (c_watched_keys (clients y e))" using e(2) s(1) yz(1) by (cases "e = c") (auto simp: same_world_def same_client_def)
    then show "CLIENT_DIRTY_CAS \<in> flags z e" using e xy(2) yz(2) unfolding keeps_marks_def by blast
  qed
  moreover have "dbs_ok x \<longrightarrow> dbs_ok z" "idle x \<longrightarrow> idle z" "watch_inv x \<longrightarrow> watch_inv z" "c_db (clients z c) < length (dbs z)"
    using assms by (auto simp: went_def step_ok_def)
  ultimately show ?thesis using same_world_trans [OF xy(1) yz(1)] s by (auto simp: went_def step_ok_def)
qed

lemma moved_trans: "moved c P x y \<Longrightarrow> moved c Q y z \<Longrightarrow> moved c (P \<union> Q) x z"
  using went_trans [of c P x y Q z] by (simp add: moved_def went_def)

text \<open>Nothing but fields of the client that do not matter here.\<close>

definition still :: "nat \<Rightarrow> redisServer \<Rightarrow> redisServer \<Rightarrow> bool" where
  "still c x y \<longleftrightarrow> same_world c x y \<and> dbs y = dbs x \<and> ready_keys y = ready_keys x \<and>
     c_db (clients y c) = c_db (clients x c) \<and> c_watched_keys (clients y c) = c_watched_keys (clients x c) \<and>
     c_commands (clients y c) = c_commands (clients x c) \<and> (\<forall>e. CLIENT_DIRTY_CAS \<in> flags y e \<longleftrightarrow> CLIENT_DIRTY_CAS \<in> flags x e)"

lemma stillD:
  assumes "still c x y"
  shows "same_world c x y" "dbs y = dbs x" "ready_keys y = ready_keys x" "c_db (clients y c) = c_db (clients x c)"
    "c_watched_keys (clients y e) = c_watched_keys (clients x e)" "c_commands (clients y c) = c_commands (clients x c)"
    "CLIENT_DIRTY_CAS \<in> flags y e \<longleftrightarrow> CLIENT_DIRTY_CAS \<in> flags x e"
    "dbs_ok y = dbs_ok x" "idle y = idle x" "watch_inv x \<Longrightarrow> watch_inv y" "content y = content x" "marked y = marked x"
    "expired y = expired x"
proof -
  show w: "same_world c x y" and d: "dbs y = dbs x" and r: "ready_keys y = ready_keys x" and "c_db (clients y c) = c_db (clients x c)"
    and "c_commands (clients y c) = c_commands (clients x c)"
    using assms by (auto simp: still_def)
  show f: "CLIENT_DIRTY_CAS \<in> flags y e \<longleftrightarrow> CLIENT_DIRTY_CAS \<in> flags x e" for e using assms by (auto simp: still_def)
  show k: "c_watched_keys (clients y e) = c_watched_keys (clients x e)" for e
    using assms by (cases "e = c") (auto simp: still_def same_world_def same_client_def)
  show "dbs_ok y = dbs_ok x" using d by (simp add: dbs_ok_def)
  show "idle y = idle x" using d r by (rule idle_cong)
  show "content y = content x" using d by (auto simp: fun_eq_iff content_def)
  show "marked y = marked x" unfolding marked_def fun_eq_iff k f by simp
  show "expired y = expired x" using d w by (auto simp: fun_eq_iff expired_def now_def same_world_def cong: option.case_cong)
  show "watch_inv y" if i: "watch_inv x" using w d k by (intro watch_inv_cong [OF _ _ _ _ i]) (auto simp: same_world_def)
qed

lemma still_keeps: "still c x y \<Longrightarrow> keeps_marks x y"
  unfolding keeps_marks_def using stillD(7) by blast

lemma still_moved: "still c x y \<Longrightarrow> c_db (clients x c) < length (dbs x) \<Longrightarrow> moved c {} x y"
  using stillD [of c x y] still_keeps [of c x y] by (simp add: moved_def step_ok_def content_ok_def)

lemma still_step:
  assumes s: "still c x y" "step_ok c P y z" "still c z w"
  shows "step_ok c P x w"
proof -
  note a = stillD [OF s(1)] and b = stillD [OF s(3)]
  have w: "same_world c x w" using same_world_trans [OF same_world_trans [OF a(1) _] b(1)] s(2) by (simp add: step_ok_def)
  have "keeps_marks x w" using s(2) a(5,7) b(5,7) by (simp add: step_ok_def keeps_marks_def)
  moreover have "content_ok x w d k" if "d < length (dbs x)" "(d, k) \<notin> P" for d k
    using that s(2) a(2) by (simp add: step_ok_def content_ok_def a(11,13) b(11,12))
  ultimately show ?thesis using s(2) w a(2,8-10) b(2,4,8-10) by (simp add: step_ok_def)
qed

lemma still_refl [simp]: "still c x x"
  by (simp add: still_def same_world_def)

lemma frame_moved:
  assumes f: "frame P x y" and i: "watch_inv x" and c: "c_db (clients x c) < length (dbs x)"
  shows "moved c P x y"
proof -
  have k: "c_watched_keys (clients y e) = c_watched_keys (clients x e)" "c_db (clients y e) = c_db (clients x e)"
    "c_commands (clients y e) = c_commands (clients x e)" "CLIENT_DIRTY_CAS \<in> flags x e \<Longrightarrow> CLIENT_DIRTY_CAS \<in> flags y e" for e
    using f by (auto simp: frame_def same_client_def)
  have l: "length (dbs y) = length (dbs x)" "client_list y = client_list x"
    "\<And>d. d < length (dbs x) \<Longrightarrow> d_watched_keys (db_of y d) = d_watched_keys (db_of x d)"
    using f by (auto simp: frame_def)
  have iy: "watch_inv y" using l k by (intro watch_inv_cong [OF _ _ _ _ i]) auto
  have "touched y d j \<Longrightarrow> marked y d j" if "d < length (dbs x)" for d j
    using watch_inv_iff [OF iy, of d _ j] that l(1) by (auto simp: touched_def marked_def)
  moreover have "changed_ok x y d j" if "d < length (dbs x)" "(d, j) \<notin> P" for d j using that f by (simp add: frame_def)
  ultimately have "content_ok x y d j" if "d < length (dbs x)" "(d, j) \<notin> P" for d j
    using that unfolding changed_ok_def content_ok_def by blast
  moreover have "same_world c x y" using f by (simp add: frame_def same_world_def)
  moreover have "keeps_marks x y" using k(4) by (simp add: keeps_marks_def)
  ultimately show ?thesis using iy k c l(1) f by (simp add: moved_def step_ok_def frame_def)
qed

lemma watch_inv_core [simp]: "watch_inv (core s) = watch_inv s"
proof
  show "watch_inv s \<Longrightarrow> watch_inv (core s)" by (erule watch_inv_cong [rotated 4]) (simp_all add: core_db_def quiet_client_def)
  show "watch_inv (core s) \<Longrightarrow> watch_inv s" by (erule watch_inv_cong [rotated 4]) (simp_all add: core_db_def quiet_client_def)
qed

lemma idle_core [simp]: "idle (core s) = idle s"
  by (auto simp: idle_def core_db_def)

lemma after_moved:
  assumes a: "after c s0 P s" and i: "watch_inv s0" and d: "c_db (clients s0 c) < length (dbs s0)"
  shows "moved c P (core s0) (core s)" "prop_ok s" "c_cmd (clients s c) \<noteq> None" "also_propagate s = also_propagate s0"
    "rewritten s0 c (argv s c) (c_cmd (clients s c))" "CLIENT_FORCE_AOF \<in> flags s c \<Longrightarrow> CLIENT_FORCE_AOF \<in> flags s0 c"
proof -
  obtain av cmd e where r: "during c (recast c av cmd e s0) P s" and rw: "rewritten s0 c av cmd" using a by (auto simp: after_def)
  have f: "frame P (recast c av cmd e (core s0)) (core s)" and e: "e < length (dbs s0)" and p: "prop_ok s"
    and cm: "c_cmd (clients s c) \<noteq> None"
    using r duringD(7,13) [OF r] by (simp_all add: during_def core_recast)
  let ?x = "core s0" and ?y = "recast c av cmd e (core s0)"
  have yc: "c_watched_keys (clients ?y b) = c_watched_keys (clients ?x b)" "c_commands (clients ?y b) = c_commands (clients ?x b)"
    "flags ?y b = flags ?x b" for b by simp_all
  have iy: "watch_inv ?y" by (rule watch_inv_cong [of _ ?x]) (use i in simp_all)
  have "content ?y = content ?x" by (auto simp: fun_eq_iff content_def)
  then have "moved c {} ?x ?y" using e i iy by (simp add: moved_def step_ok_def same_world_def content_ok_def keeps_marks_def)
  moreover have "moved c P ?y (core s)" using frame_moved [OF f iy] e by simp
  ultimately show "moved c P ?x (core s)" using moved_trans [of c "{}" ?x ?y P "core s"] by simp
  show "prop_ok s" "c_cmd (clients s c) \<noteq> None" by fact+
  show "rewritten s0 c (argv s c) (c_cmd (clients s c))" using rw duringD(6,7) [OF r] by simp
  show "also_propagate s = also_propagate s0" using f by (simp add: frame_def)
  have "same_client (clients ?y c) (clients (core s) c)" using f unfolding frame_def by blast
  then show "CLIENT_FORCE_AOF \<in> flags s c \<Longrightarrow> CLIENT_FORCE_AOF \<in> flags s0 c" by (auto simp: same_client_def quiet_client_def)
qed

lemmas during_moved = after_moved [OF during_after]

end
