(* ===== verification/Runs.thy ===== *)
theory Runs
  imports Watch
begin

text \<open>Every modelled command runs.  From a state that satisfies the invariants, with the number of arguments its
  entry in the table asks for, each command returns, keeps the invariants and marks the watchers of the
  keys it changes, and \<open>call\<close> around it can propagate what it did.\<close>

section \<open>What the append only file accepts\<close>

definition feedable :: "redisCommand \<Rightarrow> bytes list \<Rightarrow> bool" where
  "feedable cmd av \<longleftrightarrow> (\<forall>s d. feedAppendOnlyFile s cmd d av \<noteq> None)"

lemma feedable_cmd:
  assumes "\<And>s buf. feedAppendOnlyFile_cmd s cmd av buf \<noteq> None"
  shows "feedable cmd av"
  unfolding feedable_def
proof (intro allI)
  fix s d
  obtain buf s1 where 1: "feedAppendOnlyFile_select s d = Some (buf, s1)" by (cases "d = aof_selected_db s") (auto simp: feedAppendOnlyFile_select_def)
  obtain b where "feedAppendOnlyFile_cmd s1 cmd av buf = Some b" using assms by blast
  then show "feedAppendOnlyFile s cmd d av \<noteq> None" using 1 by (simp add: feedAppendOnlyFile_def)
qed

lemma catExpireAt_total: "\<exists>b. catAppendOnlyExpireAtCommand s buf p k t = Some b"
  by (simp add: catAppendOnlyExpireAtCommand_def Let_def)

lemma feedable_plain: "proc cmd \<in> plain_feed \<Longrightarrow> feedable cmd av"
  using feedAof_plain by (fastforce simp: feedable_def)

lemma feedable_expire:
  assumes "proc cmd \<in> {''expireCommand'', ''pexpireCommand'', ''expireatCommand''}" "length av \<ge> 3"
  shows "feedable cmd av"
proof (rule feedable_cmd)
  fix s buf
  show "feedAppendOnlyFile_cmd s cmd av buf \<noteq> None"
    using assms catExpireAt_total [of s buf "proc cmd"] by (auto simp: feedAppendOnlyFile_cmd_def nth_opt_def)
qed

lemma feedable_setex:
  assumes "proc cmd \<in> {''setexCommand'', ''psetexCommand''}" "length av \<ge> 4"
  shows "feedable cmd av"
proof (rule feedable_cmd)
  fix s buf
  show "feedAppendOnlyFile_cmd s cmd av buf \<noteq> None"
    using assms catExpireAt_total by (fastforce simp: feedAppendOnlyFile_cmd_def nth_opt_def)
qed

text \<open>The loop over the options of \<open>SET\<close>: it stays inside the arguments if the last one is no option, and does not
  find both options if not both words are there.\<close>

definition set_words :: "bytes list \<Rightarrow> bool" where
  "set_words av \<longleftrightarrow> \<not> ((\<exists>a \<in> set (drop 3 av). strcaseeq a ''ex'') \<and> (\<exists>a \<in> set (drop 3 av). strcaseeq a ''px''))"

lemma feedable_set:
  assumes p: "proc cmd = ''setCommand''" and w: "set_words av"
    and l: "length av > 3 \<Longrightarrow> \<not> strcaseeq (last av) ''ex'' \<and> \<not> strcaseeq (last av) ''px''"
  shows "feedable cmd av"
proof (rule feedable_cmd, cases "length av > 3")
  case True
  fix s buf
  let ?f = "\<lambda>i (exarg, pxarg).
      do { exarg \<leftarrow> (if strcaseeq (av ! i) ''ex'' then map_option Some (nth_opt av (i + 1)) else Some exarg);
           pxarg \<leftarrow> (if strcaseeq (av ! i) ''px'' then map_option Some (nth_opt av (i + 1)) else Some pxarg);
           Some (exarg, pxarg) }"
  have "wp (foldM ?f js (None, None)) (\<lambda>(ex, px). (ex \<noteq> None \<longrightarrow> (\<exists>a \<in> set (drop 3 av). strcaseeq a ''ex'')) \<and>
      (px \<noteq> None \<longrightarrow> (\<exists>a \<in> set (drop 3 av). strcaseeq a ''px'')))" if "set js \<subseteq> {3..<length av}" for js
  proof (rule wp_foldM, goal_cases)
    case (2 i ep)
    then have i: "3 \<le> i" "i < length av" using that by auto
    then have "av ! i = drop 3 av ! (i - 3)" "i - 3 < length (drop 3 av)" by simp_all
    then have m: "av ! i \<in> set (drop 3 av)" by (metis nth_mem)
    have "i + 1 < length av" if "strcaseeq (av ! i) ''ex'' \<or> strcaseeq (av ! i) ''px''"
    proof -
      have "last av = av ! (length av - 1)" using True by (intro last_conv_nth) auto
      then have "i \<noteq> length av - 1" using that l True by auto
      then show ?thesis using i by simp
    qed
    then show ?case using 2 m by (auto simp: wp_def nth_opt_def split: prod.splits)
  qed simp
  from this [of "[3..<length av]"] obtain ex px where f: "foldM ?f [3..<length av] (None, None) = Some (ex, px)"
    and n: "\<not> (ex \<noteq> None \<and> px \<noteq> None)" using w by (auto simp: wp_def set_words_def)
  have "feedAppendOnlyFile_cmd s cmd av buf = (case (ex, px) of (exarg, pxarg) \<Rightarrow>
             if exarg \<noteq> None \<and> pxarg \<noteq> None then None
             else
               do { buf \<leftarrow> (case exarg of None \<Rightarrow> Some (buf @ resp (take 3 av))
                       | Some t \<Rightarrow> catAppendOnlyExpireAtCommand s (buf @ resp (take 3 av)) ''expireCommand'' (av ! 1) t);
                    (case pxarg of None \<Rightarrow> Some buf
                       | Some t \<Rightarrow> catAppendOnlyExpireAtCommand s buf ''pexpireCommand'' (av ! 1) t) })"
    using True p f by (simp add: feedAppendOnlyFile_cmd_def)
  moreover have "catAppendOnlyExpireAtCommand s b q k t \<noteq> None" for b q k t
    using catExpireAt_total [of s b q k t] by auto
  ultimately show "feedAppendOnlyFile_cmd s cmd av buf \<noteq> None" using n by (cases ex; cases px) simp_all
next
  case False
  fix s buf
  show "feedAppendOnlyFile_cmd s cmd av buf \<noteq> None" using False p by (simp add: feedAppendOnlyFile_cmd_def)
qed

lemma is_opt_cstr:
  assumes "is_opt a p q" "p \<noteq> 0" "q \<noteq> 0"
  shows "map lower (cstr a) = [p, q]"
proof -
  obtain a0 a1 r where a: "a @ [0] = a0 # a1 # 0 # r" "lower a0 = p" "lower a1 = q"
    using assms(1) by (auto simp: is_opt_def split: list.splits)
  have "cstr a = takeWhile (\<lambda>x. x \<noteq> 0) (a @ [0])" unfolding cstr_def by (induction a) simp_all
  moreover have "a0 \<noteq> 0" "a1 \<noteq> 0" using a(2,3) assms(2,3) by (auto simp: lower_def)
  ultimately show ?thesis using a by simp
qed

lemma lit_words: "lit ''ex'' = [101, 120]" "lit ''px'' = [112, 120]"
  by (simp_all add: lit_def)

lemma opts_last:
  assumes "setCommand_opts fl un e l = Some (fl', un', e')" "l \<noteq> []" "strcaseeq (last l) ''ex'' \<or> strcaseeq (last l) ''px''"
  shows "e' = Some (last l)"
  using assms
proof (induction fl un e l rule: setCommand_opts.induct)
  case (2 fl un expire a rest)
  have nx: "\<not> strcaseeq a ''ex'' \<and> \<not> strcaseeq a ''px''" if "is_opt a 110 120 \<or> is_opt a 120 120"
    using that is_opt_cstr [of a 110 120] is_opt_cstr [of a 120 120] by (auto simp: strcaseeq_def lit_words)
  show ?case
  proof (cases "is_opt a 110 120 \<and> OBJ_SET_XX \<notin> fl")
    case True
    then show ?thesis using 2 nx by (cases rest) auto
  next
    case False
    note n1 = this
    show ?thesis
    proof (cases "is_opt a 120 120 \<and> OBJ_SET_NX \<notin> fl")
      case True
      then show ?thesis using 2 nx n1 by (cases rest) auto
    next
      case False
      then obtain nx r where r: "rest = nx # r" using "2.prems"(1) n1 by (cases rest) auto
      show ?thesis using 2 n1 False r by (cases r) (auto split: if_splits)
    qed
  qed
qed simp

lemma string2ll_words:
  assumes "string2ll t = Some v"
  shows "map lower (cstr t) \<noteq> [p, 120]"
proof
  assume m: "map lower (cstr t) = [p, 120]"
  then have "120 \<in> lower ` set (cstr t)" by (metis list.set_intros(1,2) list.set_map)
  then obtain y where y: "y \<in> set (cstr t)" "lower y = 120" by auto
  have "y \<in> set (decimal v)" using y(1) assms set_takeWhileD by (fastforce simp: string2ll_iff cstr_def)
  then have "y = 45 \<or> is_dig y" using dec_digits by (auto simp: decimal_def split: if_splits)
  then have "lower y = y" "y \<le> 57" by (auto simp: lower_def is_dig_def word_le_nat_alt)
  then show False using y(2) by simp
qed

lemma set_feed:
  assumes s: "setCommand s c = Some s'" and p: "proc cmd = ''setCommand''" and w: "set_words (argv s c)"
  shows "dirty s' = dirty s \<or> feedable cmd (argv s c)"
proof (cases "setCommand_opts {} UNIT_SECONDS None (drop 3 (argv s c))")
  case None
  then show ?thesis using s by (auto simp: setCommand_def)
next
  case (Some fue)
  obtain fl un e where o: "setCommand_opts {} UNIT_SECONDS None (drop 3 (argv s c)) = Some (fl, un, e)" using Some by (cases fue) auto
  show ?thesis
  proof (cases "\<exists>t. e = Some t \<and> string2ll t = None")
    case True
    then show ?thesis using s o encArg_enc [of s "argv s c ! 2"]
      by (auto simp: setCommand_def setGenericCommand_def setGenericCommand_ms_def getLongLongFromObjectOrReply_def getLongLong_arg
          addReplyErrorLength_def)
  next
    case False
    have "\<not> strcaseeq (last (argv s c)) ''ex'' \<and> \<not> strcaseeq (last (argv s c)) ''px''" if l: "length (argv s c) > 3"
    proof (rule ccontr)
      assume a: "\<not> ?thesis"
      have d: "drop 3 (argv s c) \<noteq> []" "last (drop 3 (argv s c)) = last (argv s c)" using l by simp_all
      have "e = Some (last (argv s c))" using opts_last [OF o d(1)] a d(2) by simp
      then obtain v where v: "string2ll (last (argv s c)) = Some v" using False by auto
      have "map lower (cstr (last (argv s c))) = [101, 120] \<or> map lower (cstr (last (argv s c))) = [112, 120]"
        using a by (auto simp: strcaseeq_def lit_words)
      then show False using string2ll_words [OF v] by simp
    qed
    then show ?thesis using feedable_set [OF p w] by blast
  qed
qed

section \<open>Commands that can be queued\<close>

definition del_ok :: "redisServer \<Rightarrow> bool" where
  "del_ok s \<longleftrightarrow> (\<forall>n \<in> {lit ''DEL'', lit ''UNLINK''}. \<exists>cm. lookupCommandOrOriginal s n = Some cm \<and> proc cm \<in> plain_feed) \<and>
     (\<exists>cm. orig_commands s (lit ''multi'') = Some cm \<and> proc cm \<in> plain_feed)"

definition runnable :: "nat \<Rightarrow> redisServer \<Rightarrow> bool" where
  "runnable c s \<longleftrightarrow> prop_ok s \<and> dbs_ok s \<and> watch_inv s \<and> c \<in> set (client_list s) \<and> c_db (clients s c) < length (dbs s) \<and> del_ok s \<and>
     lua_caller s = None"

text \<open>The requests that are excluded: an offset of \<open>SETRANGE\<close> near the largest integer, both option words in
  a \<open>SET\<close>, and too few arguments, which the check of the arity refuses.\<close>

definition admissible :: "redisCommand \<Rightarrow> bytes list \<Rightarrow> bool" where
  "admissible cmd av \<longleftrightarrow>
     (if proc cmd = ''setCommand'' then set_words av
      else feedable cmd av \<and> (proc cmd = ''setrangeCommand'' \<longrightarrow>
        (case string2ll (av ! 2) of None \<Rightarrow> True | Some off \<Rightarrow> sint off + int (length (av ! 3)) < 2 ^ 63)))"

text \<open>The keys a command may change without marking their watchers.\<close>

definition unseen :: "string \<Rightarrow> bytes list \<Rightarrow> (nat \<times> bytes) set" where
  "unseen p av = (if p = ''persistCommand'' \<or> p = ''moveCommand'' then {(d, k). k = av ! 1}
     else if p = ''swapdbCommand'' then UNIV else {})"

definition ran_to :: "nat \<Rightarrow> (nat \<times> bytes) set \<Rightarrow> redisServer \<Rightarrow> redisServer \<Rightarrow> bool" where
  "ran_to c P s s' \<longleftrightarrow> moved c P (core s) (core s') \<and> prop_ok s' \<and> also_propagate s' = also_propagate s \<and>
     (CLIENT_FORCE_AOF \<in> flags s' c \<longrightarrow> CLIENT_FORCE_AOF \<in> flags s c) \<and>
     (\<exists>cmd. c_cmd (clients s' c) = Some cmd \<and> (dirty s' = dirty s \<or> feedable cmd (argv s' c)))"

lemma after_ran:
  assumes a: "after c s P s'" and r: "runnable c s" and c: "c_cmd (clients s c) = Some cmd" "dirty s' = dirty s \<or> feedable cmd (argv s c)"
  shows "ran_to c P s s'"
proof -
  have i: "watch_inv s" "c_db (clients s c) < length (dbs s)" using r by (simp_all add: runnable_def)
  note m = after_moved [OF a i]
  have "\<exists>cm. c_cmd (clients s' c) = Some cm \<and> (dirty s' = dirty s \<or> feedable cm (argv s' c))"
    using m(5) c r feedable_plain unfolding rewritten_def runnable_def del_ok_def by (metis (lifting))
  then show ?thesis using m by (auto simp: ran_to_def)
qed

lemma moved_mono: "moved c P x y \<Longrightarrow> P \<subseteq> Q \<Longrightarrow> moved c Q x y"
  unfolding moved_def step_ok_def by blast

lemma wp_ran:
  assumes "wp m (after c s P)" "runnable c s" "c_cmd (clients s c) = Some cmd"
    "\<And>s'. m = Some s' \<Longrightarrow> dirty s' = dirty s \<or> feedable cmd (argv s c)" "P \<subseteq> Q"
  shows "wp m (ran_to c Q s)"
proof -
  obtain s' where s': "m = Some s'" "after c s P s'" using assms(1) by (auto simp: wp_def)
  then have "ran_to c P s s'" using after_ran [OF s'(2) assms(2,3)] assms(4) by blast
  then show ?thesis using s'(1) moved_mono assms(5) by (auto simp: wp_def ran_to_def)
qed

lemma runnable_during: "runnable c s \<Longrightarrow> c_cmd (clients s c) = Some cmd \<Longrightarrow> during c s {} s"
  by (simp add: runnable_def during_def)

lemma string_ran:
  assumes f: "string_procs (proc cmd) = Some f" and r: "runnable c s" "c_cmd (clients s c) = Some cmd" and a: "admissible cmd (argv s c)"
  shows "wp (f s c) (ran_to c {} s)"
proof -
  note d = runnable_during [OF r]
  have "wp (setrangeCommand s c) (during c s {})" if "proc cmd = ''setrangeCommand''"
    using a that by (intro wp_setrange [OF d]) (auto simp: admissible_def)
  then have "wp (f s c) (during c s {})"
    using f wp_set_family [OF d] wp_get_family [OF d] wp_incr_family [OF d] wp_mset_family [OF d] wp_append [OF d]
    by (auto simp: string_procs_def split: if_splits)
  then have "wp (f s c) (after c s {})" by (rule wp_during_after)
  then show ?thesis
  proof (rule wp_ran [OF _ r])
    fix s' assume s': "f s c = Some s'"
    show "dirty s' = dirty s \<or> feedable cmd (argv s c)"
    proof (cases "proc cmd = ''setCommand''")
      case True
      then have "f = setCommand" using f by (simp add: string_procs_def)
      then show ?thesis using set_feed [of s c s' cmd] True s' a by (simp add: admissible_def)
    qed (use a in \<open>simp add: admissible_def\<close>)
  qed simp
qed

lemma generic_ran:
  assumes f: "generic_procs (proc cmd) = Some f" and r: "runnable c s" "c_cmd (clients s c) = Some cmd" and a: "admissible cmd (argv s c)"
  shows "wp (f s c) (ran_to c (unseen (proc cmd) (argv s c)) s)"
proof -
  note d = runnable_during [OF r]
  have del: "lookupCommandOrOriginal s n \<noteq> None" if "n \<in> {lit ''DEL'', lit ''UNLINK''}" for n
    using r(1) that by (auto simp: runnable_def del_ok_def)
  have w: "watch_ok s" using r(1) watch_invD(1) by (simp add: runnable_def)
  have "proc cmd \<noteq> ''setCommand''" using f by (auto simp: generic_procs_def split: if_splits)
  then have fd: "feedable cmd (argv s c)" using a by (simp add: admissible_def)
  note run = wp_ran [OF _ r disjI2 [OF fd]]
  have ex: "wp (expireGenericCommand s c t un) (after c s {})" for t un by (rule wp_expire [OF d del])
  obtain dst where mv: "wp (moveCommand s c) (during c s {(cdb s c, argv s c ! 1), (dst, argv s c ! 1)})" using wp_move [OF d] by blast
  obtain x y where sw: "wp (swapdbCommand s c) (during c s {(d, k). d = x \<or> d = y})" using wp_swapdb [OF d] by blast
  have "wp (f s c) (after c s {})" if "proc cmd \<notin> {''persistCommand'', ''moveCommand'', ''swapdbCommand''}"
    using f that ex wp_read_commands [OF d, THEN wp_during_after] wp_del [OF d, THEN wp_during_after] wp_rename [OF d, THEN wp_during_after]
      wp_flush [OF d w, THEN wp_during_after] wp_select [OF d] wp_keys [OF d, THEN wp_during_after]
    by (auto simp: generic_procs_def delCommand_def unlinkCommand_def renameCommand_def renamenxCommand_def expireCommand_def
        expireatCommand_def pexpireCommand_def pexpireatCommand_def split: if_splits)
  moreover have "f = persistCommand" if "proc cmd = ''persistCommand''" using f that by (simp add: generic_procs_def)
  moreover have "f = moveCommand" if "proc cmd = ''moveCommand''" using f that by (simp add: generic_procs_def)
  moreover have "f = swapdbCommand" if "proc cmd = ''swapdbCommand''" using f that by (simp add: generic_procs_def)
  moreover have "wp (persistCommand s c) (ran_to c {(d, k). k = argv s c ! 1} s)"
    by (rule run [OF wp_during_after [OF wp_persist [OF d]]]) auto
  moreover have "wp (moveCommand s c) (ran_to c {(d, k). k = argv s c ! 1} s)" by (rule run [OF wp_during_after [OF mv]]) auto
  moreover have "wp (swapdbCommand s c) (ran_to c UNIV s)" by (rule run [OF wp_during_after [OF sw]]) auto
  ultimately show ?thesis using run [of "f s c" "{}" "{}"] by (auto simp: unseen_def)
qed

lemma still_ran:
  assumes s: "still c (core s) (core s')" and r: "runnable c s" "c_cmd (clients s c) = Some cmd" and p: "prop_ok s'"
    and e: "also_propagate s' = also_propagate s" "CLIENT_FORCE_AOF \<in> flags s' c \<Longrightarrow> CLIENT_FORCE_AOF \<in> flags s c"
      "c_cmd (clients s' c) = Some cmd'" "dirty s' = dirty s"
  shows "ran_to c {} s s'"
  using still_moved [OF s] r p e by (simp add: ran_to_def runnable_def)

lemma quiet_replies [simp]:
  "quiet (addReply s c str) = quiet s" "quiet (addReplyError s c msg) = quiet s" "quiet (addReplyErrorFormat s c b) = quiet s"
  "quiet (reply_bulk s c b) = quiet s"
  by (simp_all add: reply_bulk_def addReplyErrorLength_def)

lemma quiet_ran:
  assumes "quiet s' = quiet s0" "ran_to c P s s0"
  shows "ran_to c P s s'"
  using assms core_quiet [OF assms(1)] prop_ok_quiet [OF assms(1)] quiet_fields [OF assms(1)]
    quiet_client_fields [OF quiet_clients [OF assms(1)], of c] quiet_client_flags [OF quiet_clients [OF assms(1)], of CLIENT_FORCE_AOF c]
  by (simp add: ran_to_def)

lemma ran_refl: "runnable c s \<Longrightarrow> c_cmd (clients s c) = Some cmd \<Longrightarrow> ran_to c {} s s"
  by (rule still_ran) (simp_all add: runnable_def)

lemma small_ran:
  assumes r: "runnable c s" "c_cmd (clients s c) = Some cmd"
  shows "wp (pingCommand s c) (ran_to c {} s)" "wp (echoCommand s c) (ran_to c {} s)" "wp (timeCommand s c) (ran_to c {} s)"
  using r quiet_ran [OF _ ran_refl [OF r]]
  by (auto simp: pingCommand_def echoCommand_def timeCommand_def wp_def addReplyMultiBulkLen_def Let_def simp del: reply_defs)

lemma auth_ran:
  assumes r: "runnable c s" "c_cmd (clients s c) = Some cmd"
  shows "wp (authCommand s c) (ran_to c {} s)"
proof -
  have "ran_to c {} s (upd_cl c (\<lambda>cl. cl\<lparr>c_authenticated := b\<rparr>) s)" for b
  proof (rule still_ran [OF _ r])
    have c: "core (upd_cl c (\<lambda>cl. cl\<lparr>c_authenticated := b\<rparr>) s) = upd_cl c (\<lambda>cl. cl\<lparr>c_authenticated := b\<rparr>) (core s)"
      by (rule core_upd_cl) (simp add: quiet_client_def)
    show "still c (core s) (core (upd_cl c (\<lambda>cl. cl\<lparr>c_authenticated := b\<rparr>) s))"
      unfolding c by (simp add: still_def same_world_def upd_cl_def)
    show "prop_ok (upd_cl c (\<lambda>cl. cl\<lparr>c_authenticated := b\<rparr>) s)"
      using r(1) by (simp add: runnable_def upd_cl_def prop_ok_def backlog_holds_def cong: option.case_cong)
  qed (use r in \<open>simp_all add: upd_cl_def\<close>)
  then show ?thesis using quiet_ran [OF quiet_replies(1)] quiet_ran [OF quiet_replies(2)] quiet_ran [OF quiet_replies(2) ran_refl [OF r]]
    by (auto simp: authCommand_def wp_def simp del: reply_defs split: option.split)
qed

lemma only_watch_core:
  assumes "only_watch c s s'"
  shows "only_watch c (core s) (core s')"
proof -
  obtain ds wl where 1: "s' = upd_cl c (\<lambda>cl. cl\<lparr>c_watched_keys := wl\<rparr>) (s\<lparr>dbs := ds\<rparr>)" "length ds = length (dbs s)"
    "\<forall>d < length (dbs s). \<exists>w. ds ! d = (db_of s d)\<lparr>d_watched_keys := w\<rparr>" using assms by (auto simp: only_watch_def)
  have "core s' = upd_cl c (\<lambda>cl. cl\<lparr>c_watched_keys := wl\<rparr>) (core (s\<lparr>dbs := ds\<rparr>))"
    unfolding 1(1) by (rule core_upd_cl) (simp add: quiet_client_def)
  moreover have "core (s\<lparr>dbs := ds\<rparr>) = (core s)\<lparr>dbs := map core_db ds\<rparr>" by (simp add: core_def erase_def quiet_def)
  moreover have "\<exists>w. map core_db ds ! d = (db_of (core s) d)\<lparr>d_watched_keys := w\<rparr>" if d: "d < length (dbs s)" for d
  proof -
    obtain w where "ds ! d = (db_of s d)\<lparr>d_watched_keys := w\<rparr>" using 1(3) d by blast
    then show ?thesis using d 1(2) by (intro exI [of _ w]) (simp add: core_db_def)
  qed
  ultimately show ?thesis unfolding only_watch_def using 1(2) by (intro exI [of _ "map core_db ds"] exI [of _ wl]) simp
qed

lemma only_watch_step:
  assumes o: "only_watch c x x1" and i: "watch_inv x1" and w: "c_watched_keys (clients x1 c) = []" and d: "c_db (clients x c) < length (dbs x)"
    and f: "\<And>cl. c_watched_keys (f cl) = c_watched_keys cl \<and> c_db (f cl) = c_db cl"
  shows "step_ok c {} x (upd_cl c f x1)"
proof -
  obtain ds wl where 1: "x1 = upd_cl c (\<lambda>cl. cl\<lparr>c_watched_keys := wl\<rparr>) (x\<lparr>dbs := ds\<rparr>)" "length ds = length (dbs x)"
    "\<forall>d < length (dbs x). \<exists>w. ds ! d = (db_of x d)\<lparr>d_watched_keys := w\<rparr>" using o by (auto simp: only_watch_def)
  let ?y = "upd_cl c f x1"
  have dy: "dbs x1 = ds" using 1(1) by simp
  have e: "d_dict (ds ! d) = d_dict (db_of x d) \<and> d_expires (ds ! d) = d_expires (db_of x d) \<and> d_blocking_keys (ds ! d) = d_blocking_keys (db_of x d)"
    if dl: "d < length (dbs x)" for d
  proof -
    obtain w where "ds ! d = (db_of x d)\<lparr>d_watched_keys := w\<rparr>" using 1(3) dl by blast
    then show ?thesis by simp
  qed
  have iy: "watch_inv ?y" by (rule watch_inv_cong [OF _ _ _ _ i]) (use f in auto)
  have cl: "clients ?y e = clients x e" if "e \<noteq> c" for e using that 1(1) by simp
  have "c_watched_keys (clients ?y c) = []" using w f by simp
  then have "keeps_marks x ?y" unfolding keeps_marks_def using cl by (metis empty_iff list.set(1))
  moreover have "content_ok x ?y d k" if "d < length (dbs x)" for d k using e [OF that] dy by (simp add: content_ok_def content_def)
  moreover have "same_world c x ?y" using 1 cl by (simp add: same_world_def upd_cl_def)
  moreover have "dbs_ok x \<longrightarrow> dbs_ok ?y" using e 1(2) by (simp add: dbs_ok_def dy)
  moreover have "idle x \<longrightarrow> idle ?y" using e 1 by (simp add: idle_def dy upd_cl_def)
  ultimately show ?thesis using iy d f 1 by (simp add: step_ok_def dy)
qed

lemma upd_cl_sel2 [simp]:
  "prop_ok (upd_cl c f s) = prop_ok s" "also_propagate (upd_cl c f s) = also_propagate s" "dirty (upd_cl c f s) = dirty s"
  by (simp_all add: upd_cl_def prop_ok_def backlog_holds_def cong: option.case_cong)

lemma only_watch_sel:
  assumes "only_watch c s s'"
  shows "prop_ok s' = prop_ok s" "also_propagate s' = also_propagate s" "dirty s' = dirty s" "length (dbs s') = length (dbs s)"
    "c_cmd (clients s' e) = c_cmd (clients s e)" "flags s' e = flags s e" "c_commands (clients s' e) = c_commands (clients s e)"
    "argv s' e = argv s e" "c_db (clients s' e) = c_db (clients s e)" "client_list s' = client_list s" "orig_commands s' = orig_commands s"
    "commands s' = commands s" "loading s' = loading s" "monitors s' = monitors s" "masterhost s' = masterhost s"
    "clients s' e = clients s e \<or> e = c"
proof -
  obtain ds wl where 1: "s' = upd_cl c (\<lambda>cl. cl\<lparr>c_watched_keys := wl\<rparr>) (s\<lparr>dbs := ds\<rparr>)" "length ds = length (dbs s)"
    using assms by (auto simp: only_watch_def)
  have p: "prop_ok (s\<lparr>dbs := ds\<rparr>) = prop_ok s" by (simp add: prop_ok_def backlog_holds_def cong: option.case_cong)
  show "prop_ok s' = prop_ok s" unfolding 1(1) by (simp add: p)
  show "also_propagate s' = also_propagate s" "dirty s' = dirty s" "length (dbs s') = length (dbs s)"
    "c_cmd (clients s' e) = c_cmd (clients s e)" "flags s' e = flags s e" "c_commands (clients s' e) = c_commands (clients s e)"
    "argv s' e = argv s e" "c_db (clients s' e) = c_db (clients s e)" "client_list s' = client_list s" "orig_commands s' = orig_commands s"
    "commands s' = commands s" "loading s' = loading s" "monitors s' = monitors s" "masterhost s' = masterhost s"
    "clients s' e = clients s e \<or> e = c"
    using 1 by (simp_all add: upd_cl_def)
qed

lemma unwatch_ran:
  assumes r: "runnable c s" "c_cmd (clients s c) = Some cmd"
  shows "wp (unwatchCommand s c) (ran_to c {} s)"
proof -
  have i: "watch_inv s" "c_db (clients s c) < length (dbs s)" "prop_ok s" using r(1) by (simp_all add: runnable_def)
  obtain s1 where 1: "unwatchAllKeys s c = Some s1" "watch_inv s1" "c_watched_keys (clients s1 c) = []" "only_watch c s s1"
    using unwatchAll_run [OF i(1)] by blast
  note o = only_watch_sel [OF 1(4)]
  let ?s = "clear_flags c {CLIENT_DIRTY_CAS} s1"
  have "step_ok c {} (core s) (core ?s)"
    unfolding core_clear_flags unfolding clear_flags_def
    using 1 i by (intro only_watch_step [OF only_watch_core [OF 1(4)]]) (simp_all add: quiet_client_def)
  then have "moved c {} (core s) (core ?s)"
    using 1(3) o(7) [of c] by (simp add: moved_def clear_flags_def quiet_client_def)
  then have "ran_to c {} s ?s" using o i r by (auto simp: ran_to_def clear_flags_def)
  from quiet_ran [OF quiet_replies(1) this] show ?thesis by (simp add: unwatchCommand_def 1(1) wp_def del: reply_defs)
qed

definition queueable :: "string set" where
  "queueable = dom string_procs \<union> dom generic_procs \<union> {''authCommand'', ''pingCommand'', ''echoCommand'', ''timeCommand'', ''unwatchCommand''}"

lemma small_procs [simp]:
  "server_procs ''authCommand'' = Some authCommand" "server_procs ''pingCommand'' = Some pingCommand"
  "server_procs ''echoCommand'' = Some echoCommand" "server_procs ''timeCommand'' = Some timeCommand"
  "server_procs ''unwatchCommand'' = Some unwatchCommand"
  by (simp_all add: server_procs_def)

lemma unseen_none [simp]:
  "string_procs ''persistCommand'' = None" "string_procs ''moveCommand'' = None" "string_procs ''swapdbCommand'' = None"
  "server_procs ''persistCommand'' = None" "server_procs ''moveCommand'' = None" "server_procs ''swapdbCommand'' = None"
  by (simp_all add: string_procs_def server_procs_def)

lemma queued_ran:
  assumes q: "proc cmd \<in> queueable" and r: "runnable c s" "c_cmd (clients s c) = Some cmd" and a: "admissible cmd (argv s c)"
  shows "wp (run_queued (proc cmd) s c) (ran_to c (unseen (proc cmd) (argv s c)) s)"
proof (cases "string_procs (proc cmd)")
  case (Some f)
  then have "unseen (proc cmd) (argv s c) = {}" by (auto simp: unseen_def)
  then show ?thesis using Some string_ran [OF Some r a] by (simp add: run_queued_def)
next
  case None
  note n = this
  show ?thesis
  proof (cases "generic_procs (proc cmd)")
    case (Some f)
    then show ?thesis using n generic_ran [OF Some r a] by (simp add: run_queued_def)
  next
    case None
    then have p: "proc cmd \<in> {''authCommand'', ''pingCommand'', ''echoCommand'', ''timeCommand'', ''unwatchCommand''}"
      using n q by (auto simp: queueable_def)
    then have "unseen (proc cmd) (argv s c) = {}" by (auto simp: unseen_def)
    then show ?thesis using n None p small_ran [OF r] auth_ran [OF r] unwatch_ran [OF r] by (auto simp: run_queued_def)
  qed
qed

section \<open>call\<close>

lemma feedMonitors_quiet: "quiet (replicationFeedMonitors s c d av) = quiet s"
proof -
  have "quiet (fold (\<lambda>m s. addReply s m str) ms s) = quiet s" for str ms s by (induction ms arbitrary: s) (simp_all del: reply_defs)
  then show ?thesis by (simp add: replicationFeedMonitors_def Let_def split: prod.split del: reply_defs)
qed

lemma propagate_ok:
  assumes p: "prop_ok s" and f: "PROPAGATE_AOF \<in> pf \<Longrightarrow> feedable cmd av"
  shows "\<exists>s'. propagate s cmd d av pf = Some s' \<and> core s' = core s \<and> prop_ok s'"
proof -
  obtain s1 where 1: "(if aof_state s \<noteq> AOF_OFF \<and> PROPAGATE_AOF \<in> pf then feedAppendOnlyFile s cmd d av else Some s) = Some s1"
    using f by (cases "aof_state s \<noteq> AOF_OFF \<and> PROPAGATE_AOF \<in> pf") (auto simp: feedable_def)
  have c: "core s1 = core s" "prop_ok s1" using 1 p feedAof_ok by (auto split: if_splits)
  then show ?thesis using 1 feedSlaves_ok [OF c(2), of d av] by (auto simp: propagate_def)
qed

lemma core_fields:
  assumes "core s' = core s"
  shows "also_propagate s' = also_propagate s" "dirty s' = dirty s" "c_cmd (clients s' c) = c_cmd (clients s c)" "argv s' c = argv s c"
    "fl \<notin> {CLIENT_PENDING_WRITE, CLIENT_CLOSE_ASAP} \<Longrightarrow> fl \<in> flags s' c \<longleftrightarrow> fl \<in> flags s c" "loading s' = loading s"
    "lua_caller s' = lua_caller s" "length (dbs s') = length (dbs s)" "client_list s' = client_list s" "watch_inv s' = watch_inv s"
    "dbs_ok s' = dbs_ok s" "idle s' = idle s" "c_db (clients s' c) = c_db (clients s c)" "c_commands (clients s' c) = c_commands (clients s c)"
    "c_watched_keys (clients s' c) = c_watched_keys (clients s c)" "commands s' = commands s" "orig_commands s' = orig_commands s"
    "masterhost s' = masterhost s" "monitors s' = monitors s"
proof -
  have q: "quiet_client (clients s' c) = quiet_client (clients s c)" using arg_cong [OF assms, of "\<lambda>s. clients s c"] by simp
  show "also_propagate s' = also_propagate s" "dirty s' = dirty s" "loading s' = loading s" "lua_caller s' = lua_caller s"
    "client_list s' = client_list s" "commands s' = commands s" "orig_commands s' = orig_commands s" "masterhost s' = masterhost s"
    "monitors s' = monitors s"
    using arg_cong [OF assms, of also_propagate] arg_cong [OF assms, of dirty] arg_cong [OF assms, of loading] arg_cong [OF assms, of lua_caller]
      arg_cong [OF assms, of client_list] arg_cong [OF assms, of commands] arg_cong [OF assms, of orig_commands]
      arg_cong [OF assms, of masterhost] arg_cong [OF assms, of monitors]
    by simp_all
  show "length (dbs s') = length (dbs s)" using arg_cong [OF assms, of "\<lambda>s. length (dbs s)"] by simp
  show "watch_inv s' = watch_inv s" "dbs_ok s' = dbs_ok s" "idle s' = idle s"
    using arg_cong [OF assms, of watch_inv] arg_cong [OF assms, of dbs_ok] arg_cong [OF assms, of idle] by simp_all
  show "c_cmd (clients s' c) = c_cmd (clients s c)" "argv s' c = argv s c" "c_db (clients s' c) = c_db (clients s c)"
    "c_commands (clients s' c) = c_commands (clients s c)" "c_watched_keys (clients s' c) = c_watched_keys (clients s c)"
    using quiet_client_fields [OF q] by simp_all
  show "fl \<notin> {CLIENT_PENDING_WRITE, CLIENT_CLOSE_ASAP} \<Longrightarrow> fl \<in> flags s' c \<longleftrightarrow> fl \<in> flags s c" by (rule quiet_client_flags [OF q])
qed

lemma call_stats_core:
  assumes "lua_caller s = None"
  shows "core (call_stats s c rc cmd fl) = core s" "prop_ok (call_stats s c rc cmd fl) = prop_ok s"
proof -
  have l: "core (latencyAddSampleIfNeeded s ev v) = core s \<and> prop_ok (latencyAddSampleIfNeeded s ev v) = prop_ok s" for s ev v
    by (auto simp: latencyAddSampleIfNeeded_def latencyAddSample_def Let_def prop_ok_def backlog_holds_def split: prod.split cong: option.case_cong)
  have g: "core (slowlogPushEntryIfNeeded s c av d) = core s \<and> prop_ok (slowlogPushEntryIfNeeded s c av d) = prop_ok s" for s av d
    by (simp add: slowlogPushEntryIfNeeded_def slowlogCreateEntry_def Let_def prop_ok_def backlog_holds_def cong: option.case_cong)
  have t: "prop_ok (s\<lparr>cmd_stats := f\<rparr>) = prop_ok s" for s f by (simp add: prop_ok_def backlog_holds_def cong: option.case_cong)
  show "core (call_stats s c rc cmd fl) = core s" "prop_ok (call_stats s c rc cmd fl) = prop_ok s"
    using assms by (auto simp: call_stats_def Let_def l g t split: prod.split)
qed

lemma still_clear:
  assumes "CLIENT_DIRTY_CAS \<notin> fs"
  shows "still c x ((clear_flags c fs x)\<lparr>also_propagate := l\<rparr>)"
  using assms by (auto simp: still_def same_world_def clear_flags_def upd_cl_def)

lemma call_before_still:
  "still c (core s) (core (call_before s c cmd))" "prop_ok (call_before s c cmd) = prop_ok s" "also_propagate (call_before s c cmd) = []"
  "argv (call_before s c cmd) c = argv s c" "c_cmd (clients (call_before s c cmd) c) = c_cmd (clients s c)"
  "CLIENT_FORCE_AOF \<notin> flags (call_before s c cmd) c" "dirty (call_before s c cmd) = dirty s"
  "fl \<notin> prop_flags \<Longrightarrow> fl \<notin> {CLIENT_PENDING_WRITE, CLIENT_CLOSE_ASAP} \<Longrightarrow> fl \<in> flags (call_before s c cmd) c \<longleftrightarrow> fl \<in> flags s c"
proof -
  define t where "t = (if monitors s \<noteq> [] \<and> \<not> loading s \<and> cm_flags cmd \<inter> {CMD_SKIP_MONITOR, CMD_ADMIN} = {}
      then replicationFeedMonitors s c (c_db (clients s c)) (argv s c) else s)"
  have q: "quiet t = quiet s" by (simp add: t_def feedMonitors_quiet)
  have e: "call_before s c cmd = (clear_flags c prop_flags t)\<lparr>also_propagate := []\<rparr>" by (simp add: call_before_def t_def Let_def)
  have ct: "core t = core s" using core_quiet [OF q] .
  have "core (call_before s c cmd) = (clear_flags c prop_flags (core s))\<lparr>also_propagate := []\<rparr>"
    by (simp add: e core_clear_flags ct)
  moreover have "CLIENT_DIRTY_CAS \<notin> prop_flags" by (simp add: prop_flags_def CLIENT_PREVENT_PROP_def)
  ultimately show "still c (core s) (core (call_before s c cmd))" using still_clear by simp
  show "prop_ok (call_before s c cmd) = prop_ok s"
    using prop_ok_quiet [OF q] by (simp add: e clear_flags_def prop_ok_def backlog_holds_def upd_cl_def cong: option.case_cong)
  show "also_propagate (call_before s c cmd) = []" "argv (call_before s c cmd) c = argv s c" "c_cmd (clients (call_before s c cmd) c) = c_cmd (clients s c)"
    "CLIENT_FORCE_AOF \<notin> flags (call_before s c cmd) c" "dirty (call_before s c cmd) = dirty s"
    using core_fields(1-4) [OF ct] by (simp_all add: e clear_flags_def prop_flags_def upd_cl_def)
  show "fl \<in> flags (call_before s c cmd) c \<longleftrightarrow> fl \<in> flags s c" if "fl \<notin> prop_flags" "fl \<notin> {CLIENT_PENDING_WRITE, CLIENT_CLOSE_ASAP}"
    using that core_fields(5) [OF ct, of fl c] by (simp add: e clear_flags_def upd_cl_def)
qed

text \<open>A relation between the states before and after that does not see what \<open>call\<close> does besides the command.\<close>

definition loose :: "nat \<Rightarrow> (redisServer \<Rightarrow> redisServer \<Rightarrow> bool) \<Rightarrow> bool" where
  "loose c R \<longleftrightarrow> (\<forall>x y z w. still c x y \<longrightarrow> R y z \<longrightarrow> still c z w \<longrightarrow> R x w)"

definition ends :: "nat \<Rightarrow> (redisServer \<Rightarrow> redisServer \<Rightarrow> bool) \<Rightarrow> redisServer \<Rightarrow> redisServer \<Rightarrow> bool" where
  "ends c R s s' \<longleftrightarrow> R (core s) (core s') \<and> prop_ok s' \<and> also_propagate s' = also_propagate s \<and> lua_caller s' = lua_caller s \<and>
     (CLIENT_FORCE_AOF \<in> flags s' c \<longrightarrow> CLIENT_FORCE_AOF \<in> flags s c) \<and>
     (\<exists>cmd. c_cmd (clients s' c) = Some cmd \<and> (dirty s' = dirty s \<or> feedable cmd (argv s' c)))"

lemma loose_step: "loose c (step_ok c P)"
  unfolding loose_def using still_step by blast

lemma loose_moved: "loose c (moved c P)"
  unfolding loose_def
proof (intro allI impI)
  fix x y z w
  assume a: "still c x y" "moved c P y z" "still c z w"
  have "step_ok c P x w" using still_step [OF a(1) _ a(3)] a(2) by (simp add: moved_def)
  then show "moved c P x w" using a(2) stillD(5,6) [OF a(1)] stillD(5,6) [OF a(3)] by (simp add: moved_def)
qed

lemma ran_ends: "ran_to c P s s' \<Longrightarrow> ends c (moved c P) s s'"
  by (auto simp: ran_to_def ends_def moved_def step_ok_def same_world_def)

lemma runnable_still:
  assumes r: "runnable c s" and t: "still c (core s) (core s')" and p: "prop_ok s'"
  shows "runnable c s'"
proof -
  note f = stillD [OF t]
  have "length (dbs s') = length (dbs s)" using arg_cong [OF f(2), of length] by simp
  moreover have "commands s' = commands s" "orig_commands s' = orig_commands s" "client_list s' = client_list s" "lua_caller s' = lua_caller s"
    using f(1) by (simp_all add: same_world_def)
  moreover have "dbs_ok s' = dbs_ok s" "c_db (clients s' c) = c_db (clients s c)" using f(4,8) by simp_all
  moreover have "watch_inv s'" using f(10) r by (simp add: runnable_def)
  ultimately show ?thesis using r p by (simp add: runnable_def del_ok_def lookupCommandOrOriginal_def cong: option.case_cong)
qed

lemma propagate_flags_aof: "PROPAGATE_AOF \<in> call_propagate_flags s c dirt fl \<Longrightarrow> dirt \<noteq> 0 \<or> CLIENT_FORCE_AOF \<in> flags s c"
  by (auto simp: call_propagate_flags_def Let_def split: if_splits)

lemma call_propagate_ok:
  assumes "prop_ok s" "dirt = 0 \<or> feedable cmd (argv s c)" "CLIENT_FORCE_AOF \<notin> flags s c"
  shows "\<exists>s'. call_propagate s c cmd dirt fl = Some s' \<and> core s' = core s \<and> prop_ok s'"
  using assms propagate_ok [of s "call_propagate_flags s c dirt fl" cmd "argv s c"] propagate_flags_aof [of s c dirt fl]
  by (auto simp: call_propagate_def Let_def)

lemma wp_call:
  assumes r: "runnable c s" "c_cmd (clients s c) = Some cmd" and R: "loose c R"
    and f: "\<And>s1. runnable c s1 \<Longrightarrow> c_cmd (clients s1 c) = Some cmd \<Longrightarrow> argv s1 c = argv s c \<Longrightarrow> still c (core s) (core s1) \<Longrightarrow>
      (\<And>fl. fl \<notin> prop_flags \<Longrightarrow> fl \<notin> {CLIENT_PENDING_WRITE, CLIENT_CLOSE_ASAP} \<Longrightarrow> fl \<in> flags s1 c \<longleftrightarrow> fl \<in> flags s c) \<Longrightarrow>
      wp (procs (proc cmd) s1 c) (ends c R s1)"
  shows "wp (call_with procs s c fl) (\<lambda>s'. R (core s) (core s') \<and> prop_ok s' \<and> also_propagate s' = also_propagate s \<and>
    lua_caller s' = None \<and> c_cmd (clients s' c) \<noteq> None \<and> (CLIENT_FORCE_AOF \<in> flags s' c \<longleftrightarrow> CLIENT_FORCE_AOF \<in> flags s c))"
proof -
  let ?s1 = "call_before s c cmd"
  note b = call_before_still [where c = c and s = s and cmd = cmd]
  have p: "prop_ok s" "lua_caller s = None" using r(1) by (simp_all add: runnable_def)
  have r1: "runnable c ?s1" using runnable_still [OF r(1) b(1)] b(2) p by simp
  obtain s2 where 2: "procs (proc cmd) ?s1 c = Some s2" "ends c R ?s1 s2" using f [OF r1 _ b(4) b(1) b(8)] b(5) r(2) by (auto simp: wp_def)
  obtain cmd2 where c2: "c_cmd (clients s2 c) = Some cmd2" "dirty s2 = dirty s \<or> feedable cmd2 (argv s2 c)"
    using 2(2) b(7) by (auto simp: ends_def)
  have l2: "lua_caller s2 = None" using 2(2) r1 by (simp add: ends_def runnable_def)
  have e2: "R (core ?s1) (core s2)" "prop_ok s2" "also_propagate s2 = []" "CLIENT_FORCE_AOF \<notin> flags s2 c" using 2(2) b(3,6) by (auto simp: ends_def)
  define dirt where "dirt = (if dirty s2 - dirty s < 0 then 0 else dirty s2 - dirty s)"
  define s3 where "s3 = call_stats s2 c cmd cmd2 fl"
  have s3: "core s3 = core s2" "prop_ok s3" using call_stats_core [OF l2] e2(2) by (simp_all add: s3_def)
  have d3: "dirt = 0 \<or> feedable cmd2 (argv s3 c)" "CLIENT_FORCE_AOF \<notin> flags s3 c"
    using c2(2) core_fields(4) [OF s3(1), of c] core_fields(5) [OF s3(1), of CLIENT_FORCE_AOF c] e2(4) by (auto simp: dirt_def)
  obtain s4 where 4: "call_propagate s3 c cmd2 dirt fl = Some s4" "core s4 = core s3" "prop_ok s4"
    using call_propagate_ok [OF s3(2) d3] by blast
  define g where "g cl = cl\<lparr>c_flags := c_flags cl - prop_flags \<union> flags s c \<inter> prop_flags\<rparr>" for cl :: client
  let ?s5 = "upd_cl c g s4"
  have a5: "also_propagate ?s5 = []" using e2(3) s3 4 core_fields(1) [of s4 s2] by simp
  let ?s6 = "?s5\<lparr>also_propagate := also_propagate s, stat_numcommands := stat_numcommands ?s5 + 1\<rparr>"
  have a6: "call_also_propagate ?s5 fl = Some ?s5" using a5 by (simp add: call_also_propagate_def)
  have 4: "call_propagate (call_stats s2 c cmd cmd2 fl) c cmd2 (if dirty s2 - dirty ?s1 < 0 then 0 else dirty s2 - dirty ?s1) fl = Some s4"
    "core s4 = core s3" "prop_ok s4"
    using 4 by (simp_all only: s3_def dirt_def b(7))
  have g: "(\<lambda>cl. cl\<lparr>c_flags := c_flags cl - prop_flags \<union> flags s c \<inter> prop_flags\<rparr>) = g" by (simp add: g_def fun_eq_iff)
  have run: "call_with procs s c fl = Some ?s6"
    unfolding call_with_def Let_def r(2) option.case 2(1) bind.bind_lunit c2(1) 4(1) g a6 by simp
  have "a - prop_flags \<union> b \<inter> prop_flags - {CLIENT_PENDING_WRITE, CLIENT_CLOSE_ASAP} =
      a - {CLIENT_PENDING_WRITE, CLIENT_CLOSE_ASAP} - prop_flags \<union> b \<inter> prop_flags" for a b
    by (auto simp: prop_flags_def CLIENT_PREVENT_PROP_def)
  then have "core ?s5 = upd_cl c g (core s4)"
    by (intro core_upd_cl) (simp add: quiet_client_def g_def)
  then have c6: "core ?s6 = (upd_cl c g (core s2))\<lparr>also_propagate := also_propagate s\<rparr>" using 4(2) s3(1) by simp
  have "still c (core s2) (core ?s6)" unfolding c6
    by (auto simp: still_def same_world_def upd_cl_def g_def prop_flags_def CLIENT_PREVENT_PROP_def)
  then have "R (core s) (core ?s6)" using R b(1) e2(1) unfolding loose_def by blast
  moreover have "prop_ok ?s6" using 4(3) by (simp add: prop_ok_def backlog_holds_def upd_cl_def cong: option.case_cong)
  moreover have "c_cmd (clients ?s6 c) \<noteq> None" using c2(1) core_fields(3) [of s4 s2 c] 4(2) s3(1) by (simp add: g_def)
  moreover have "lua_caller ?s6 = None" using l2 core_fields(7) [of s4 s2] 4(2) s3(1) by (simp add: upd_cl_def)
  moreover have "CLIENT_FORCE_AOF \<in> flags ?s6 c \<longleftrightarrow> CLIENT_FORCE_AOF \<in> flags s c" by (simp add: g_def prop_flags_def)
  ultimately show ?thesis using run by (simp add: wp_def)
qed

end
