(* ===== verification/Exec.thy ===== *)
theory Exec
  imports Runs
begin

text \<open>Transactions run.  \<open>DISCARD\<close>, \<open>WATCH\<close>, \<open>MULTI\<close> and \<open>EXEC\<close> return from every state that satisfies the invariants,
  \<open>EXEC\<close> whatever commands of the model are in the queue.\<close>

section \<open>Composition of steps\<close>

lemma runnable_step:
  assumes r: "runnable c s" and t: "step_ok c P (core s) (core s')" and p: "prop_ok s'"
  shows "runnable c s'"
proof -
  have "length (dbs s') = length (dbs s)" "commands s' = commands s" "orig_commands s' = orig_commands s" "client_list s' = client_list s"
    "lua_caller s' = lua_caller s" "dbs_ok s'" "watch_inv s'" "c_db (clients s' c) < length (dbs s')"
    using t r by (auto simp: step_ok_def same_world_def runnable_def)
  then show ?thesis using r p by (simp add: runnable_def del_ok_def lookupCommandOrOriginal_def cong: option.case_cong)
qed

lemma moved_went: "moved c P x y \<Longrightarrow> went c P x y"
  by (simp add: moved_def went_def)

lemma went_mono: "went c P x y \<Longrightarrow> P \<subseteq> Q \<Longrightarrow> went c Q x y"
  unfolding went_def step_ok_def by blast

lemma loose_went: "loose c (went c P)"
  unfolding loose_def
proof (intro allI impI)
  fix x y z w
  assume a: "still c x y" "went c P y z" "still c z w"
  have "step_ok c P x w" using still_step [OF a(1) _ a(3)] a(2) by (simp add: went_def)
  then show "went c P x w" using a(2) stillD(5) [OF a(1)] stillD(5) [OF a(3)] by (simp add: went_def)
qed

lemma still_went: "still c x y \<Longrightarrow> c_db (clients x c) < length (dbs x) \<Longrightarrow> went c {} x y"
  by (rule moved_went) (rule still_moved)

lemma step_ok_upd:
  assumes t: "step_ok c P x y" and f: "c_watched_keys (f (clients y c)) = c_watched_keys (clients y c)" "c_db (f (clients y c)) = c_db (clients y c)"
    "CLIENT_DIRTY_CAS \<in> c_flags (f (clients y c)) \<longleftrightarrow> CLIENT_DIRTY_CAS \<in> flags y c"
  shows "step_ok c P x (upd_cl c f y)"
proof -
  let ?z = "upd_cl c f y"
  have k: "c_watched_keys (clients ?z e) = c_watched_keys (clients y e)" "CLIENT_DIRTY_CAS \<in> flags ?z e \<longleftrightarrow> CLIENT_DIRTY_CAS \<in> flags y e" for e
    using f by (auto simp: upd_cl_def)
  have "marked ?z = marked y" unfolding marked_def fun_eq_iff k by simp
  then have "content_ok x ?z = content_ok x y" by (simp add: fun_eq_iff content_ok_def content_def)
  moreover have "keeps_marks x ?z = keeps_marks x y" unfolding keeps_marks_def k by simp
  moreover have "same_world c x ?z = same_world c x y" by (auto simp: same_world_def upd_cl_def)
  moreover have "watch_inv y \<Longrightarrow> watch_inv ?z" by (erule watch_inv_cong [rotated 4]) (use k(1) in simp_all)
  moreover have "dbs_ok ?z = dbs_ok y" "idle ?z = idle y" by (simp_all add: dbs_ok_def idle_def upd_cl_def)
  ultimately show ?thesis using t f by (simp add: step_ok_def)
qed

lemma went_upd:
  assumes "went c P x y" "c_watched_keys (f (clients y c)) = c_watched_keys (clients y c)" "c_db (f (clients y c)) = c_db (clients y c)"
    "CLIENT_DIRTY_CAS \<in> c_flags (f (clients y c)) \<longleftrightarrow> CLIENT_DIRTY_CAS \<in> flags y c"
  shows "went c P x (upd_cl c f y)"
  using step_ok_upd [of c P x y f] assms by (simp add: went_def)

section \<open>Discarding\<close>

definition discarded :: "client \<Rightarrow> client" where
  "discarded cl = cl\<lparr>c_commands := [], c_mstate_cmd_flags := {},
     c_flags := c_flags cl - {CLIENT_MULTI, CLIENT_DIRTY_CAS, CLIENT_DIRTY_EXEC}\<rparr>"

lemma discard_only:
  assumes i: "watch_inv s"
  shows "\<exists>s1. discardTransaction s c = Some (upd_cl c discarded s1) \<and> only_watch c s s1 \<and> c_watched_keys (clients s1 c) = [] \<and>
    watch_inv s1"
proof -
  let ?s0 = "upd_cl c discarded s"
  have "watch_inv ?s0" by (rule watch_inv_cong [OF _ _ _ _ i]) (auto simp: discarded_def)
  then obtain s2 where 2: "unwatchAllKeys ?s0 c = Some s2" "watch_inv s2" "c_watched_keys (clients s2 c) = []" "only_watch c ?s0 s2"
    using unwatchAll_run by blast
  obtain ds wl where o: "s2 = upd_cl c (\<lambda>cl. cl\<lparr>c_watched_keys := wl\<rparr>) (?s0\<lparr>dbs := ds\<rparr>)" "length ds = length (dbs s)"
    "\<forall>d < length (dbs s). \<exists>w. ds ! d = (db_of s d)\<lparr>d_watched_keys := w\<rparr>" using 2(4) by (auto simp: only_watch_def)
  let ?s1 = "upd_cl c (\<lambda>cl. cl\<lparr>c_watched_keys := wl\<rparr>) (s\<lparr>dbs := ds\<rparr>)"
  have 1: "only_watch c s ?s1" using o(2,3) unfolding only_watch_def by blast
  have "discarded (cl\<lparr>c_watched_keys := wl\<rparr>) = (discarded cl)\<lparr>c_watched_keys := wl\<rparr>" for cl by (cases cl) (simp add: discarded_def)
  then have e: "s2 = upd_cl c discarded ?s1" unfolding o(1) by (simp add: upd_cl_def)
  have w: "c_watched_keys (clients ?s1 c) = []" using 2(3) unfolding o(1) by simp
  have "watch_inv ?s1" by (rule watch_inv_cong [OF _ _ _ _ 2(2)]) (auto simp: e discarded_def)
  moreover have "discardTransaction s c = Some (upd_cl c discarded ?s1)"
    using 2(1) by (simp add: e discardTransaction_def Let_def clear_flags_def initClientMultiState_def discarded_def upd_cl_def)
  ultimately show ?thesis using 1 w by blast
qed

lemma quiet_discarded: "quiet_client (discarded cl) = discarded (quiet_client cl)"
  by (cases cl) (auto simp: quiet_client_def discarded_def)

lemma discard_run:
  assumes r: "runnable c s"
  shows "\<exists>s1. discardTransaction s c = Some (upd_cl c discarded s1) \<and> only_watch c s s1 \<and> c_watched_keys (clients s1 c) = [] \<and>
    went c {} (core s) (core (upd_cl c discarded s1)) \<and> runnable c (upd_cl c discarded s1)"
proof -
  have i: "watch_inv s" "c_db (clients s c) < length (dbs s)" "prop_ok s" using r by (simp_all add: runnable_def)
  obtain s1 where 1: "discardTransaction s c = Some (upd_cl c discarded s1)" "only_watch c s s1" "c_watched_keys (clients s1 c) = []" "watch_inv s1"
    using discard_only [OF i(1)] by blast
  have st: "step_ok c {} (core s) (upd_cl c discarded (core s1))"
    using i 1 by (intro only_watch_step [OF only_watch_core [OF 1(2)]]) (simp_all add: quiet_client_def discarded_def)
  have c: "core (upd_cl c discarded s1) = upd_cl c discarded (core s1)" by (rule core_upd_cl) (rule quiet_discarded)
  have wt: "went c {} (core s) (core (upd_cl c discarded s1))" using st 1(3) by (simp add: went_def c discarded_def quiet_client_def)
  have "prop_ok (upd_cl c discarded s1)" using only_watch_sel(1) [OF 1(2)] i(3) by simp
  then have "runnable c (upd_cl c discarded s1)" using runnable_step [OF r] wt by (auto simp: went_def)
  then show ?thesis using 1 wt by blast
qed

section \<open>Running the queue\<close>

definition queued_ok :: "multiCmd \<Rightarrow> bool" where
  "queued_ok mc \<longleftrightarrow> proc (mc_cmd mc) \<in> queueable \<and> admissible (mc_cmd mc) (mc_argv mc)"

definition unseen_by :: "multiCmd list \<Rightarrow> (nat \<times> bytes) set" where
  "unseen_by q = (\<Union>mc \<in> set q. unseen (proc (mc_cmd mc)) (mc_argv mc))"

lemma queued_call:
  assumes r: "runnable c s" "c_cmd (clients s c) = Some cmd" and q: "proc cmd \<in> queueable" "admissible cmd (argv s c)"
  shows "wp (call_with run_queued s c fl) (\<lambda>s'. moved c (unseen (proc cmd) (argv s c)) (core s) (core s') \<and> prop_ok s' \<and>
    also_propagate s' = also_propagate s \<and> lua_caller s' = None \<and> c_cmd (clients s' c) \<noteq> None \<and>
    (CLIENT_FORCE_AOF \<in> flags s' c \<longleftrightarrow> CLIENT_FORCE_AOF \<in> flags s c))"
proof (rule wp_call [OF r loose_moved])
  fix s1
  assume 1: "runnable c s1" "c_cmd (clients s1 c) = Some cmd" "argv s1 c = argv s c"
  have "wp (run_queued (proc cmd) s1 c) (ran_to c (unseen (proc cmd) (argv s c)) s1)"
    using queued_ran [OF q(1) 1(1,2)] q(2) 1(3) by simp
  then show "wp (run_queued (proc cmd) s1 c) (ends c (moved c (unseen (proc cmd) (argv s c))) s1)" using ran_ends by (auto simp: wp_def)
qed

lemma propagate_multi:
  assumes "runnable c s"
  shows "\<exists>s'. execCommandPropagateMulti s c = Some s' \<and> core s' = core s \<and> prop_ok s'"
proof -
  obtain m where m: "orig_commands s (lit ''multi'') = Some m" "feedable m av" for av
    using assms feedable_plain by (auto simp: runnable_def del_ok_def)
  have "prop_ok s" using assms by (simp add: runnable_def)
  then show ?thesis using propagate_ok [of s "{PROPAGATE_AOF, PROPAGATE_REPL}" m "[lit ''MULTI'']"] m by (simp add: execCommandPropagateMulti_def)
qed

lemma core_runnable: "core s' = core s \<Longrightarrow> prop_ok s' \<Longrightarrow> runnable c s \<Longrightarrow> runnable c s'"
  using runnable_still [of c s s'] still_refl [of c "core s"] by simp

lemma wp_exec_round:
  assumes r: "runnable c s" and q: "queued_ok (c_commands (clients s c) ! j)"
  shows "wp (exec_round run_queued c j (mp, s)) (\<lambda>(mp', s'). runnable c s' \<and>
    went c (unseen_by [c_commands (clients s c) ! j]) (core s) (core s') \<and> also_propagate s' = also_propagate s \<and>
    (\<exists>mc. c_commands (clients s' c) = (c_commands (clients s c))[j := mc]) \<and>
    (CLIENT_FORCE_AOF \<in> flags s' c \<longleftrightarrow> CLIENT_FORCE_AOF \<in> flags s c))"
proof -
  define mc where "mc = c_commands (clients s c) ! j"
  define f where "f cl = cl\<lparr>c_argv := mc_argv mc, c_cmd := Some (mc_cmd mc)\<rparr>" for cl :: client
  let ?s1 = "upd_cl c f s"
  let ?P = "unseen_by [mc]"
  have c1: "core ?s1 = upd_cl c f (core s)" by (rule core_upd_cl) (simp add: f_def quiet_client_def)
  have st: "still c (core s) (core ?s1)" unfolding c1 by (simp add: still_def same_world_def upd_cl_def f_def)
  have r1: "runnable c ?s1" by (rule runnable_still [OF r st]) (use r in \<open>simp add: runnable_def\<close>)
  let ?m = "if \<not> mp \<and> cm_flags (mc_cmd mc) \<inter> {CMD_READONLY, CMD_ADMIN} = {}
    then do { s \<leftarrow> execCommandPropagateMulti ?s1 c; Some (True, s) } else Some (mp, ?s1)"
  have "prop_ok ?s1" using r1 by (simp add: runnable_def)
  then have "\<exists>mp2 s2. ?m = Some (mp2, s2) \<and> core s2 = core ?s1 \<and> prop_ok s2"
    using propagate_multi [OF r1] by (cases "\<not> mp \<and> cm_flags (mc_cmd mc) \<inter> {CMD_READONLY, CMD_ADMIN} = {}") auto
  then obtain mp2 s2 where 2: "?m = Some (mp2, s2)" "core s2 = core ?s1" "prop_ok s2" by blast
  have r2: "runnable c s2" using core_runnable [OF 2(2,3) r1] .
  have a2: "c_cmd (clients s2 c) = Some (mc_cmd mc)" "argv s2 c = mc_argv mc" "c_commands (clients s2 c) = c_commands (clients s c)"
    "also_propagate s2 = also_propagate s" "CLIENT_FORCE_AOF \<in> flags s2 c \<longleftrightarrow> CLIENT_FORCE_AOF \<in> flags s c"
    using core_fields(1) [OF 2(2)] core_fields(3,4,14) [OF 2(2), of c] core_fields(5) [OF 2(2), of CLIENT_FORCE_AOF c] by (simp_all add: f_def)
  obtain s3 where 3: "call_with run_queued s2 c (if loading s2 then {} else CMD_CALL_FULL) = Some s3"
    "moved c (unseen (proc (mc_cmd mc)) (mc_argv mc)) (core s2) (core s3)" "prop_ok s3" "also_propagate s3 = also_propagate s2"
    "lua_caller s3 = None" "c_cmd (clients s3 c) \<noteq> None" "CLIENT_FORCE_AOF \<in> flags s3 c \<longleftrightarrow> CLIENT_FORCE_AOF \<in> flags s2 c"
    using queued_call [OF r2 a2(1), of "if loading s2 then {} else CMD_CALL_FULL"] q a2(2) by (auto simp: queued_ok_def wp_def mc_def)
  obtain cmd where cmd: "c_cmd (clients s3 c) = Some cmd" using 3(6) by blast
  define h where "h cl = cl\<lparr>c_commands := (c_commands cl)[j := \<lparr>mc_argv = c_argv cl, mc_cmd = cmd\<rparr>]\<rparr>" for cl :: client
  let ?s4 = "upd_cl c h s3"
  have F: "(\<lambda>cl. cl\<lparr>c_argv := mc_argv mc, c_cmd := Some (mc_cmd mc)\<rparr>) = f" by (simp add: f_def fun_eq_iff)
  have run: "exec_round run_queued c j (mp, s) = Some (mp2, ?s4)"
    unfolding exec_round_def Let_def prod.case mc_def [symmetric] F 2(1) bind.bind_lunit 3(1) cmd by (simp add: h_def [abs_def])
  have c4: "core ?s4 = upd_cl c h (core s3)" by (rule core_upd_cl) (simp add: h_def quiet_client_def)
  have "went c ?P (core s2) (core s3)" using moved_went [OF 3(2)] by (simp add: unseen_by_def)
  then have "went c ?P (core s) (core s3)"
    using went_trans [OF still_went [OF st] _, of "?P" "core s3"] r 2(2) by (simp add: runnable_def)
  then have w: "went c ?P (core s) (core ?s4)" unfolding c4 by (rule went_upd) (simp_all add: h_def)
  have "runnable c ?s4" by (rule runnable_step [OF r]) (use w 3(3) in \<open>auto simp: went_def\<close>)
  moreover have "c_commands (clients s3 c) = c_commands (clients s c)" using 3(2) a2(3) by (simp add: moved_def)
  ultimately show ?thesis using w 3(4,7) a2 by (auto simp: run wp_def h_def mc_def [symmetric])
qed

lemma went_refl: "runnable c s \<Longrightarrow> went c {} (core s) (core s)"
  by (rule still_went) (simp_all add: runnable_def)

lemma wp_exec_rounds:
  assumes "runnable c s" "drop j (c_commands (clients s c)) = q" "\<forall>mc \<in> set q. queued_ok mc"
  shows "wp (foldM (exec_round run_queued c) [j..<j + length q] (mp, s)) (\<lambda>(mp', s'). runnable c s' \<and>
    went c (unseen_by q) (core s) (core s') \<and> also_propagate s' = also_propagate s \<and>
    (CLIENT_FORCE_AOF \<in> flags s' c \<longleftrightarrow> CLIENT_FORCE_AOF \<in> flags s c))"
  using assms
proof (induction q arbitrary: j s mp)
  case Nil
  then show ?case using went_refl by (simp add: unseen_by_def wp_def)
next
  case (Cons mc q)
  let ?l = "c_commands (clients s c)"
  have j: "?l ! j = mc" "drop (Suc j) ?l = q" using Cons.prems(2) by (simp add: nth_via_drop, metis drop_Suc list.sel(3) tl_drop)
  obtain mp1 s1 x where 1: "exec_round run_queued c j (mp, s) = Some (mp1, s1)" "runnable c s1"
    "went c (unseen_by [mc]) (core s) (core s1)" "also_propagate s1 = also_propagate s" "c_commands (clients s1 c) = ?l[j := x]"
    "CLIENT_FORCE_AOF \<in> flags s1 c \<longleftrightarrow> CLIENT_FORCE_AOF \<in> flags s c"
    using wp_exec_round [OF Cons.prems(1), of j mp] Cons.prems(3) j(1) by (auto simp: wp_def)
  have d: "drop (Suc j) (c_commands (clients s1 c)) = q" using 1(5) j(2) by simp
  have u: "unseen_by (mc # q) = unseen_by [mc] \<union> unseen_by q" by (simp add: unseen_by_def)
  obtain mp2 s2 where 2: "foldM (exec_round run_queued c) [Suc j..<Suc j + length q] (mp1, s1) = Some (mp2, s2)" "runnable c s2"
    "went c (unseen_by q) (core s1) (core s2)" "also_propagate s2 = also_propagate s1"
    "CLIENT_FORCE_AOF \<in> flags s2 c \<longleftrightarrow> CLIENT_FORCE_AOF \<in> flags s1 c"
    using Cons.IH [OF 1(2) d, of mp1] Cons.prems(3) by (auto simp: wp_def)
  have "[j..<j + length (mc # q)] = j # [Suc j..<Suc j + length q]" by (simp add: upt_rec)
  then show ?case using went_trans [OF 1(3) 2(3)] 1 2 by (simp add: wp_def u)
qed

section \<open>The commands of a transaction\<close>

definition runs_to :: "nat \<Rightarrow> (nat \<times> bytes) set \<Rightarrow> redisServer \<Rightarrow> redisServer \<Rightarrow> bool" where
  "runs_to c P x y \<longleftrightarrow> step_ok c P x y \<and> set (c_commands (clients y c)) \<subseteq> set (c_commands (clients x c))"

lemma loose_runs: "loose c (runs_to c P)"
  unfolding loose_def
proof (intro allI impI)
  fix x y z w
  assume a: "still c x y" "runs_to c P y z" "still c z w"
  have "step_ok c P x w" using still_step [OF a(1) _ a(3)] a(2) by (simp add: runs_to_def)
  then show "runs_to c P x w" using a(2) stillD(6) [OF a(1)] stillD(6) [OF a(3)] by (simp add: runs_to_def)
qed

lemma runs_mono: "runs_to c P x y \<Longrightarrow> P \<subseteq> Q \<Longrightarrow> runs_to c Q x y"
  unfolding runs_to_def step_ok_def by blast

lemma moved_runs: "moved c P x y \<Longrightarrow> runs_to c P x y"
  by (simp add: moved_def runs_to_def)

lemma went_runs: "went c P x y \<Longrightarrow> c_commands (clients y c) = [] \<Longrightarrow> runs_to c P x y"
  by (simp add: went_def runs_to_def)

lemma core_ends:
  assumes "core s' = core s0" "ends c R s s0" "prop_ok s'"
  shows "ends c R s s'"
  using assms core_fields(1,2,7) [OF assms(1)] core_fields(3,4) [OF assms(1), of c] core_fields(5) [OF assms(1), of CLIENT_FORCE_AOF c]
  by (simp add: ends_def)

lemma quiet_ends: "quiet s' = quiet s0 \<Longrightarrow> ends c R s s0 \<Longrightarrow> ends c R s s'"
  using core_ends [OF core_quiet, of s' s0 c R s] prop_ok_quiet [of s' s0] by (simp add: ends_def)

lemma still_ends:
  assumes "runnable c s" "c_cmd (clients s c) = Some cmd" "still c (core s) (core s')" "prop_ok s'" "also_propagate s' = also_propagate s"
    "CLIENT_FORCE_AOF \<in> flags s' c \<Longrightarrow> CLIENT_FORCE_AOF \<in> flags s c" "c_cmd (clients s' c) = Some cmd'" "dirty s' = dirty s"
  shows "ends c (runs_to c {}) s s'"
proof -
  have "lua_caller s' = lua_caller s" using stillD(1) [OF assms(3)] by (simp add: same_world_def)
  then show ?thesis using moved_runs [OF still_moved [OF assms(3)]] assms by (simp add: ends_def runnable_def)
qed

lemma ends_refl: "runnable c s \<Longrightarrow> c_cmd (clients s c) = Some cmd \<Longrightarrow> ends c (runs_to c {}) s s"
  by (rule still_ends) (simp_all add: runnable_def)

lemma ends_mono: "ends c (runs_to c P) s s' \<Longrightarrow> P \<subseteq> Q \<Longrightarrow> ends c (runs_to c Q) s s'"
  unfolding ends_def using runs_mono by blast

lemma exec_monitor_quiet: "quiet (exec_monitor s c) = quiet s"
  by (simp add: exec_monitor_def feedMonitors_quiet)

lemma only_watch_content: "only_watch c s s' \<Longrightarrow> d < length (dbs s) \<Longrightarrow> content s' d k = content s d k"
  unfolding only_watch_def by (elim exE conjE) (drule spec [of _ d], auto simp: content_def)

lemma discard_facts:
  assumes r: "runnable c s"
  shows "\<exists>s'. discardTransaction s c = Some s' \<and> went c {} (core s) (core s') \<and> runnable c s' \<and> c_commands (clients s' c) = [] \<and>
    c_watched_keys (clients s' c) = [] \<and> flags s' c = flags s c - {CLIENT_MULTI, CLIENT_DIRTY_CAS, CLIENT_DIRTY_EXEC} \<and>
    also_propagate s' = also_propagate s \<and> dirty s' = dirty s \<and> c_cmd (clients s' c) = c_cmd (clients s c) \<and> argv s' c = argv s c \<and>
    out (clients s' c) = out (clients s c) \<and> (\<forall>d < length (dbs s). \<forall>k. content s' d k = content s d k)"
proof -
  obtain s1 where 1: "discardTransaction s c = Some (upd_cl c discarded s1)" "only_watch c s s1" "c_watched_keys (clients s1 c) = []"
    "went c {} (core s) (core (upd_cl c discarded s1))" "runnable c (upd_cl c discarded s1)" using discard_run [OF r] by blast
  have "out (clients s1 c) = out (clients s c)" using 1(2) by (auto simp: only_watch_def out_def)
  then show ?thesis
    using 1 only_watch_sel(2,3) [OF 1(2)] only_watch_sel(5,6,8) [OF 1(2), of c] only_watch_content [OF 1(2)]
    by (intro exI [of _ "upd_cl c discarded s1"]) (simp add: discarded_def out_def content_def)
qed

lemma discard_ends:
  assumes r: "runnable c s" "c_cmd (clients s c) = Some cmd"
  shows "wp (discardTransaction s c) (ends c (runs_to c {}) s)"
proof -
  obtain s' where d: "discardTransaction s c = Some s'" "went c {} (core s) (core s')" "runnable c s'" "c_commands (clients s' c) = []"
    "flags s' c = flags s c - {CLIENT_MULTI, CLIENT_DIRTY_CAS, CLIENT_DIRTY_EXEC}"
    "also_propagate s' = also_propagate s" "dirty s' = dirty s" "c_cmd (clients s' c) = c_cmd (clients s c)"
    using discard_facts [OF r(1)] by blast
  have "runs_to c {} (core s) (core s')" using went_runs [OF d(2)] d(4) by (simp add: quiet_client_def)
  then show ?thesis using d r by (simp add: wp_def ends_def runnable_def)
qed

lemma discardCommand_ends:
  assumes r: "runnable c s" "c_cmd (clients s c) = Some cmd"
  shows "wp (discardCommand s c) (ends c (runs_to c {}) s)"
proof (cases "CLIENT_MULTI \<in> flags s c")
  case True
  obtain s' where "discardTransaction s c = Some s'" "ends c (runs_to c {}) s s'" using discard_ends [OF r] by (auto simp: wp_def)
  then show ?thesis using True quiet_ends [OF quiet_replies(1)] by (simp add: discardCommand_def wp_def del: reply_defs)
next
  case False
  then show ?thesis using quiet_ends [OF quiet_replies(2) ends_refl [OF r]] by (simp add: discardCommand_def wp_def del: reply_defs)
qed

lemma multiCommand_ends:
  assumes r: "runnable c s" "c_cmd (clients s c) = Some cmd"
  shows "wp (multiCommand s c) (ends c (runs_to c {}) s)"
proof (cases "CLIENT_MULTI \<in> flags s c")
  case False
  have "still c (core s) (core (set_flag c CLIENT_MULTI s))"
    by (simp add: core_set_flag) (auto simp: still_def same_world_def set_flag_def upd_cl_def)
  then have "ends c (runs_to c {}) s (set_flag c CLIENT_MULTI s)"
    using r by (intro still_ends [OF r]) (auto simp: set_flag_def runnable_def)
  then show ?thesis using False quiet_ends [OF quiet_replies(1)] by (simp add: multiCommand_def wp_def del: reply_defs)
next
  case True
  then show ?thesis using quiet_ends [OF quiet_replies(2) ends_refl [OF r]] by (simp add: multiCommand_def wp_def del: reply_defs)
qed

lemma watch_run:
  assumes "runnable c s"
  shows "watch_inv (fold (\<lambda>key s. watchForKey s c key) ks s) \<and> only_watch c s (fold (\<lambda>key s. watchForKey s c key) ks s)"
proof -
  have "watch_inv s \<and> c \<in> set (client_list s) \<and> c_db (clients s c) < length (dbs s) \<Longrightarrow>
    watch_inv (fold (\<lambda>key s. watchForKey s c key) ks s) \<and> only_watch c s (fold (\<lambda>key s. watchForKey s c key) ks s)" for s
  proof (induction ks arbitrary: s)
    case (Cons k ks)
    have "watch_inv (watchForKey s c k)" using Cons.prems watchForKey_inv by blast
    then show ?case
      using Cons.IH [of "watchForKey s c k"] Cons.prems only_watch_trans [OF watchForKey_only [of c s k]] by (simp add: watchForKey_sel)
  qed (simp add: only_watch_refl)
  then show ?thesis using assms by (simp add: runnable_def)
qed

lemma only_watch_flags_step:
  assumes o: "only_watch c x y" and i: "watch_inv y" and d: "c_db (clients x c) < length (dbs x)"
  shows "step_ok c {} x y"
proof -
  obtain ds wl where 1: "y = upd_cl c (\<lambda>cl. cl\<lparr>c_watched_keys := wl\<rparr>) (x\<lparr>dbs := ds\<rparr>)" "length ds = length (dbs x)"
    "\<forall>d < length (dbs x). \<exists>w. ds ! d = (db_of x d)\<lparr>d_watched_keys := w\<rparr>" using o by (auto simp: only_watch_def)
  have dy: "dbs y = ds" using 1(1) by simp
  have e: "d_dict (ds ! d) = d_dict (db_of x d) \<and> d_expires (ds ! d) = d_expires (db_of x d) \<and> d_blocking_keys (ds ! d) = d_blocking_keys (db_of x d)"
    if dl: "d < length (dbs x)" for d
  proof -
    obtain w where "ds ! d = (db_of x d)\<lparr>d_watched_keys := w\<rparr>" using 1(3) dl by blast
    then show ?thesis by simp
  qed
  have "flags y b = flags x b" for b using only_watch_sel(6) [OF o] .
  then have "keeps_marks x y" by (simp add: keeps_marks_def)
  moreover have "content_ok x y d k" if "d < length (dbs x)" for d k using only_watch_content [OF o that] by (simp add: content_ok_def)
  moreover have "same_world c x y" using 1 by (simp add: same_world_def upd_cl_def)
  moreover have "dbs_ok x \<longrightarrow> dbs_ok y" using e 1(2) by (simp add: dbs_ok_def dy)
  moreover have "idle x \<longrightarrow> idle y" using e 1 by (simp add: idle_def dy upd_cl_def)
  ultimately show ?thesis using i d only_watch_sel(4,9) [OF o] by (simp add: step_ok_def)
qed

lemma watchCommand_ends:
  assumes r: "runnable c s" "c_cmd (clients s c) = Some cmd"
  shows "wp (watchCommand s c) (ends c (runs_to c {}) s)"
proof (cases "CLIENT_MULTI \<in> flags s c")
  case False
  define s' where "s' = fold (\<lambda>key s. watchForKey s c key) (tl (argv s c)) s"
  have w: "watch_inv s'" "only_watch c s s'" using watch_run [OF r(1)] by (simp_all add: s'_def)
  note o = only_watch_sel [OF w(2)]
  have "step_ok c {} (core s) (core s')"
    using only_watch_flags_step [OF only_watch_core [OF w(2)]] w(1) r(1) by (simp add: runnable_def)
  then have "ends c (runs_to c {}) s s'"
    using o(1-3) o(5-8) [of c] r by (auto simp: ends_def runs_to_def runnable_def quiet_client_def step_ok_def same_world_def)
  then show ?thesis using False quiet_ends [OF quiet_replies(1)] by (simp add: watchCommand_def wp_def s'_def [symmetric] Let_def del: reply_defs)
next
  case True
  then show ?thesis using quiet_ends [OF quiet_replies(2) ends_refl [OF r]] by (simp add: watchCommand_def wp_def del: reply_defs)
qed

lemma exec_abort:
  assumes r: "runnable c s0" "c_cmd (clients s0 c) = Some cmd" and q: "quiet s0 = quiet s"
  shows "wp (do { s \<leftarrow> discardTransaction s0 c; Some (exec_monitor s c) }) (ends c (runs_to c {}) s)"
proof -
  obtain s' where "discardTransaction s0 c = Some s'" "ends c (runs_to c {}) s0 s'" using discard_ends [OF r] by (auto simp: wp_def)
  moreover have "ends c R s0 t = ends c R s t" for R t
    using core_quiet [OF q] core_fields(1,2,7) [OF core_quiet [OF q]] core_fields(5) [OF core_quiet [OF q], of CLIENT_FORCE_AOF c] by (simp add: ends_def)
  ultimately show ?thesis using quiet_ends [OF exec_monitor_quiet] by (simp add: wp_def)
qed

lemma runnable_quiet: "quiet s' = quiet s \<Longrightarrow> runnable c s \<Longrightarrow> runnable c s'"
  using core_runnable [OF core_quiet, of s' s c] prop_ok_quiet [of s' s] by (simp add: runnable_def)

lemma quiet_cmd: "quiet s' = quiet s \<Longrightarrow> c_cmd (clients s' c) = c_cmd (clients s c)"
  using core_fields(3) [OF core_quiet] by blast

lemma dirty_ends:
  assumes "ends c R s s'" "c_cmd (clients s' c) = Some cmd" "proc cmd \<in> plain_feed"
    "R (core s) (core (s'\<lparr>dirty := n\<rparr>))"
  shows "ends c R s (s'\<lparr>dirty := n\<rparr>)"
  using assms feedable_plain [OF assms(3)] by (simp add: ends_def prop_ok_def backlog_holds_def cong: option.case_cong)

lemma exec_rest:
  assumes r: "runnable c s" "c_cmd (clients s c) = Some cmd" "proc cmd \<in> plain_feed"
    and q: "\<forall>mc \<in> set (c_commands (clients s c)). queued_ok mc"
  shows "\<exists>s1 s2 s3 mp s4. unwatchAllKeys s c = Some s1 \<and> addReplyMultiBulkLen s1 c (length (c_commands (clients s1 c))) = Some s2 \<and>
    foldM (exec_round run_queued c) [0..<length (c_commands (clients s1 c))] (False, s2) = Some (mp, s3) \<and>
    argv s1 c = argv s c \<and> c_cmd (clients s1 c) = c_cmd (clients s c) \<and>
    discardTransaction (upd_cl c (\<lambda>cl. cl\<lparr>c_argv := argv s c, c_cmd := c_cmd (clients s c)\<rparr>) s3) c = Some s4 \<and>
    masterhost s4 = masterhost s \<and> c_cmd (clients s4 c) = Some cmd \<and> c_commands (clients s4 c) = [] \<and>
    ends c (went c (unseen_by (c_commands (clients s c)))) s s4"
proof -
  let ?P = "unseen_by (c_commands (clients s c))"
  have i: "watch_inv s" "c_db (clients s c) < length (dbs s)" "prop_ok s" using r(1) by (simp_all add: runnable_def)
  obtain s1 where 1: "unwatchAllKeys s c = Some s1" "watch_inv s1" "c_watched_keys (clients s1 c) = []" "only_watch c s s1"
    using unwatchAll_run [OF i(1)] by blast
  note o = only_watch_sel [OF 1(4)]
  have w1: "went c {} (core s) (core s1)"
    using only_watch_flags_step [OF only_watch_core [OF 1(4)]] 1(2,3) i(2) by (simp add: went_def quiet_client_def)
  obtain s2 where 2: "addReplyMultiBulkLen s1 c (length (c_commands (clients s1 c))) = Some s2" "quiet s2 = quiet s1"
    by (auto simp: addReplyMultiBulkLen_def)
  have r1: "runnable c s1" using runnable_step [OF r(1)] w1 o(1) i(3) by (auto simp: went_def)
  have r2: "runnable c s2" using runnable_quiet [OF 2(2) r1] .
  note c2 = core_fields [OF core_quiet [OF 2(2)]]
  have "drop 0 (c_commands (clients s2 c)) = c_commands (clients s c)" using c2(14) [of c] o(7) [of c] by simp
  from wp_exec_rounds [OF r2 this q, of False] obtain mp s3 where
    3: "foldM (exec_round run_queued c) [0..<length (c_commands (clients s c))] (False, s2) = Some (mp, s3)" "runnable c s3"
      "went c ?P (core s2) (core s3)" "also_propagate s3 = also_propagate s2" "CLIENT_FORCE_AOF \<in> flags s3 c \<longleftrightarrow> CLIENT_FORCE_AOF \<in> flags s2 c"
    by (auto simp: wp_def)
  define f where "f cl = cl\<lparr>c_argv := argv s c, c_cmd := c_cmd (clients s c)\<rparr>" for cl :: client
  let ?t = "upd_cl c f s3"
  have ct: "core ?t = upd_cl c f (core s3)" by (rule core_upd_cl) (simp add: f_def quiet_client_def)
  have st: "still c (core s3) (core ?t)" unfolding ct by (simp add: still_def same_world_def upd_cl_def f_def)
  have rt: "runnable c ?t" by (rule runnable_still [OF 3(2) st]) (use 3(2) in \<open>simp add: runnable_def\<close>)
  obtain s4 where 4: "discardTransaction ?t c = Some s4" "went c {} (core ?t) (core s4)" "runnable c s4" "c_commands (clients s4 c) = []"
    "flags s4 c = flags ?t c - {CLIENT_MULTI, CLIENT_DIRTY_CAS, CLIENT_DIRTY_EXEC}" "also_propagate s4 = also_propagate ?t"
    "c_cmd (clients s4 c) = c_cmd (clients ?t c)" using discard_facts [OF rt] by blast
  have w3: "went c ({} \<union> ?P) (core s) (core s3)" using went_trans [OF w1, of ?P "core s3"] 3(3) core_quiet [OF 2(2)] by simp
  have "went c {} (core s3) (core ?t)" using still_went [OF st] 3(2) by (simp add: runnable_def)
  from went_trans [OF went_trans [OF w3 this] 4(2)] have w: "went c ?P (core s) (core s4)" by simp
  have cmd4: "c_cmd (clients s4 c) = Some cmd" using 4(7) r(2) by (simp add: f_def)
  have fa: "CLIENT_FORCE_AOF \<in> flags s4 c \<longleftrightarrow> CLIENT_FORCE_AOF \<in> flags s c" using 4(5) 3(5) c2(5) [of CLIENT_FORCE_AOF c] o(6) by (simp add: f_def)
  have ap: "also_propagate s4 = also_propagate s" using 4(6) 3(4) c2(1) o(2) by simp
  have "ends c (went c ?P) s s4"
    using w 4(3) cmd4 fa ap r(1) feedable_plain [OF r(3)] by (simp add: ends_def runnable_def)
  moreover have "masterhost s4 = masterhost s" using w by (simp add: went_def step_ok_def same_world_def)
  ultimately show ?thesis using 1(1) 2(1) 3(1) 4(1,4) o(5,7,8) cmd4
    by (intro exI [of _ s1] exI [of _ s2] exI [of _ s3] exI [of _ mp] exI [of _ s4]) (simp add: f_def [abs_def])
qed

lemma wp_exec:
  assumes r: "runnable c s" "c_cmd (clients s c) = Some cmd" "proc cmd \<in> plain_feed"
    and q: "\<forall>mc \<in> set (c_commands (clients s c)). queued_ok mc"
  shows "wp (execCommand run_queued s c) (ends c (runs_to c (unseen_by (c_commands (clients s c)))) s)"
proof -
  let ?P = "unseen_by (c_commands (clients s c))"
  have ab: "wp (do { s \<leftarrow> discardTransaction s0 c; Some (exec_monitor s c) }) (ends c (runs_to c ?P) s)" if "quiet s0 = quiet s" for s0
    using exec_abort [OF runnable_quiet [OF that r(1)] _ that] quiet_cmd [OF that] r(2) ends_mono [of c "{}" _ _ ?P] by (auto simp: wp_def)
  consider "CLIENT_MULTI \<notin> flags s c" | "CLIENT_MULTI \<in> flags s c" "CLIENT_DIRTY_CAS \<in> flags s c \<or> CLIENT_DIRTY_EXEC \<in> flags s c"
    | "CLIENT_MULTI \<in> flags s c" "\<not> (CLIENT_DIRTY_CAS \<in> flags s c \<or> CLIENT_DIRTY_EXEC \<in> flags s c)"
      "\<not> loading s \<and> masterhost s \<noteq> None \<and> repl_slave_ro s \<and> CLIENT_MASTER \<notin> flags s c \<and> CMD_WRITE \<in> c_mstate_cmd_flags (clients s c)"
    | "CLIENT_MULTI \<in> flags s c" "\<not> (CLIENT_DIRTY_CAS \<in> flags s c \<or> CLIENT_DIRTY_EXEC \<in> flags s c)"
      "\<not> (\<not> loading s \<and> masterhost s \<noteq> None \<and> repl_slave_ro s \<and> CLIENT_MASTER \<notin> flags s c \<and> CMD_WRITE \<in> c_mstate_cmd_flags (clients s c))"
    by blast
  then show ?thesis
  proof cases
    case 1
    then show ?thesis
      using quiet_ends [OF quiet_replies(2) ends_mono [OF ends_refl [OF r(1,2)]]] by (simp add: execCommand_def wp_def Let_def del: reply_defs)
  next
    case 2
    then show ?thesis using ab [OF quiet_replies(1)] by (simp add: execCommand_def Let_def del: reply_defs)
  next
    case 3
    then show ?thesis using ab [OF quiet_replies(2)] by (simp add: execCommand_def Let_def del: reply_defs)
  next
    case 4
    obtain s1 s2 s3 mp s4 where e: "unwatchAllKeys s c = Some s1" "addReplyMultiBulkLen s1 c (length (c_commands (clients s1 c))) = Some s2"
      "foldM (exec_round run_queued c) [0..<length (c_commands (clients s1 c))] (False, s2) = Some (mp, s3)"
      "argv s1 c = argv s c" "c_cmd (clients s1 c) = c_cmd (clients s c)"
      "discardTransaction (upd_cl c (\<lambda>cl. cl\<lparr>c_argv := argv s c, c_cmd := c_cmd (clients s c)\<rparr>) s3) c = Some s4"
      "masterhost s4 = masterhost s" "c_cmd (clients s4 c) = Some cmd" "c_commands (clients s4 c) = []" "ends c (went c ?P) s s4"
      using exec_rest [OF r q] by blast
    let ?s5 = "if mp then s4\<lparr>dirty := dirty s4 + 1\<rparr> else s4"
    have run: "execCommand run_queued s c = Some (exec_monitor ?s5 c)"
      unfolding execCommand_def Let_def e(1) bind.bind_lunit e(2-6) prod.case using 4 e(7) by (cases mp) auto
    have rt: "runs_to c ?P (core s) (core s4)" using went_runs [of c ?P "core s" "core s4"] e(9,10) by (simp add: ends_def quiet_client_def)
    then have en: "ends c (runs_to c ?P) s s4" using e(10) by (simp add: ends_def)
    have "core (s4\<lparr>dirty := n\<rparr>) = (core s4)\<lparr>dirty := n\<rparr>" for n by simp
    moreover have "runs_to c ?P (core s) ((core s4)\<lparr>dirty := n\<rparr>)" for n
      using loose_runs [of c ?P] still_refl rt unfolding loose_def
      by (elim allE [of _ "core s"] allE [of _ "core s4"] allE [of _ "(core s4)\<lparr>dirty := n\<rparr>"]) (auto simp: still_def same_world_def)
    ultimately have "ends c (runs_to c ?P) s (s4\<lparr>dirty := n\<rparr>)" for n using dirty_ends [OF en e(8) r(3)] rt by simp
    then show ?thesis using run en quiet_ends [OF exec_monitor_quiet] by (simp add: wp_def)
  qed
qed

section \<open>A transaction whose watched keys were touched\<close>

lemma exec_monitor_out: "c \<notin> set (monitors s) \<Longrightarrow> clients (exec_monitor s c) c = clients s c"
proof -
  have "c \<notin> set ms \<Longrightarrow> clients (fold (\<lambda>m s. addReply s m str) ms s) c = clients s c" for ms str s
    by (induction ms arbitrary: s) auto
  then show "c \<notin> set (monitors s) \<Longrightarrow> clients (exec_monitor s c) c = clients s c"
    by (simp add: exec_monitor_def replicationFeedMonitors_def Let_def split: prod.split del: reply_defs)
qed

lemma content_quiet: "quiet s' = quiet s \<Longrightarrow> content s' = content s"
  using quiet_fields(1) [of s' s] by (simp add: fun_eq_iff content_def)

lemma watch_inv_quiet: "quiet s' = quiet s \<Longrightarrow> watch_inv s' = watch_inv s"
  using core_fields(10) [OF core_quiet] by blast

text \<open>C4: a transaction is not run once one of its watched keys was touched.  When the client is marked with
  \<open>CLIENT_DIRTY_CAS\<close> and no error occurred while queueing, \<open>EXEC\<close> returns and replies the null array;
  no key of any database changes its value or its expire, whatever commands are in the queue,
  nothing is counted as a change of the data set, and the client leaves the transaction with an empty queue,
  no watched keys and no mark.\<close>

theorem exec_aborts:
  assumes i: "watch_inv s" and f: "CLIENT_MULTI \<in> flags s c" "CLIENT_DIRTY_CAS \<in> flags s c" "CLIENT_DIRTY_EXEC \<notin> flags s c"
    and o: "takes_output (clients s c)" "c \<notin> set (monitors s)"
  shows "\<exists>s'. execCommand procs s c = Some s' \<and> out (clients s' c) = out (clients s c) @ lit ''*-1'' @ crlf \<and>
    (\<forall>d < length (dbs s). \<forall>k. content s' d k = content s d k) \<and> dirty s' = dirty s \<and>
    c_commands (clients s' c) = [] \<and> c_watched_keys (clients s' c) = [] \<and> CLIENT_MULTI \<notin> flags s' c \<and> CLIENT_DIRTY_CAS \<notin> flags s' c"
proof -
  let ?s0 = "addReply s c shared_nullmultibulk"
  have q: "quiet ?s0 = quiet s" by (rule quiet_replies)
  obtain s1 where 1: "discardTransaction ?s0 c = Some (upd_cl c discarded s1)" "only_watch c ?s0 s1" "c_watched_keys (clients s1 c) = []"
    using discard_only [of ?s0 c] i watch_inv_quiet [OF q] by blast
  let ?s2 = "upd_cl c discarded s1"
  have m: "monitors ?s2 = monitors s" using only_watch_sel(14) [OF 1(2)] by (simp add: upd_cl_def)
  have run: "execCommand procs s c = Some (exec_monitor ?s2 c)" using f 1(1) by (simp add: execCommand_def Let_def del: reply_defs)
  have k: "clients (exec_monitor ?s2 c) c = clients ?s2 c" using exec_monitor_out m o(2) by simp
  have "out (clients s1 c) = out (clients ?s0 c)" using 1(2) by (auto simp: only_watch_def out_def)
  moreover have "out (clients ?s2 c) = out (clients s1 c)" by (simp add: discarded_def out_def)
  ultimately have "out (clients ?s2 c) = out (clients s c) @ lit ''*-1'' @ crlf" using o(1) by (simp add: shared_nullmultibulk_def)
  moreover have "content (exec_monitor ?s2 c) d k = content s d k" if "d < length (dbs s)" for d k
    using only_watch_content [OF 1(2), of d k] that quiet_fields(1) [OF q]
    by (simp add: content_quiet [OF exec_monitor_quiet] content_quiet [OF q, symmetric] content_def del: reply_defs)
  moreover have "dirty (exec_monitor ?s2 c) = dirty s" using quiet_fields(25) [OF exec_monitor_quiet] only_watch_sel(3) [OF 1(2)] by simp
  ultimately show ?thesis using run k 1(3) by (simp add: discarded_def)
qed

definition doomed :: redisServer where
  "doomed = set_flag 0 CLIENT_DIRTY_CAS (set_flag 0 CLIENT_MULTI (watchForKey (fresh [lit ''EXEC'']) 0 (lit ''k'')))"

theorem exec_aborts_witness:
  "\<exists>s'. execCommand run_queued doomed 0 = Some s' \<and> out (clients s' 0) = out (clients doomed 0) @ lit ''*-1'' @ crlf \<and>
    content s' 0 (lit ''k'') = content doomed 0 (lit ''k'') \<and> dirty s' = dirty doomed \<and>
    c_commands (clients s' 0) = [] \<and> c_watched_keys (clients s' 0) = [] \<and> CLIENT_MULTI \<notin> flags s' 0 \<and> CLIENT_DIRTY_CAS \<notin> flags s' 0"
proof -
  let ?s = "fresh [lit ''EXEC'']"
  have "watch_inv ?s" by (rule watch_invI) (auto simp: fresh_def init_server_def plain_client_def empty_db_def watchers_def less_Suc_eq numeral_2_eq_2)
  then have "watch_inv (watchForKey ?s 0 (lit ''k''))"
    by (rule watchForKey_inv) (simp_all add: fresh_def init_server_def plain_client_def)
  then have i: "watch_inv doomed" unfolding doomed_def set_flag_def by (erule_tac watch_inv_cong [rotated 4]) auto
  have f: "CLIENT_MULTI \<in> flags doomed 0" "CLIENT_DIRTY_CAS \<in> flags doomed 0" "CLIENT_DIRTY_EXEC \<notin> flags doomed 0"
    "takes_output (clients doomed 0)" "0 \<notin> set (monitors doomed)" "0 < length (dbs doomed)"
    by (simp_all add: doomed_def set_flag_def watchForKey_def fresh_def init_server_def plain_client_def takes_output_def upd_cl_def upd_db_def Let_def)
  show ?thesis using exec_aborts [OF i f(1-5), of run_queued] f(6) by blast
qed

end
