(* ===== verification/Process.thy ===== *)
theory Process
  imports Exec
begin

text \<open>Requests.  From a state that satisfies the invariants, \<open>processCommand\<close> answers every request for a modelled command,
  and for an unknown one, without failing; the invariants hold again and what changed is seen by the watchers.\<close>

section \<open>Which requests\<close>

definition supported :: "string set" where
  "supported = queueable \<union> {''execCommand'', ''multiCommand'', ''discardCommand'', ''watchCommand''}"

text \<open>What is excluded: the commands whose functions are not modelled, a \<open>SET\<close> with both of the words \<open>EX\<close> and \<open>PX\<close> among its
  options and a \<open>SETRANGE\<close> that writes past the largest signed integer.\<close>

definition sane :: "redisCommand \<Rightarrow> bytes list \<Rightarrow> bool" where
  "sane cmd av \<longleftrightarrow> proc cmd \<in> supported \<and> (proc cmd = ''setCommand'' \<longrightarrow> set_words av) \<and>
     (proc cmd = ''setrangeCommand'' \<longrightarrow>
        (case string2ll (av ! 2) of None \<Rightarrow> True | Some off \<Rightarrow> sint off + int (length (av ! 3)) < 2 ^ 63))"

definition arity_fits :: "redisCommand \<Rightarrow> bytes list \<Rightarrow> bool" where
  "arity_fits cmd av \<longleftrightarrow> \<not> (arity cmd > 0 \<and> arity cmd \<noteq> int (length av) \<or> int (length av) < - arity cmd)"

text \<open>What the table has to say about the arguments that the append only file reads.\<close>

definition cmd_ok :: "redisCommand \<Rightarrow> bool" where
  "cmd_ok cmd \<longleftrightarrow> (proc cmd \<in> {''expireCommand'', ''pexpireCommand'', ''expireatCommand''} \<longrightarrow> arity cmd = 3) \<and>
     (proc cmd \<in> {''setexCommand'', ''psetexCommand''} \<longrightarrow> arity cmd = 4)"

lemma sane_admissible:
  assumes "sane cmd av" "arity_fits cmd av" "cmd_ok cmd"
  shows "admissible cmd av"
proof -
  have "feedable cmd av" if ns: "proc cmd \<noteq> ''setCommand''"
  proof -
    consider "proc cmd \<in> plain_feed" | "proc cmd \<in> {''expireCommand'', ''pexpireCommand'', ''expireatCommand''}"
      | "proc cmd \<in> {''setexCommand'', ''psetexCommand''}" using ns unfolding plain_feed_def by blast
    then show ?thesis
    proof cases
      case 1
      then show ?thesis by (rule feedable_plain)
    next
      case 2
      then have "arity cmd = 3" using assms(3) by (simp add: cmd_ok_def)
      then show ?thesis using feedable_expire [OF 2] assms(2) by (simp add: arity_fits_def)
    next
      case 3
      then have "arity cmd = 4" using assms(3) by (simp add: cmd_ok_def)
      then show ?thesis using feedable_setex [OF 3] assms(2) by (simp add: arity_fits_def)
    qed
  qed
  then show ?thesis using assms(1) by (auto simp: admissible_def sane_def)
qed

lemma exec_plain: "''execCommand'' \<in> plain_feed" "''multiCommand'' \<in> plain_feed" "''discardCommand'' \<in> plain_feed" "''watchCommand'' \<in> plain_feed"
  by (simp_all add: plain_feed_def)

lemma not_queueable: "''execCommand'' \<notin> queueable" "''multiCommand'' \<notin> queueable" "''discardCommand'' \<notin> queueable" "''watchCommand'' \<notin> queueable"
  by (simp_all add: queueable_def string_procs_def generic_procs_def)

lemma control_procs:
  "run_queued ''multiCommand'' = multiCommand" "run_queued ''discardCommand'' = discardCommand" "run_queued ''watchCommand'' = watchCommand"
  by (simp_all add: fun_eq_iff run_queued_def string_procs_def generic_procs_def server_procs_def)

section \<open>Running a command\<close>

definition unseen_cmd :: "redisServer \<Rightarrow> nat \<Rightarrow> redisCommand \<Rightarrow> (nat \<times> bytes) set" where
  "unseen_cmd s c cmd = (if proc cmd = ''execCommand'' then unseen_by (c_commands (clients s c)) else unseen (proc cmd) (argv s c))"

lemma proc_ends:
  assumes r: "runnable c s" "c_cmd (clients s c) = Some cmd" and a: "proc cmd \<in> supported" "proc cmd \<in> queueable \<Longrightarrow> admissible cmd (argv s c)"
    and q: "\<forall>mc \<in> set (c_commands (clients s c)). queued_ok mc"
  shows "wp (run_proc (proc cmd) s c) (ends c (runs_to c (unseen_cmd s c cmd)) s)"
proof -
  have n: "unseen p av = {}" if "p \<in> {''multiCommand'', ''discardCommand'', ''watchCommand''}" for p av using that by (auto simp: unseen_def)
  consider "proc cmd = ''execCommand''" | "proc cmd = ''multiCommand''" | "proc cmd = ''discardCommand''" | "proc cmd = ''watchCommand''"
    | "proc cmd \<in> queueable" "proc cmd \<noteq> ''execCommand''" using a(1) by (auto simp: supported_def)
  then show ?thesis
  proof cases
    case 1
    then show ?thesis using wp_exec [OF r] q exec_plain by (simp add: run_proc_def unseen_cmd_def)
  next
    case 2
    then show ?thesis using multiCommand_ends [OF r] n by (simp add: run_proc_def unseen_cmd_def control_procs)
  next
    case 3
    then show ?thesis using discardCommand_ends [OF r] n by (simp add: run_proc_def unseen_cmd_def control_procs)
  next
    case 4
    then show ?thesis using watchCommand_ends [OF r] n by (simp add: run_proc_def unseen_cmd_def control_procs)
  next
    case 5
    have "wp (run_queued (proc cmd) s c) (ran_to c (unseen (proc cmd) (argv s c)) s)" using queued_ran [OF 5(1) r] a(2) 5(1) by simp
    then obtain s' where s': "run_queued (proc cmd) s c = Some s'" "ran_to c (unseen (proc cmd) (argv s c)) s s'" by (auto simp: wp_def)
    have "ends c (runs_to c (unseen (proc cmd) (argv s c))) s s'" using ran_ends [OF s'(2)] moved_runs unfolding ends_def by blast
    then show ?thesis using 5 s' by (simp add: run_proc_def unseen_cmd_def wp_def)
  qed
qed

lemma call_runs:
  assumes r: "runnable c s" "c_cmd (clients s c) = Some cmd" and a: "proc cmd \<in> supported" "proc cmd \<in> queueable \<Longrightarrow> admissible cmd (argv s c)"
    and q: "\<forall>mc \<in> set (c_commands (clients s c)). queued_ok mc"
  shows "wp (call s c fl) (\<lambda>s'. runs_to c (unseen_cmd s c cmd) (core s) (core s') \<and> prop_ok s' \<and> also_propagate s' = also_propagate s \<and>
    lua_caller s' = None \<and> c_cmd (clients s' c) \<noteq> None \<and> (CLIENT_FORCE_AOF \<in> flags s' c \<longleftrightarrow> CLIENT_FORCE_AOF \<in> flags s c))"
  unfolding call_def
proof (rule wp_call [OF r loose_runs])
  fix s1
  assume 1: "runnable c s1" "c_cmd (clients s1 c) = Some cmd" "argv s1 c = argv s c" "still c (core s) (core s1)"
  have "c_commands (clients s1 c) = c_commands (clients s c)" using stillD(6) [OF 1(4)] by (simp add: quiet_client_def)
  moreover from this have "unseen_cmd s1 c cmd = unseen_cmd s c cmd" using 1(3) by (simp add: unseen_cmd_def)
  ultimately show "wp (run_proc (proc cmd) s1 c) (ends c (runs_to c (unseen_cmd s c cmd)) s1)"
    using proc_ends [OF 1(1,2) a(1)] a(2) q 1(3) by simp
qed

section \<open>Refusals\<close>

definition refused :: "nat \<Rightarrow> redisServer \<Rightarrow> redisServer \<Rightarrow> bool" where
  "refused c s s' \<longleftrightarrow> still c (core s) (core s') \<and> prop_ok s' = prop_ok s \<and> also_propagate s' = also_propagate s"

lemma refused_quiet: "quiet s' = quiet t \<Longrightarrow> refused c s t \<Longrightarrow> refused c s s'"
  using core_quiet [of s' t] prop_ok_quiet [of s' t] core_fields(1) [OF core_quiet, of s' t] by (simp add: refused_def)

lemma refused_refl: "refused c s s"
  by (simp add: refused_def)

lemma refused_flag: "fl \<notin> {CLIENT_PENDING_WRITE, CLIENT_CLOSE_ASAP, CLIENT_DIRTY_CAS} \<Longrightarrow> refused c s (set_flag c fl s)"
  by (simp add: refused_def core_set_flag) (auto simp: still_def same_world_def set_flag_def upd_cl_def prop_ok_def backlog_holds_def cong: option.case_cong)

lemma refused_transaction: "refused c s (flagTransaction s c)"
  using refused_flag [of CLIENT_DIRTY_EXEC c s] refused_refl by (simp add: flagTransaction_def)

lemma refused_trans: "refused c s t \<Longrightarrow> refused c t u \<Longrightarrow> refused c s u"
  unfolding refused_def still_def by (auto intro: same_world_trans)

lemmas refused_replies [simp] =
  refused_quiet [OF quiet_replies(1) refused_refl] refused_quiet [OF quiet_replies(1) refused_transaction]
  refused_quiet [OF quiet_replies(2) refused_refl] refused_quiet [OF quiet_replies(3) refused_transaction]

lemma check_refused:
  assumes "f \<in> set (check_auth # checks)" "f s c cmd = Some s'"
  shows "refused c s s'"
  using assms
  by (auto simp: checks_def check_auth_def check_disk_def check_good_slaves_def check_readonly_def check_pubsub_def check_stale_def
      check_loading_def check_script_def Let_def simp del: reply_defs split: if_splits)

lemma first_refused: "set fs \<subseteq> set checks \<Longrightarrow> first_refusal fs s c cmd = Some s' \<Longrightarrow> refused c s s'"
proof (induction fs)
  case (Cons f fs)
  have "f \<in> set (check_auth # checks)" using Cons.prems(1) by simp
  from check_refused [OF this, of s c cmd s'] show ?case using Cons by (auto split: option.splits)
qed simp

section \<open>A request\<close>

definition serving :: "nat \<Rightarrow> redisServer \<Rightarrow> bool" where
  "serving c s \<longleftrightarrow> runnable c s \<and> idle s \<and> \<not> cluster_enabled s \<and> maxmemory s = 0 \<and>
     (\<forall>n cmd. commands s n = Some cmd \<longrightarrow> cmd_ok cmd) \<and> (\<forall>mc \<in> set (c_commands (clients s c)). queued_ok mc)"

text \<open>The client and the world around it after a request.\<close>

definition answered :: "nat \<Rightarrow> (nat \<times> bytes) set \<Rightarrow> redisServer \<Rightarrow> redisServer \<Rightarrow> bool" where
  "answered c P s s' \<longleftrightarrow> step_ok c P (core s) (core s') \<and> prop_ok s' \<and> also_propagate s' = also_propagate s \<and>
     (\<forall>mc \<in> set (c_commands (clients s' c)). queued_ok mc)"

definition unseen_req :: "redisServer \<Rightarrow> nat \<Rightarrow> (nat \<times> bytes) set" where
  "unseen_req s c = (case lookupCommand s (argv s c ! 0) of None \<Rightarrow> {} | Some cmd \<Rightarrow> unseen_cmd s c cmd)"

lemma refused_answered:
  assumes "serving c s" "refused c s s'"
  shows "answered c P s s'"
proof -
  have "moved c {} (core s) (core s')" using still_moved assms by (simp add: refused_def serving_def runnable_def)
  moreover have "c_commands (clients s' c) = c_commands (clients s c)" using stillD(6) [of c "core s" "core s'"] assms(2) by (simp add: refused_def quiet_client_def)
  ultimately show ?thesis using assms moved_mono [of c "{}" _ _ P]
    by (simp add: answered_def refused_def serving_def runnable_def moved_def)
qed

lemma serving_refused:
  assumes "serving c s" "refused c s s'"
  shows "serving c s'"
proof -
  note t = stillD [OF assms(2) [unfolded refused_def, THEN conjunct1]]
  have "runnable c s'" using runnable_still [of c s s'] assms by (simp add: refused_def serving_def runnable_def)
  moreover have "idle s'" "c_commands (clients s' c) = c_commands (clients s c)" using t(6,9) assms(1) by (simp_all add: serving_def quiet_client_def)
  moreover have "commands s' = commands s" "cluster_enabled s' = cluster_enabled s" "maxmemory s' = maxmemory s"
    using t(1) by (simp_all add: same_world_def)
  ultimately show ?thesis using assms(1) by (simp add: serving_def)
qed

lemma exec_answered:
  assumes v: "serving c s" and c: "c_cmd (clients s c) = Some cmd" and a: "sane cmd (argv s c)" "arity_fits cmd (argv s c)" "cmd_ok cmd"
  shows "wp (processCommand_exec s c cmd) (answered c (unseen_cmd s c cmd) s)"
proof -
  let ?P = "unseen_cmd s c cmd"
  have r: "runnable c s" "idle s" and q: "\<forall>mc \<in> set (c_commands (clients s c)). queued_ok mc" using v by (simp_all add: serving_def)
  have ad: "admissible cmd (argv s c)" using sane_admissible [OF a] .
  have su: "proc cmd \<in> supported" using a(1) by (simp add: sane_def)
  show ?thesis
  proof (cases "CLIENT_MULTI \<in> flags s c \<and> proc cmd \<notin> {''execCommand'', ''discardCommand'', ''multiCommand'', ''watchCommand''}")
    case True
    define f where "f cl = cl\<lparr>c_commands := c_commands cl @ [\<lparr>mc_argv = c_argv cl, mc_cmd = cmd\<rparr>],
      c_mstate_cmd_flags := c_mstate_cmd_flags cl \<union> cm_flags cmd\<rparr>" for cl :: client
    let ?s1 = "upd_cl c f s"
    have c1: "core ?s1 = upd_cl c f (core s)" by (rule core_upd_cl) (simp add: f_def quiet_client_def)
    have "step_ok c ?P (core s) (core s)" using went_mono [OF went_refl [OF r(1)], of ?P] by (simp add: went_def)
    then have "step_ok c ?P (core s) (core ?s1)" unfolding c1 by (rule step_ok_upd) (simp_all add: f_def)
    moreover have "proc cmd \<in> queueable" using su True by (auto simp: supported_def)
    ultimately have an: "answered c ?P s ?s1" using q r ad by (auto simp: answered_def runnable_def f_def queued_ok_def)
    have "answered c ?P s (addReply ?s1 c shared_queued)"
      using an core_quiet [OF quiet_replies(1)] prop_ok_quiet [OF quiet_replies(1)] core_fields(1,14) [OF core_quiet [OF quiet_replies(1)]]
      by (simp add: answered_def del: reply_defs)
    then show ?thesis using True c by (simp add: processCommand_exec_def queueMultiCommand_def wp_def f_def [abs_def] del: reply_defs)
  next
    case False
    obtain s1 where 1: "call s c CMD_CALL_FULL = Some s1" "runs_to c ?P (core s) (core s1)" "prop_ok s1" "also_propagate s1 = also_propagate s"
      using call_runs [OF r(1) c su _ q, of CMD_CALL_FULL] ad by (auto simp: wp_def)
    define f where "f cl = cl\<lparr>c_woff := master_repl_offset s1\<rparr>" for cl :: client
    let ?s2 = "upd_cl c f s1"
    have c2: "core ?s2 = upd_cl c f (core s1)" by (rule core_upd_cl) (simp add: f_def quiet_client_def)
    have st: "step_ok c ?P (core s) (core ?s2)" unfolding c2 by (rule step_ok_upd) (use 1(2) in \<open>simp_all add: f_def runs_to_def\<close>)
    then have "idle ?s2" using r(2) by (simp add: step_ok_def)
    then have "ready_keys ?s2 = []" by (simp add: idle_def)
    then have run: "processCommand_exec s c cmd = Some ?s2" using False 1(1) by (auto simp: processCommand_exec_def Let_def f_def [abs_def])
    have "set (c_commands (clients s1 c)) \<subseteq> set (c_commands (clients s c))" using 1(2) by (simp add: runs_to_def quiet_client_def)
    then show ?thesis using run st 1 q by (auto simp: answered_def wp_def f_def)
  qed
qed

lemma processCommand_answered:
  assumes v: "serving c s" and a: "\<And>cmd. lookupCommand s (argv s c ! 0) = Some cmd \<Longrightarrow> sane cmd (argv s c)"
  shows "\<exists>ok s'. processCommand s c = Some (ok, s') \<and> answered c (unseen_req s c) s s'"
proof (cases "strcaseeq (argv s c ! 0) ''quit''")
  case True
  have "refused c s (set_flag c CLIENT_CLOSE_AFTER_REPLY (addReply s c shared_ok))"
    by (rule refused_trans [OF refused_replies(1) refused_flag]) simp
  from refused_answered [OF v this] show ?thesis using True by (auto simp: processCommand_def simp del: reply_defs)
next
  case False
  let ?oc = "lookupCommand s (argv s c ! 0)"
  define f where "f cl = cl\<lparr>c_cmd := ?oc, c_lastcmd := ?oc\<rparr>" for cl :: client
  let ?s1 = "upd_cl c f s"
  have c1: "core ?s1 = upd_cl c f (core s)" by (rule core_upd_cl) (simp add: f_def quiet_client_def)
  have rf: "refused c s ?s1" unfolding refused_def c1 by (simp add: still_def same_world_def upd_cl_def f_def prop_ok_def backlog_holds_def cong: option.case_cong)
  have v1: "serving c ?s1" using serving_refused [OF v rf] .
  have f1: "argv ?s1 c = argv s c" "c_cmd (clients ?s1 c) = ?oc" "c_commands (clients ?s1 c) = c_commands (clients s c)"
    "cluster_enabled ?s1 = cluster_enabled s" "maxmemory ?s1 = maxmemory s"
    by (simp_all add: f_def upd_cl_def)
  have ans: "answered c P s t" if "refused c ?s1 t" for P t using refused_answered [OF v refused_trans [OF rf that]] .
  have fv: "c_argv (f cl) = c_argv cl" for cl by (simp add: f_def)
  have F: "(\<lambda>cl. cl\<lparr>c_cmd := ?oc, c_lastcmd := ?oc\<rparr>) = f" by (simp add: f_def fun_eq_iff)
  show ?thesis
  proof (cases ?oc)
    case None
    have "\<exists>t. processCommand s c = Some (True, t) \<and> refused c ?s1 t"
      using False None unfolding processCommand_def Let_def F by (simp del: reply_defs)
    then show ?thesis using ans by blast
  next
    case (Some cmd)
    note oc = this
    show ?thesis
    proof (cases "arity_fits cmd (argv s c)")
      case False
      then have "\<exists>t. processCommand s c = Some (True, t) \<and> refused c ?s1 t"
        using \<open>\<not> strcaseeq (argv s c ! 0) ''quit''\<close> oc unfolding processCommand_def Let_def F arity_fits_def by (simp add: fv del: reply_defs)
      then show ?thesis using ans by blast
    next
      case True
      have red: "\<not> (redirects ?s1 c cmd \<or> (maxmemory ?s1 \<noteq> 0 \<and> \<not> lua_timedout ?s1))"
        using v f1 by (simp add: serving_def redirects_def)
      have run: "processCommand s c = (case check_auth ?s1 c cmd of Some s \<Rightarrow> Some (True, s)
          | None \<Rightarrow> (case first_refusal checks ?s1 c cmd of Some s \<Rightarrow> Some (True, s) | None \<Rightarrow> map_option (Pair True) (processCommand_exec ?s1 c cmd)))"
        unfolding processCommand_def Let_def F unfolding oc option.case f1(1) if_not_P [OF False] if_not_P [OF True [unfolded arity_fits_def]]
          if_not_P [OF red] by (rule refl)
      show ?thesis
      proof (cases "check_auth ?s1 c cmd")
        case (Some t)
        then show ?thesis using run ans [OF check_refused [of check_auth ?s1 c cmd t]] by auto
      next
        case None
        note au = this
        show ?thesis
        proof (cases "first_refusal checks ?s1 c cmd")
          case (Some t)
          then show ?thesis using run au ans [OF first_refused [OF order_refl Some]] by auto
        next
          case None
          have ok: "cmd_ok cmd" using v oc by (auto simp: serving_def lookupCommand_def)
          have sa: "sane cmd (argv ?s1 c)" "arity_fits cmd (argv ?s1 c)" using a [OF oc] True f1(1) by simp_all
          obtain t where t: "processCommand_exec ?s1 c cmd = Some t" "answered c (unseen_cmd ?s1 c cmd) ?s1 t"
            using exec_answered [OF v1 _ sa ok] f1(2) oc by (auto simp: wp_def)
          have "unseen_cmd ?s1 c cmd = unseen_req s c" using oc f1(1,3) by (simp add: unseen_req_def unseen_cmd_def)
          moreover have "step_ok c P (core s) (core t)" if "step_ok c P (core ?s1) (core t)" for P
            using still_step [OF _ that still_refl] rf by (simp add: refused_def)
          ultimately have "answered c (unseen_req s c) s t" using t(2) rf by (simp add: answered_def refused_def)
          then show ?thesis using run au None t(1) by auto
        qed
      qed
    qed
  qed
qed

end
