(* ===== verification/Table.thy ===== *)
theory Table
  imports Server
begin

text \<open>The population of the command table at start-up: no flag is unknown, no name is there twice, and every
  row is found under its name.\<close>

definition row_name :: "string \<times> string \<times> int \<times> string \<times> string option \<times> int \<times> int \<times> int \<Rightarrow> bytes" where
  "row_name r = lit (fst r)"

definition row_cmd :: "string \<times> string \<times> int \<times> string \<times> string option \<times> int \<times> int \<times> int \<Rightarrow> redisCommand" where
  "row_cmd r = (case r of (name, pr, ar, sfl, gk, fk, lk, ks) \<Rightarrow>
     \<lparr>cm_name = lit name, proc = pr, arity = ar, cm_flags = set (List.map_filter command_flag sfl),
      getkeys_proc = gk, firstkey = fk, lastkey = lk, keystep = ks\<rparr>)"

lemma inj_lit: "lit a = lit b \<longleftrightarrow> a = b"
proof -
  have "inj (\<lambda>c. of_char c :: u8)"
  proof (rule injI)
    fix x y :: char
    assume "(of_char x :: u8) = of_char y"
    then have "unat (of_char x :: u8) = unat (of_char y :: u8)" by simp
    moreover have "unat (of_char x :: u8) = of_char x" for x :: char
    proof -
      have "(of_char x :: u8) = of_nat (of_char x)" by (rule of_nat_of_char [symmetric])
      moreover have "(of_char x :: nat) < 256" by (rule nat_of_char_less_256)
      ultimately show ?thesis by (simp add: unat_of_nat del: of_nat_of_char)
    qed
    ultimately show "x = y" by simp
  qed
  then show ?thesis by (simp add: lit_def inj_map_eq_map)
qed

lemma populate_run:
  assumes "distinct (map fst rows)" "list_all (\<lambda>r. list_all (\<lambda>f. command_flag f \<noteq> None) (fst (snd (snd (snd r))))) rows"
    "\<forall>r \<in> set rows. m (row_name r) = None"
  shows "\<exists>t. populate rows m = Some t \<and> (\<forall>r \<in> set rows. t (row_name r) = Some (row_cmd r)) \<and>
    (\<forall>n. n \<notin> row_name ` set rows \<longrightarrow> t n = m n)"
  using assms
proof (induction rows arbitrary: m)
  case (Cons r rows)
  obtain name pr ar sfl gk fk lk ks where r: "r = (name, pr, ar, sfl, gk, fk, lk, ks)" by (cases r) auto
  let ?m = "m(row_name r \<mapsto> row_cmd r)"
  have ne: "row_name r' \<noteq> row_name r" if "r' \<in> set rows" for r'
    using that Cons.prems(1) by (simp add: row_name_def inj_lit) (metis imageI)
  then have "\<forall>r' \<in> set rows. ?m (row_name r') = None" using Cons.prems(3) by simp
  moreover have "distinct (map fst rows)" "list_all (\<lambda>r. list_all (\<lambda>f. command_flag f \<noteq> None) (fst (snd (snd (snd r))))) rows"
    using Cons.prems(1,2) by simp_all
  ultimately obtain t where t: "populate rows ?m = Some t" "\<forall>r' \<in> set rows. t (row_name r') = Some (row_cmd r')"
    "\<forall>n. n \<notin> row_name ` set rows \<longrightarrow> t n = ?m n" using Cons.IH [of ?m] by blast
  have "populate (r # rows) m = populate rows ?m" using Cons.prems(2,3) by (simp add: r row_name_def row_cmd_def)
  moreover have "row_name r \<notin> row_name ` set rows" using ne by (metis imageE)
  then have "t (row_name r) = Some (row_cmd r)" using t(3) by simp
  ultimately show ?case using t by auto
qed simp

lemma names_distinct: "distinct (map fst redisCommandTable)"
  unfolding redisCommandTable_def by simp

lemma table_flags: "list_all (\<lambda>r. list_all (\<lambda>f. command_flag f \<noteq> None) (fst (snd (snd (snd r))))) redisCommandTable"
  unfolding redisCommandTable_def by (simp add: command_flag_def)

lemma table_populated:
  "\<exists>t. populateCommandTable = Some t \<and> (\<forall>r \<in> set redisCommandTable. t (row_name r) = Some (row_cmd r)) \<and>
    (\<forall>n. n \<notin> row_name ` set redisCommandTable \<longrightarrow> t n = None)"
  using populate_run [OF names_distinct table_flags, of Map.empty] by (simp add: populateCommandTable_def)

lemma table_length: "length redisCommandTable = 200"
  unfolding redisCommandTable_def by simp

lemma table_nth:
  "redisCommandTable ! 1 = (''get'', ''getCommand'', 2, ''rF'', None, 1, 1, 1)"
  "redisCommandTable ! 2 = (''set'', ''setCommand'', - 3, ''wm'', None, 1, 1, 1)"
  "redisCommandTable ! 8 = (''del'', ''delCommand'', - 2, ''w'', None, 1, - 1, 1)"
  "redisCommandTable ! 9 = (''unlink'', ''unlinkCommand'', - 2, ''wF'', None, 1, - 1, 1)"
  "redisCommandTable ! 120 = (''multi'', ''multiCommand'', 1, ''sF'', None, 0, 0, 0)"
  unfolding redisCommandTable_def by simp_all

lemma table_row: "n < 200 \<Longrightarrow> redisCommandTable ! n = r \<Longrightarrow> r \<in> set redisCommandTable"
  using table_length nth_mem by force



end
