(* ===== verification/Steps.thy ===== *)
theory Steps
  imports Process Table
begin

text \<open>The server as a state machine: requests of the connected clients in any order, with the clock going on in between.  The
  invariants hold in every reachable state, no request that \<open>fine\<close> describes makes the server fail, and
  \<open>WATCH\<close> is sound.\<close>

section \<open>Events\<close>

text \<open>What \<open>processInputBuffer\<close> does with a request it has read.\<close>

definition handle :: "redisServer \<Rightarrow> nat \<Rightarrow> redisServer option" where
  "handle s c =
     (if argv s c = [] then Some (resetClient s c)
      else do { (ok, s) \<leftarrow> processCommand s c; Some (if ok then resetClient s c else s) })"

datatype event = Request nat "bytes list" | Clock i64 int "nat \<times> nat" int

abbreviation asks :: "nat \<Rightarrow> bytes list \<Rightarrow> redisServer \<Rightarrow> redisServer" where
  "asks c av s \<equiv> upd_cl c (\<lambda>cl. cl\<lparr>c_argv := av\<rparr>) s"

fun apply_event :: "redisServer \<Rightarrow> event \<Rightarrow> redisServer option" where
  "apply_event s (Request c av) = map_option (\<lambda>s. s\<lparr>current_client := None\<rparr>) (handle (asks c av (s\<lparr>current_client := Some c\<rparr>)) c)"
| "apply_event s (Clock ms sec tod dur) = Some (s\<lparr>mstime := ms, unixtime := sec, timeofday := tod, cmd_duration := dur\<rparr>)"

text \<open>A request of a connected client: unknown commands, refused ones and errors included, but none that \<open>sane\<close> excludes.
  The clock does not go back.\<close>

fun fine :: "redisServer \<Rightarrow> event \<Rightarrow> bool" where
  "fine s (Request c av) \<longleftrightarrow> c \<in> set (client_list s) \<and> (\<forall>cmd. lookupCommand s (av ! 0) = Some cmd \<longrightarrow> sane cmd av)"
| "fine s (Clock ms sec tod dur) \<longleftrightarrow> sint (mstime s) \<le> sint ms"

fun unseen_ev :: "redisServer \<Rightarrow> event \<Rightarrow> (nat \<times> bytes) set" where
  "unseen_ev s (Request c av) = unseen_req (asks c av (s\<lparr>current_client := Some c\<rparr>)) c"
| "unseen_ev s (Clock ms sec tod dur) = {}"

section \<open>The invariant\<close>

definition good :: "redisServer \<Rightarrow> bool" where
  "good s \<longleftrightarrow> prop_ok s \<and> dbs_ok s \<and> watch_inv s \<and> idle s \<and> del_ok s \<and> lua_caller s = None \<and> \<not> cluster_enabled s \<and> maxmemory s = 0 \<and>
     (\<forall>n cmd. commands s n = Some cmd \<longrightarrow> cmd_ok cmd) \<and>
     (\<forall>c \<in> set (client_list s). c_db (clients s c) < length (dbs s) \<and> (\<forall>mc \<in> set (c_commands (clients s c)). queued_ok mc))"

lemma good_cong:
  assumes "prop_ok t = prop_ok s" "watch_inv s \<Longrightarrow> watch_inv t" "dbs t = dbs s" "ready_keys t = ready_keys s" "commands t = commands s" "orig_commands t = orig_commands s"
    "lua_caller t = lua_caller s" "cluster_enabled t = cluster_enabled s" "maxmemory t = maxmemory s" "clients t = clients s" "client_list t = client_list s"
  shows "good s \<Longrightarrow> good t"
  using assms by (simp add: good_def dbs_ok_def idle_def del_ok_def lookupCommandOrOriginal_def cong: option.case_cong)

lemma good_current:
  assumes "good s"
  shows "good (s\<lparr>current_client := x\<rparr>)"
proof (rule good_cong [OF _ _ _ _ _ _ _ _ _ _ _ assms])
  show "prop_ok (s\<lparr>current_client := x\<rparr>) = prop_ok s" by (rule prop_ok_cong) simp_all
qed (auto intro: watch_inv_cong [rotated 4])

lemma good_clock:
  assumes "good s"
  shows "good (s\<lparr>mstime := ms, unixtime := sec, timeofday := tod, cmd_duration := dur\<rparr>)" (is "good ?s")
proof (rule good_cong [OF _ _ _ _ _ _ _ _ _ _ _ assms])
  show "prop_ok ?s = prop_ok s" by (rule prop_ok_cong) simp_all
qed (auto intro: watch_inv_cong [rotated 4])

lemma good_serving: "good s \<Longrightarrow> c \<in> set (client_list s) \<Longrightarrow> serving c s"
  by (simp add: good_def serving_def runnable_def)

lemma good_answered:
  assumes g: "good s" and c: "c \<in> set (client_list s)" and a: "answered c P s s'"
  shows "good s'"
proof -
  have w: "same_world c (core s) (core s')" and st: "step_ok c P (core s) (core s')" using a by (auto simp: answered_def step_ok_def)
  have e: "length (dbs s') = length (dbs s)" "client_list s' = client_list s" "commands s' = commands s" "orig_commands s' = orig_commands s"
    "lua_caller s' = lua_caller s" "cluster_enabled s' = cluster_enabled s" "maxmemory s' = maxmemory s"
    using w by (simp_all add: same_world_def)
  have o: "c_db (clients s' b) = c_db (clients s b) \<and> c_commands (clients s' b) = c_commands (clients s b)" if "b \<noteq> c" for b
    using w that by (simp add: same_world_def same_client_def quiet_client_def)
  have i: "dbs_ok s'" "watch_inv s'" "idle s'" "c_db (clients s' c) < length (dbs s')" using st g by (simp_all add: step_ok_def good_def)
  have q: "\<forall>mc \<in> set (c_commands (clients s' c)). queued_ok mc" "prop_ok s'" using a by (simp_all add: answered_def)
  have "c_db (clients s' b) < length (dbs s') \<and> (\<forall>mc \<in> set (c_commands (clients s' b)). queued_ok mc)" if "b \<in> set (client_list s')" for b
    using that g e(1,2) o [of b] i(4) q(1) by (cases "b = c") (auto simp: good_def)
  moreover have "del_ok s'" using g e(3,4) by (simp add: good_def del_ok_def lookupCommandOrOriginal_def cong: option.case_cong)
  ultimately show ?thesis using g e i q by (simp add: good_def)
qed

lemma refused_reset: "refused c s (resetClient s c)"
proof -
  define f where "f cl = cl\<lparr>c_argv := [], c_cmd := None\<rparr>" for cl :: client
  have cf: "core (upd_cl c f s) = upd_cl c f (core s)" by (rule core_upd_cl) (simp add: f_def quiet_client_def)
  have 1: "refused c s (upd_cl c f s)" unfolding refused_def cf
    by (simp add: still_def same_world_def upd_cl_def f_def prop_ok_def backlog_holds_def cong: option.case_cong)
  have 2: "refused c t (clear_flags c {fl} t)" if "fl \<noteq> CLIENT_DIRTY_CAS" for fl t
    using that by (simp add: refused_def core_clear_flags)
      (auto simp: still_def same_world_def clear_flags_def upd_cl_def prop_ok_def backlog_holds_def cong: option.case_cong)
  have F: "(\<lambda>cl. cl\<lparr>c_argv := [], c_cmd := None\<rparr>) = f"
    by (simp add: f_def fun_eq_iff)
  have 3: "refused c t (set_flag c CLIENT_REPLY_SKIP t)" for t by (rule refused_flag) simp
  have 4: "refused c s (if b then clear_flags c {CLIENT_ASKING} (upd_cl c f s) else upd_cl c f s)" for b
    using refused_trans [OF 1 2] 1 by simp
  have 5: "refused c s (clear_flags c {CLIENT_REPLY_SKIP} (if b then clear_flags c {CLIENT_ASKING} (upd_cl c f s) else upd_cl c f s))" for b
    by (rule refused_trans [OF 4 2]) simp
  show ?thesis unfolding resetClient_def Let_def F using 5 refused_trans [OF refused_trans [OF 5 3] 2] by simp
qed

lemma handle_answered:
  assumes g: "good s" and c: "c \<in> set (client_list s)" and a: "\<And>cmd. lookupCommand s (av ! 0) = Some cmd \<Longrightarrow> sane cmd av"
  shows "\<exists>s'. handle (asks c av s) c = Some s' \<and> answered c (unseen_req (asks c av s) c) s s'"
proof -
  let ?s = "asks c av s"
  have cs: "core ?s = asks c av (core s)" by (rule core_upd_cl) (simp add: quiet_client_def)
  have rf: "refused c s ?s" unfolding refused_def cs
    by (simp add: still_def same_world_def upd_cl_def prop_ok_def backlog_holds_def cong: option.case_cong)
  have v: "serving c ?s" using serving_refused [OF good_serving [OF g c] rf] .
  have bk: "answered c P s t" if "answered c P ?s t" for P t
    using that rf still_step [of c "core s" "core ?s" P "core t" "core t"] by (simp add: answered_def refused_def)
  show ?thesis
  proof (cases "av = []")
    case True
    then show ?thesis using bk [OF refused_answered [OF v refused_reset]] by (simp add: handle_def)
  next
    case False
    have lk: "lookupCommand ?s (argv ?s c ! 0) = lookupCommand s (av ! 0)" by (simp add: lookupCommand_def upd_cl_def)
    then obtain ok t where t: "processCommand ?s c = Some (ok, t)" "answered c (unseen_req ?s c) ?s t"
      using processCommand_answered [OF v] a by auto
    have "answered c P ?s (resetClient t c)" if "answered c P ?s t" for P
      using that refused_reset [of c t] still_step [of c "core ?s" "core ?s" P "core t" "core (resetClient t c)"]
        stillD(6) [of c "core t" "core (resetClient t c)"]
      by (simp add: answered_def refused_def quiet_client_def)
    then show ?thesis using t bk False by (auto simp: handle_def)
  qed
qed

lemma event_runs:
  assumes g: "good s" and f: "fine s ev"
  shows "\<exists>s'. apply_event s ev = Some s' \<and> good s'"
proof (cases ev)
  case (Request c av)
  let ?s = "s\<lparr>current_client := Some c\<rparr>"
  have g1: "good ?s" using g by (rule good_current)
  have c: "c \<in> set (client_list ?s)" and a: "\<And>cmd. lookupCommand ?s (av ! 0) = Some cmd \<Longrightarrow> sane cmd av"
    using f Request by (simp_all add: lookupCommand_def)
  show ?thesis using handle_answered [OF g1 c a] good_answered [OF g1 c] good_current [of _ None] Request by auto
next
  case (Clock ms sec tod dur)
  then show ?thesis using good_clock [OF g] by simp
qed

section \<open>Reachable states\<close>

text \<open>The state after start-up with empty databases: any configuration, with some commands possibly disabled by
  \<open>rename-command\<close>.\<close>

definition started :: "redisServer \<Rightarrow> bool" where
  "started s \<longleftrightarrow> 0 < length (dbs s) \<and> (\<forall>d < length (dbs s). db_of s d = empty_db) \<and>
     (\<forall>c. c_db (clients s c) = 0 \<and> c_watched_keys (clients s c) = [] \<and> c_commands (clients s c) = []) \<and>
     ready_keys s = [] \<and> slaves s = [] \<and> repl_backlog s = None \<and> lua_caller s = None \<and> \<not> cluster_enabled s \<and> maxmemory s = 0 \<and>
     populateCommandTable = Some (orig_commands s) \<and> commands s \<subseteq>\<^sub>m orig_commands s"

inductive reachable :: "redisServer \<Rightarrow> bool" where
  start: "started s \<Longrightarrow> reachable s"
| event: "reachable s \<Longrightarrow> fine s ev \<Longrightarrow> apply_event s ev = Some s' \<Longrightarrow> reachable s'"

lemma rows_arity:
  "list_all (\<lambda>(name, pr, ar, r). (pr \<in> {''expireCommand'', ''pexpireCommand'', ''expireatCommand''} \<longrightarrow> ar = 3) \<and>
     (pr \<in> {''setexCommand'', ''psetexCommand''} \<longrightarrow> ar = 4)) redisCommandTable"
  unfolding redisCommandTable_def by simp

lemma row_cmd_ok: "r \<in> set redisCommandTable \<Longrightarrow> cmd_ok (row_cmd r)"
  using rows_arity by (auto simp: list_all_iff cmd_ok_def row_cmd_def split: prod.splits)

lemma rows_named:
  "(''del'', ''delCommand'', - 2, ''w'', None, 1, - 1, 1) \<in> set redisCommandTable"
  "(''unlink'', ''unlinkCommand'', - 2, ''wF'', None, 1, - 1, 1) \<in> set redisCommandTable"
  "(''multi'', ''multiCommand'', 1, ''sF'', None, 0, 0, 0) \<in> set redisCommandTable"
  using table_row [OF _ table_nth(3)] table_row [OF _ table_nth(4)] table_row [OF _ table_nth(5)] by simp_all

lemma table_facts:
  assumes "populateCommandTable = Some t"
  shows "t n = Some cmd \<Longrightarrow> cmd_ok cmd" "\<exists>cmd. t (lit ''del'') = Some cmd \<and> proc cmd = ''delCommand''"
    "\<exists>cmd. t (lit ''unlink'') = Some cmd \<and> proc cmd = ''unlinkCommand''" "\<exists>cmd. t (lit ''multi'') = Some cmd \<and> proc cmd = ''multiCommand''"
proof -
  obtain t' where t': "populateCommandTable = Some t'" "\<forall>r \<in> set redisCommandTable. t' (row_name r) = Some (row_cmd r)"
    "\<forall>n. n \<notin> row_name ` set redisCommandTable \<longrightarrow> t' n = None" using table_populated by blast
  have tt: "t' = t" using trans [OF t'(1) [symmetric] assms] by (rule option.inject [THEN iffD1])
  have t: "t (row_name r) = Some (row_cmd r)" if "r \<in> set redisCommandTable" for r using that t'(2) tt by blast
  have n: "t n = None" if "n \<notin> row_name ` set redisCommandTable" for n using that t'(3) tt by blast
  show "cmd_ok cmd" if "t n = Some cmd"
  proof -
    have "n \<in> row_name ` set redisCommandTable" using n [of n] \<open>t n = Some cmd\<close> by (metis option.distinct(1))
    then obtain r where r: "n = row_name r" "r \<in> set redisCommandTable" by (rule imageE)
    have "cmd = row_cmd r" using t [OF r(2)] \<open>t n = Some cmd\<close> r(1) by simp
    then show ?thesis using row_cmd_ok [OF r(2)] by simp
  qed
  show "\<exists>cmd. t (lit ''del'') = Some cmd \<and> proc cmd = ''delCommand''" "\<exists>cmd. t (lit ''unlink'') = Some cmd \<and> proc cmd = ''unlinkCommand''"
    "\<exists>cmd. t (lit ''multi'') = Some cmd \<and> proc cmd = ''multiCommand''"
    using t [OF rows_named(1)] t [OF rows_named(2)] t [OF rows_named(3)] by (simp_all add: row_name_def row_cmd_def)
qed

lemma started_good:
  assumes s: "started s"
  shows "good s"
proof -
  have tb: "populateCommandTable = Some (orig_commands s)" and m: "commands s \<subseteq>\<^sub>m orig_commands s" using s by (simp_all add: started_def)
  note f = table_facts [OF tb]
  have db: "db_of s d = empty_db" if "d < length (dbs s)" for d using s that by (simp add: started_def)
  have cl: "c_watched_keys (clients s c) = []" for c using s by (simp add: started_def)
  have "watchers s d k = {}" if "d < length (dbs s)" for d k using db [OF that] by (simp add: watchers_def empty_db_def)
  then have "watch_inv s" using db cl by (intro watch_invI) (auto simp: empty_db_def)
  moreover have "dbs_ok s" "idle s" using s db by (simp_all add: dbs_ok_def idle_def started_def empty_db_def)
  moreover have "prop_ok s" using s f(2,4) by (simp add: prop_ok_def started_def)
  moreover have "del_ok s"
  proof -
    have l: "lookupCommandOrOriginal s n = orig_commands s (map lower n)" if "orig_commands s (map lower n) \<noteq> None" for n
      using m that by (cases "commands s (map lower n)") (auto simp: lookupCommandOrOriginal_def lookupCommand_def map_le_def dom_def)
    have "map lower (lit ''DEL'') = lit ''del''" "map lower (lit ''UNLINK'') = lit ''unlink''" by (simp_all add: lit_def lower_def)
    then show ?thesis using f(2-4) l [of "lit ''DEL''"] l [of "lit ''UNLINK''"] by (auto simp: del_ok_def plain_feed_def)
  qed
  moreover have "commands s n = Some cmd \<Longrightarrow> cmd_ok cmd" for n cmd using m f(1) [of n cmd] by (auto simp: map_le_def dom_def)
  ultimately show ?thesis using s by (simp add: good_def started_def)
qed

lemma reachable_good: "reachable s \<Longrightarrow> good s"
proof (induction rule: reachable.induct)
  case (event s ev s')
  then show ?case using event_runs [of s ev] by auto
qed (rule started_good)

section \<open>Safety\<close>


definition server0 :: redisServer where
  "server0 = init_server 2 (\<lambda>_. plain_client) [0, 1] (\<lambda>_. []) (the populateCommandTable) 1"

lemma server0_started: "started server0"
proof -
  obtain t where "populateCommandTable = Some t" using table_populated by blast
  then have "populateCommandTable = Some (the populateCommandTable)" by (metis option.sel)
  then show ?thesis by (auto simp: started_def server0_def init_server_def plain_client_def less_Suc_eq numeral_2_eq_2)
qed

lemma server0_lookup:
  assumes "(name, pr, ar, sfl, gk, fk, lk, ks) \<in> set redisCommandTable" "map lower b = lit name"
  shows "lookupCommand server0 b = Some (row_cmd (name, pr, ar, sfl, gk, fk, lk, ks))"
proof -
  obtain t where t: "populateCommandTable = Some t" "\<forall>r \<in> set redisCommandTable. t (row_name r) = Some (row_cmd r)"
    using table_populated by blast
  have "t (lit name) = Some (row_cmd (name, pr, ar, sfl, gk, fk, lk, ks))" using t(2) assms(1) by (force simp: row_name_def)
  moreover have "the populateCommandTable = t" unfolding t(1) by simp
  ultimately show ?thesis using assms(2) by (simp add: lookupCommand_def server0_def init_server_def)
qed

lemma fine_set: "fine server0 (Request 1 [lit ''SET'', lit ''k'', lit ''v''])"
proof -
  have r: "(''set'', ''setCommand'', - 3, ''wm'', None, 1, 1, 1) \<in> set redisCommandTable"
    using table_row [OF _ table_nth(2)] by simp
  have "''setCommand'' \<in> supported" by (simp add: supported_def queueable_def string_procs_def)
  then have "sane (row_cmd (''set'', ''setCommand'', - 3, ''wm'', None, 1, 1, 1)) [lit ''SET'', lit ''k'', lit ''v'']"
    by (simp add: sane_def set_words_def row_cmd_def)
  moreover have "map lower (lit ''SET'') = lit ''set''" by (simp add: lit_def lower_def)
  moreover have "1 \<in> set (client_list server0)" by (simp add: server0_def init_server_def)
  ultimately show ?thesis using server0_lookup [OF r] by simp
qed




section \<open>Optimistic locking\<close>

text \<open>A run of events in which a client goes on watching a key, and no event is a \<open>PERSIST\<close> or \<open>MOVE\<close> of that key or a \<open>SWAPDB\<close>,
  by itself or in a transaction.\<close>

inductive watching :: "nat \<Rightarrow> nat \<times> bytes \<Rightarrow> redisServer \<Rightarrow> redisServer \<Rightarrow> bool" for e dk s0 where
  here: "dk \<in> set (c_watched_keys (clients s0 e)) \<Longrightarrow> watching e dk s0 s0"
| next_event: "watching e dk s0 s \<Longrightarrow> fine s ev \<Longrightarrow> dk \<notin> unseen_ev s ev \<Longrightarrow> apply_event s ev = Some s' \<Longrightarrow>
    dk \<in> set (c_watched_keys (clients s' e)) \<Longrightarrow> watching e dk s0 s'"

definition seen_or_same :: "nat \<Rightarrow> nat \<Rightarrow> bytes \<Rightarrow> redisServer \<Rightarrow> redisServer \<Rightarrow> bool" where
  "seen_or_same e d k s0 s \<longleftrightarrow> CLIENT_DIRTY_CAS \<in> flags s e \<or> content s d k = content s0 d k \<or>
     (content s d k = (None, None) \<and> (\<exists>t. snd (content s0 d k) = Some t \<and> sint t < sint (mstime s)))"

lemma content_core: "d < length (dbs s) \<Longrightarrow> content (core s) d k = content s d k"
  by (simp add: content_def core_db_def option.map_comp comp_def)

lemma expired_time: "good s \<Longrightarrow> expired s d k \<Longrightarrow> \<exists>t. snd (content s d k) = Some t \<and> sint t < sint (mstime s)"
  by (auto simp: expired_def content_def good_def now_def split: option.splits)

lemma seen_step:
  assumes g: "good s" and d: "d < length (dbs s)" and st: "step_ok c P (core s) (core s')" "(d, k) \<notin> P"
    and w: "(d, k) \<in> set (c_watched_keys (clients s e))" "(d, k) \<in> set (c_watched_keys (clients s' e))"
    and i: "seen_or_same e d k s0 s"
  shows "seen_or_same e d k s0 s'"
proof -
  have l: "length (dbs s') = length (dbs s)" "mstime s' = mstime s" using st(1) by (simp_all add: step_ok_def same_world_def)
  have km: "CLIENT_DIRTY_CAS \<in> flags s e \<Longrightarrow> CLIENT_DIRTY_CAS \<in> flags s' e"
    using st(1) w by (auto simp: step_ok_def keeps_marks_def quiet_client_def)
  have "content_ok (core s) (core s') d k" using st d by (simp add: step_ok_def)
  then consider "content s' d k = content s d k" | "expired s d k" "content s' d k = (None, None)" | "CLIENT_DIRTY_CAS \<in> flags s' e"
    using w(2) d l(1) content_core [of d s k] content_core [of d s' k] by (auto simp: content_ok_def marked_def quiet_client_def)
  then show ?thesis
  proof cases
    case 2
    then show ?thesis using i km l(2) expired_time [OF g 2(1)] by (auto simp: seen_or_same_def)
  qed (use i km l(2) in \<open>auto simp: seen_or_same_def\<close>)
qed

lemma watching_seen:
  assumes "watching e (d, k) s0 s" "good s0"
  shows "good s \<and> (d, k) \<in> set (c_watched_keys (clients s e)) \<and> seen_or_same e d k s0 s"
  using assms
proof (induction rule: watching.induct)
  case here
  then show ?case by (simp add: seen_or_same_def)
next
  case (next_event s ev s')
  then have g: "good s" and w: "(d, k) \<in> set (c_watched_keys (clients s e))" and i: "seen_or_same e d k s0 s" by simp_all
  have g': "good s'" using event_runs [OF g next_event.hyps(2)] next_event.hyps(4) by simp
  have "watch_inv s" using g by (simp add: good_def)
  then have d: "d < length (dbs s)" using watch_okD(2) [OF watch_invD(1), of s d k e] w by simp
  have "seen_or_same e d k s0 s'"
  proof (cases ev)
    case (Request c av)
    let ?s = "s\<lparr>current_client := Some c\<rparr>"
    have g1: "good ?s" using g by (rule good_current)
    have f: "c \<in> set (client_list ?s)" "\<And>cmd. lookupCommand ?s (av ! 0) = Some cmd \<Longrightarrow> sane cmd av"
      using next_event.hyps(2) Request by (simp_all add: lookupCommand_def)
    obtain s1 where s1: "handle (asks c av ?s) c = Some s1" "answered c (unseen_req (asks c av ?s) c) ?s s1"
      using handle_answered [OF g1 f] by blast
    then have e: "s' = s1\<lparr>current_client := None\<rparr>" "step_ok c (unseen_ev s ev) (core ?s) (core s1)"
      using next_event.hyps(4) Request by (simp_all add: answered_def)
    have "seen_or_same e d k s0 s1"
      using seen_step [OF g1 _ e(2) next_event.hyps(3), of e s0] d w i next_event.hyps(5) e(1) by (simp add: seen_or_same_def content_def)
    then show ?thesis using e(1) by (simp add: seen_or_same_def content_def)
  next
    case (Clock ms sec tod dur)
    then show ?thesis using i next_event.hyps(2,4) by (auto simp: seen_or_same_def content_def)
  qed
  then show ?case using g' next_event.hyps(5) by simp
qed


lemma good_watch:
  assumes g: "good s" and c: "c \<in> set (client_list s)"
  shows "good (watchForKey s c key)"
proof (rule good_answered [OF g c])
  have i: "watch_inv s" "c_db (clients s c) < length (dbs s)" using g c by (simp_all add: good_def)
  let ?s = "watchForKey s c key"
  have w: "watch_inv ?s" "only_watch c s ?s" using watchForKey_inv [OF i(1) c i(2)] watchForKey_only by simp_all
  have "step_ok c {} (core s) (core ?s)" using only_watch_flags_step [OF only_watch_core [OF w(2)]] w(1) i(2) by simp
  then show "answered c {} s ?s" using only_watch_sel(1,2) [OF w(2)] only_watch_sel(7) [OF w(2), of c] g c by (simp add: answered_def good_def)
qed

definition watched0 :: redisServer where
  "watched0 = watchForKey server0 0 (lit ''k'')"


end
