(* ===== verification/Limits.thy ===== *)
theory Limits
  imports Steps
begin

text \<open>Where the server does not do what it means to: a request that makes it abort, and a change that \<open>WATCH\<close> does not
  see.\<close>

section \<open>SET with both option words\<close>

definition set_ex_px :: "bytes \<Rightarrow> bytes \<Rightarrow> bytes list" where
  "set_ex_px k v = [lit ''SET'', k, v, lit ''EX'', lit ''px'', lit ''EX'', lit ''10'']"

lemma words [simp]:
  "strcaseeq (lit ''EX'') ''ex''" "\<not> strcaseeq (lit ''EX'') ''px''" "strcaseeq (lit ''px'') ''px''" "\<not> strcaseeq (lit ''px'') ''ex''"
  "\<not> strcaseeq (lit ''10'') ''px''" "\<not> strcaseeq (lit ''10'') ''ex''"
  by (simp_all add: strcaseeq_def lit_def lower_def cstr_def)

lemma feed_ex_px:
  assumes "proc cmd = ''setCommand''"
  shows "feedAppendOnlyFile s cmd d (set_ex_px k v) = None"
proof -
  have "feedAppendOnlyFile_cmd s1 cmd (set_ex_px k v) buf = None" for s1 buf
    using assms by (simp add: feedAppendOnlyFile_cmd_def set_ex_px_def upt_rec nth_opt_def)
  then show ?thesis by (auto simp: feedAppendOnlyFile_def Option.bind_eq_None_conv)
qed

lemma opts_ex_px: "setCommand_opts {} UNIT_SECONDS None (drop 3 (set_ex_px k v)) = Some ({OBJ_SET_EX}, UNIT_SECONDS, Some (lit ''10''))"
  by (simp add: set_ex_px_def is_opt_def lit_def lower_def)

lemma aof_state_ops:
  "aof_state (upd_db d f x) = aof_state x" "aof_state (slotToKeyUpdateKey x k b) = aof_state x" "aof_state (set_flag c fl x) = aof_state x"
  "aof_state (rememberSlaveKeyWithExpire x d k) = aof_state x" "aof_state (signalKeyAsReady x d k) = aof_state x"
  by (simp_all add: upd_db_def slotToKeyUpdateKey_def rememberSlaveKeyWithExpire_def signalKeyAsReady_def set_flag_def upd_cl_def Let_def)

lemma aof_state_set: "aof_state (store_key d k p x) = aof_state x" "aof_state (set_expire oc d k t x) = aof_state x"
proof -
  have "aof_state (fold (\<lambda>c. set_flag c fl) cs x) = aof_state x" for cs fl x by (induction cs arbitrary: x) (simp_all add: aof_state_ops)
  then have "aof_state (signalModifiedKey x d k) = aof_state x" for x
    by (simp add: signalModifiedKey_def touchWatchedKey_def split: option.split)
  then show "aof_state (store_key d k p x) = aof_state x" "aof_state (set_expire oc d k t x) = aof_state x"
    by (auto simp: store_key_def set_expire_def expire_key_def del_key_def put_key_def add_key_def set_exp_def slotToKeyDel_def slotToKeyAdd_def
        aof_state_ops Let_def)
qed

lemma string2ll_ten: "string2ll (lit ''10'') = Some 10"
proof -
  have "lit ''10'' = decimal 10" by (simp add: decimal_def dec.simps lit_def dig_def)
  then show ?thesis using string2ll_decimal [of 10] by simp
qed

lemma set_ex_px_runs:
  assumes r: "runnable c s" and a: "argv s c = set_ex_px k v"
  shows "\<exists>s'. setCommand s c = Some s' \<and> dirty s' = dirty s + 1 \<and> aof_state s' = aof_state s \<and> argv s' c = argv s c \<and>
    c_cmd (clients s' c) = c_cmd (clients s c) \<and> lua_caller s' = None \<and> flags s' c \<subseteq> flags s c \<union> {CLIENT_DIRTY_CAS, CLIENT_PENDING_WRITE, CLIENT_CLOSE_ASAP}"
proof -
  let ?x = "core s" and ?d = "cdb s c"
  have rl: "rel c s ?x (out (clients s c))" using r by (simp add: rel_def runnable_def)
  have ok: "ready c ?x" using r by (simp add: ready_def runnable_def)
  have d: "?d < length (dbs ?x)" using r by (simp add: runnable_def)
  define x1 where "x1 = store_key ?d k (enc v) ?x"
  define x2 where "x2 = set_expire (Some c) ?d k (mstime s + 10000) (x1\<lparr>dirty := dirty x1 + 1\<rparr>)"
  have "sim c (setCommand s c) x2 (out (clients s c) @ says ?x c shared_ok)"
    using sim_set [OF rl ok, of "{OBJ_SET_EX}" UNIT_SECONDS "Some (lit ''10'')" 10000] opts_ex_px [of k v] a
      setGeneric_ms(1) [OF string2ll_ten, of s c UNIT_SECONDS] store_key_db(6) [OF d, of k "enc v"]
    by (simp add: set_spec_def Let_def set_ex_px_def x2_def x1_def)
  then obtain s' where s': "setCommand s c = Some s'" "core s' = x2" by (auto simp: sim_def rel_def)
  have "clients x2 c = clients x1 c" by (simp add: x2_def set_expire_def rememberSlaveKeyWithExpire_def Let_def)
  moreover have "clients x1 c = (if c \<in> watchers ?x ?d k then (clients ?x c)\<lparr>c_flags := insert CLIENT_DIRTY_CAS (flags ?x c)\<rparr> else clients ?x c)"
    using store_key_clients [OF d] by (simp add: x1_def)
  ultimately have q: "quiet_client (clients s' c) =
      (if c \<in> watchers ?x ?d k then (quiet_client (clients s c))\<lparr>c_flags := insert CLIENT_DIRTY_CAS (flags ?x c)\<rparr> else quiet_client (clients s c))"
    using arg_cong [OF s'(2), of "\<lambda>s. clients s c"] by simp
  have "dirty x2 = dirty s + 1" using store_key_db(8) [OF d, of k "enc v"] by (simp add: x2_def x1_def set_expire_def rememberSlaveKeyWithExpire_def Let_def)
  then have "dirty s' = dirty s + 1" using arg_cong [OF s'(2), of dirty] by simp
  moreover have "aof_state s' = aof_state s" using arg_cong [OF s'(2), of aof_state] by (simp add: x2_def x1_def aof_state_set)
  moreover have "lua_caller s' = None" using arg_cong [OF s'(2), of lua_caller] store_key_db(10) [OF d, of k "enc v"] r
    by (simp add: x2_def x1_def set_expire_def rememberSlaveKeyWithExpire_def runnable_def Let_def)
  moreover have "argv s' c = argv s c" "c_cmd (clients s' c) = c_cmd (clients s c)"
    using arg_cong [OF q, of c_argv] arg_cong [OF q, of c_cmd] by (simp_all add: quiet_client_def split: if_splits)
  moreover have "flags s' c \<subseteq> flags s c \<union> {CLIENT_DIRTY_CAS, CLIENT_PENDING_WRITE, CLIENT_CLOSE_ASAP}"
    using arg_cong [OF q, of c_flags] by (auto simp: quiet_client_def split: if_splits)
  ultimately show ?thesis using s'(1) by blast
qed

text \<open>C0: \<open>SET key value EX px EX 10\<close> is accepted by \<open>setCommand\<close>, which takes \<open>px\<close> for the value of the first \<open>EX\<close> and lets the second \<open>EX\<close>
  override it, so the key is set; but \<open>feedAppendOnlyFile\<close> looks at every word, finds both options and fails its
  assertion.  With the append only file enabled, any client that may run \<open>SET\<close> aborts the server with this
  request, in every state and for every key and value.\<close>

theorem set_ex_px_aborts:
  assumes r: "runnable c s" and c: "c_cmd (clients s c) = Some cmd" "proc cmd = ''setCommand''" "CMD_MODULE \<notin> cm_flags cmd"
    and a: "argv s c = set_ex_px k v" and o: "aof_state s \<noteq> AOF_OFF"
  shows "call s c CMD_CALL_FULL = None"
proof -
  let ?s1 = "call_before s c cmd"
  note b = call_before_still [where c = c and s = s and cmd = cmd]
  have r1: "runnable c ?s1" using runnable_still [OF r b(1)] b(2) r by (simp add: runnable_def)
  have a1: "argv ?s1 c = set_ex_px k v" using a b(4) by simp
  have "aof_state ?s1 = aof_state s" using quiet_fields(51) [OF feedMonitors_quiet] by (simp add: call_before_def Let_def clear_flags_def upd_cl_def)
  moreover have "flags ?s1 c \<inter> prop_flags = {}" by (auto simp: call_before_def Let_def clear_flags_def)
  ultimately have a1: "argv ?s1 c = set_ex_px k v" "aof_state ?s1 = aof_state s" "flags ?s1 c \<inter> prop_flags = {}" using a1 by simp_all
  obtain s2 where 2: "setCommand ?s1 c = Some s2" "dirty s2 = dirty ?s1 + 1" "aof_state s2 = aof_state s" "argv s2 c = set_ex_px k v"
    "c_cmd (clients s2 c) = Some cmd" "lua_caller s2 = None"
    "flags s2 c \<subseteq> flags ?s1 c \<union> {CLIENT_DIRTY_CAS, CLIENT_PENDING_WRITE, CLIENT_CLOSE_ASAP}"
    using set_ex_px_runs [OF r1 a1(1)] a1 b(5) c(1) by auto
  have run: "run_proc (proc cmd) ?s1 c = Some s2" using 2(1) c(2) by (simp add: run_proc_def run_queued_def string_procs_def)
  let ?s3 = "call_stats s2 c cmd cmd CMD_CALL_FULL"
  note f = core_fields [OF call_stats_core(1) [OF 2(6), of c cmd cmd CMD_CALL_FULL]]
  have fl: "fl \<notin> flags ?s3 c" if "fl \<in> prop_flags" for fl
    using that a1(3) 2(7) f(5) [of fl c] by (auto simp: prop_flags_def CLIENT_PREVENT_PROP_def)
  have as: "aof_state ?s3 = aof_state s2" using arg_cong [OF call_stats_core(1) [OF 2(6), of c cmd cmd CMD_CALL_FULL], of aof_state] by simp
  have pf: "call_propagate_flags ?s3 c 1 CMD_CALL_FULL = {PROPAGATE_AOF, PROPAGATE_REPL}"
    using fl by (auto simp: call_propagate_flags_def prop_flags_def CLIENT_PREVENT_PROP_def CMD_CALL_FULL_def CMD_CALL_PROPAGATE_def)
  have "propagate ?s3 cmd d (argv ?s3 c) {PROPAGATE_AOF, PROPAGATE_REPL} = None" for d
    using feed_ex_px [OF c(2)] f(4) [of c] 2(3,4) as o by (simp add: propagate_def)
  then have "call_propagate ?s3 c cmd 1 CMD_CALL_FULL = None"
    using pf c(3) fl by (auto simp: call_propagate_def CMD_CALL_FULL_def CMD_CALL_PROPAGATE_def prop_flags_def CLIENT_PREVENT_PROP_def)
  then show ?thesis using c(1) run 2(2,5) by (simp add: call_def call_with_def Let_def)
qed

definition set_cmd :: redisCommand where
  "set_cmd = row_cmd (''set'', ''setCommand'', - 3, ''wm'', None, 1, 1, 1)"

definition aof_server :: redisServer where
  "aof_server = upd_cl 0 (\<lambda>cl. cl\<lparr>c_argv := set_ex_px (lit ''k'') (lit ''v''), c_cmd := Some set_cmd\<rparr>) (server0\<lparr>aof_state := AOF_ON\<rparr>)"

theorem set_ex_px_aborts_witness:
  "runnable 0 aof_server \<and> argv aof_server 0 = set_ex_px (lit ''k'') (lit ''v'') \<and> call aof_server 0 CMD_CALL_FULL = None"
proof -
  have "started aof_server" using server0_started by (auto simp: aof_server_def started_def upd_cl_def)
  then have r: "runnable 0 aof_server"
    using good_serving [OF started_good, of aof_server 0] by (simp add: serving_def aof_server_def server0_def init_server_def upd_cl_def)
  have m: "CMD_MODULE \<notin> cm_flags set_cmd" by (simp add: set_cmd_def row_cmd_def map_filter_simps command_flag_def)
  have f: "c_cmd (clients aof_server 0) = Some set_cmd" "proc set_cmd = ''setCommand''"
    "argv aof_server 0 = set_ex_px (lit ''k'') (lit ''v'')" "aof_state aof_server \<noteq> AOF_OFF"
    by (simp_all add: aof_server_def set_cmd_def row_cmd_def upd_cl_def)
  show ?thesis using set_ex_px_aborts [OF r f(1,2) m f(3,4)] r f(3) by simp
qed

section \<open>MOVE and WATCH\<close>

lemma expire_key_live: "\<not> expired x d k \<Longrightarrow> expire_key d k x = x"
  by (simp add: expire_key_def)

text \<open>C0: \<open>MOVE\<close> is not seen by \<open>WATCH\<close>.  When a key without expire is moved to another database that does not have it, it is gone from
  its database and present in the other one, but no client is marked that was not marked before, so
  a transaction that watches the key in either database goes ahead although the key has changed.\<close>

theorem move_unseen:
  fixes dst :: nat
  defines "src \<equiv> \<lambda>s c. c_db (clients s c)"
  assumes i: "prop_ok s" "dbs_ok s" "src s c < length (dbs s)" "\<not> cluster_enabled s"
    and n: "string2ll (argv s c ! 2) = Some n" "sint n = int dst" "dst < length (dbs s)" "int dst \<le> 2147483647" "dst \<noteq> src s c"
    and k: "d_dict (db_of s (src s c)) (argv s c ! 1) = Some ob" "d_expires (db_of s (src s c)) (argv s c ! 1) = None"
      "d_dict (db_of s dst) (argv s c ! 1) = None"
  shows "\<exists>s'. moveCommand s c = Some s' \<and> d_dict (db_of s' (src s c)) (argv s c ! 1) = None \<and>
    map_option ptr (d_dict (db_of s' dst) (argv s c ! 1)) = Some (ptr ob) \<and>
    (\<forall>e. CLIENT_DIRTY_CAS \<in> flags s' e \<longleftrightarrow> CLIENT_DIRTY_CAS \<in> flags s e)"
proof -
  let ?d = "c_db (clients s c)" and ?k = "argv s c ! 1" and ?x = "core s" and ?y = "out (clients s c)"
  have rl: "rel c s ?x ?y" using i by (simp add: rel_def)
  have ok: "dbs_ok ?x" "?d < length (dbs ?x)" "dst < length (dbs ?x)" using i n by (simp_all add: src_def)
  have ek: "d_expires (db_of s dst) ?k = None" using dbs_okD [OF i(2), of dst ?k] n(3) k(3) by (cases "d_expires (db_of s dst) ?k") (auto simp: has_key_def)
  have ne: "expire_key ?d ?k ?x = ?x" "expire_key dst ?k ?x = ?x"
    using k(2) ek ok n(3) by (simp_all add: expire_key_live expired_def core_db_def src_def)
  obtain v1 s1 where 1: "lookupKeyWrite s ?d ?k = Some (v1, s1)" "map_option ptr v1 = write_key ?x ?d ?k" "rel c s1 ?x ?y"
    using rel_lookupKeyWrite [OF rl ok(1,2), of ?k] ne(1) by auto
  have "write_key ?x ?d ?k = Some (ptr ob)" using k(1,2) ok by (simp add: write_key_def expired_def core_db_def src_def)
  then obtain w where w: "v1 = Some w" "ptr w = ptr ob" using 1(2) by auto
  have "d_expires (db_of s1 ?d) ?k = None" using arg_cong [OF rel_db [OF 1(3) ok(2)], of d_expires] k(2) ok(2) by (simp add: src_def)
  then have f1: "cdb s1 c = ?d" "getExpire s1 ?d ?k = Some (- 1)" using rel_client(2) [OF 1(3)] by (simp_all add: getExpire_def)
  obtain v2 s2 where 2: "lookupKeyWrite s1 dst ?k = Some (v2, s2)" "map_option ptr v2 = write_key ?x dst ?k" "rel c s2 ?x ?y"
    using rel_lookupKeyWrite [OF 1(3) ok(1,3), of ?k] ne(2) by auto
  have v2: "v2 = None" using 2(2) k(3) ok(3) by (simp add: write_key_def core_db_def split: if_splits)
  have nk: "\<not> has_key ?x dst ?k" using k(3) ok(3) by (simp add: has_key_def core_db_def)
  obtain s3 where 3: "dbAdd s2 dst ?k w = Some s3" "rel c s3 (add_key dst ?k (ptr w) ?x) ?y" using rel_dbAdd [OF 2(3) ok(3) nk] by blast
  let ?x4 = "del_key ?d ?k (add_key dst ?k (ptr w) ?x)"
  have l3: "?d < length (dbs s3)" using rel_len [OF 3(2)] ok(2) by simp
  have 4: "rel c (del_key ?d ?k s3) ?x4 ?y" using rel_lifts [OF lifts_del 3(2)] ok(2) by simp
  let ?s5 = "(del_key ?d ?k s3)\<lparr>dirty := dirty (del_key ?d ?k s3) + 1\<rparr>"
  let ?s6 = "addReply ?s5 c shared_cone"
  have fin: "moveCommand_finish s c ?d dst ?k = Some ?s6"
    using 1(1) w(1) f1 2(1) v2 3(1) dbDelete_eq [OF l3] by (simp add: moveCommand_finish_def Let_def del: reply_defs)
  have "moveCommand s c = moveCommand_finish s c ?d dst ?k"
    using i(3,4) n by (auto simp: moveCommand_def getLongLong_arg selectDb_def INT_MAX_def INT_MIN_def upd_cl_def fun_upd_idem src_def Let_def)
  moreover have c6: "core ?s6 = ?x4\<lparr>dirty := dirty s3 + 1\<rparr>"
    using 4 core_quiet [OF quiet_replies(1)] by (simp add: rel_def del: reply_defs)
  moreover have "d_dict (db_of ?s6 ?d) ?k = None" "map_option ptr (d_dict (db_of ?s6 dst) ?k) = Some (ptr ob)"
  proof -
    have "length (dbs ?s6) = length (dbs s)" using arg_cong [OF c6, of "\<lambda>s. length (dbs s)"] by (simp del: reply_defs)
    then have "content ?s6 e ?k = content (?x4\<lparr>dirty := dirty s3 + 1\<rparr>) e ?k" if "e < length (dbs s)" for e
      using content_core [of e ?s6 ?k] that unfolding c6 by simp
    then have "content ?s6 ?d ?k = content ?x4 ?d ?k" "content ?s6 dst ?k = content ?x4 dst ?k" using i(3) n(3) by (simp_all add: src_def content_def)
    then show "d_dict (db_of ?s6 ?d) ?k = None" "map_option ptr (d_dict (db_of ?s6 dst) ?k) = Some (ptr ob)"
      using ok n(5) w(2) by (simp_all add: content_def src_def del: reply_defs)
  qed
  moreover have "CLIENT_DIRTY_CAS \<in> flags ?s6 e \<longleftrightarrow> CLIENT_DIRTY_CAS \<in> flags s e" for e
  proof -
    have "quiet_client (clients ?s6 e) = quiet_client (clients s e)" using arg_cong [OF c6, of "\<lambda>s. clients s e"] by (simp del: reply_defs)
    then show ?thesis by (rule quiet_client_flags) simp
  qed
  ultimately show ?thesis using fin by (auto simp: src_def)
qed

definition move_server :: redisServer where
  "move_server = asks 1 [lit ''MOVE'', lit ''k'', lit ''1''] (put_key 0 (lit ''k'') (Str_INT 7) watched0)"

theorem move_unseen_witness:
  "\<exists>s'. (0, lit ''k'') \<in> set (c_watched_keys (clients move_server 0)) \<and> moveCommand move_server 1 = Some s' \<and>
    d_dict (db_of s' 0) (lit ''k'') = None \<and> map_option ptr (d_dict (db_of s' 1) (lit ''k'')) = Some (Str_INT 7) \<and>
    CLIENT_DIRTY_CAS \<notin> flags s' 0"
proof -
  let ?s = move_server
  have g: "good watched0" unfolding watched0_def
    by (rule good_watch [OF started_good [OF server0_started]]) (simp add: server0_def init_server_def)
  have w: "length (dbs watched0) = 2" "d_dict (db_of watched0 0) = Map.empty" "d_dict (db_of watched0 1) = Map.empty"
    "d_expires (db_of watched0 0) = Map.empty" "d_expires (db_of watched0 1) = Map.empty" "\<not> cluster_enabled watched0"
    "c_watched_keys (clients watched0 0) = [(0, lit ''k'')]" "flags watched0 0 = {}" "cdb watched0 1 = 0"
    by (simp_all add: watched0_def watchForKey_def server0_def init_server_def plain_client_def Let_def upd_db_def upd_cl_def empty_db_def)
  have "prop_ok ?s = prop_ok watched0" by (rule prop_ok_cong) (simp_all add: move_server_def put_key_def upd_db_def upd_cl_def)
  hence p: "prop_ok ?s" using g by (simp add: good_def)
  have n: "string2ll (lit ''1'') = Some 1"
    using string2ll_decimal [of 1] by (simp add: decimal_def dec.simps lit_def)
  have d: "dbs_ok ?s" using w by (auto simp: move_server_def dbs_ok_def less_Suc_eq numeral_2_eq_2)
  have f: "cdb ?s 1 = 0" "length (dbs ?s) = 2" "\<not> cluster_enabled ?s" "argv ?s 1 = [lit ''MOVE'', lit ''k'', lit ''1'']"
    "d_dict (db_of ?s 0) (lit ''k'') = Some \<lparr>ptr = Str_INT 7, lru = 0\<rparr>" "d_expires (db_of ?s 0) (lit ''k'') = None"
    "d_dict (db_of ?s 1) (lit ''k'') = None"
    using w by (simp_all add: move_server_def put_key_def upd_db_def upd_cl_def)
  have "\<exists>s'. moveCommand ?s 1 = Some s' \<and> d_dict (db_of s' 0) (lit ''k'') = None \<and>
    map_option ptr (d_dict (db_of s' 1) (lit ''k'')) = Some (Str_INT 7) \<and> (\<forall>e. CLIENT_DIRTY_CAS \<in> flags s' e \<longleftrightarrow> CLIENT_DIRTY_CAS \<in> flags ?s e)"
    using move_unseen [OF p d, of 1 1 1 "\<lparr>ptr = Str_INT 7, lru = 0\<rparr>"] f n by simp
  moreover have "(0, lit ''k'') \<in> set (c_watched_keys (clients ?s 0))" "CLIENT_DIRTY_CAS \<notin> flags ?s 0" using w by (simp_all add: move_server_def)
  ultimately show ?thesis by blast
qed

end
