(* ===== verification/Sds.thy ===== *)
theory Sds
  imports Replication
begin

text \<open>Ranges of dynamic strings and the splitting of a line into arguments (\<open>sds.c\<close>).  A pointer into a NUL terminated line is the
  part of the line from there up to the terminator, so \<open>*p\<close> is 0 where that is empty.\<close>

section \<open>sdsrange\<close>

text \<open>The length is below \<open>2 ^ 63\<close>, so that the differences of \<open>ssize_t\<close> are exact.\<close>

definition sdsrange :: "bytes \<Rightarrow> int \<Rightarrow> int \<Rightarrow> bytes" where
  "sdsrange s start finish =
     (let len = int (length s) in
      if len = 0 then s
      else
        let start = (if start < 0 then max 0 (len + start) else start);
            finish = (if finish < 0 then max 0 (len + finish) else finish);
            newlen = (if start > finish then 0 else finish - start + 1);
            (start, newlen) =
              (if newlen \<noteq> 0
               then if start \<ge> len then (start, 0)
                    else if finish \<ge> len then (start, if start > len - 1 then 0 else len - 1 - start + 1)
                    else (start, newlen)
               else (0, newlen)) in
        take (nat newlen) (if start \<noteq> 0 \<and> newlen \<noteq> 0 then drop (nat start) s else s))"

text \<open>The use in the query buffers and the backlog of a master: dropping what was read.\<close>

lemma sdsrange_drop: "n \<le> length s \<Longrightarrow> sdsrange s (int n) (- 1) = drop n s"
proof (cases "s = []")
  case False
  assume n: "n \<le> length s"
  have "n = length s \<or> n < length s" using n by linarith
  then show ?thesis using False by (auto simp: sdsrange_def Let_def nat_add_distrib nat_diff_distrib)
qed (simp add: sdsrange_def)

section \<open>Arguments of a line\<close>

definition isspace :: "u8 \<Rightarrow> bool" where
  "isspace c \<longleftrightarrow> c = 32 \<or> (9 \<le> c \<and> c \<le> 13)"

definition is_hex_digit :: "u8 \<Rightarrow> bool" where
  "is_hex_digit c \<longleftrightarrow> (48 \<le> c \<and> c \<le> 57) \<or> (97 \<le> c \<and> c \<le> 102) \<or> (65 \<le> c \<and> c \<le> 70)"

definition hex_digit_to_int :: "u8 \<Rightarrow> u8" where
  "hex_digit_to_int c =
     (if 48 \<le> c \<and> c \<le> 57 then c - 48
      else if 97 \<le> c \<and> c \<le> 102 then c - 87
      else if 65 \<le> c \<and> c \<le> 70 then c - 55 else 0)"

definition unescape :: "u8 \<Rightarrow> u8" where
  "unescape c = (if c = 110 then 10 else if c = 114 then 13 else if c = 116 then 9 else if c = 98 then 8 else if c = 97 then 7 else c)"

datatype quoting = NOQ | INQ | INSQ

text \<open>The token that begins at \<open>p\<close>, appended to \<open>current\<close>, and where the line goes on; \<open>None\<close> is the jump to \<open>err\<close>.\<close>

function get_token :: "quoting \<Rightarrow> bytes \<Rightarrow> bytes \<Rightarrow> (bytes \<times> bytes) option" where
  "get_token q current [] = (if q = NOQ then Some (current, []) else None)"
| "get_token INQ current (c # p) =
     (if c = 92 \<and> length p \<ge> 3 \<and> p ! 0 = 120 \<and> is_hex_digit (p ! 1) \<and> is_hex_digit (p ! 2)
      then get_token INQ (current @ [hex_digit_to_int (p ! 1) * 16 + hex_digit_to_int (p ! 2)]) (drop 3 p)
      else if c = 92 \<and> p \<noteq> [] then get_token INQ (current @ [unescape (hd p)]) (tl p)
      else if c = 34 then (if p \<noteq> [] \<and> \<not> isspace (hd p) then None else Some (current, p))
      else get_token INQ (current @ [c]) p)"
| "get_token INSQ current (c # p) =
     (if c = 92 \<and> p \<noteq> [] \<and> hd p = 39 then get_token INSQ (current @ [39]) (tl p)
      else if c = 39 then (if p \<noteq> [] \<and> \<not> isspace (hd p) then None else Some (current, p))
      else get_token INSQ (current @ [c]) p)"
| "get_token NOQ current (c # p) =
     (if c \<in> {32, 10, 13, 9} then Some (current, p)
      else if c = 34 then get_token INQ current p
      else if c = 39 then get_token INSQ current p
      else get_token NOQ (current @ [c]) p)"
  by pat_completeness auto
termination by (relation "measure (\<lambda>(q, cu, p). length p)") auto

lemma get_token_within: "get_token q cu p = Some (a, r) \<Longrightarrow> length r \<le> length p"
  by (induction q cu p rule: get_token.induct) (auto split: if_splits)

lemma get_token_shorter:
  assumes "get_token q cu (c # p) = Some (a, r)"
  shows "length r < Suc (length p)"
  using assms by (cases q) (auto split: if_splits dest!: get_token_within)

function splitargs :: "bytes list \<Rightarrow> bytes \<Rightarrow> bytes list option" where
  "splitargs vector p =
     (let p = dropWhile isspace p in
      if p = [] then Some vector
      else case get_token NOQ [] p of None \<Rightarrow> None | Some (current, p) \<Rightarrow> splitargs (vector @ [current]) p)"
  by pat_completeness auto
termination
proof (relation "measure (\<lambda>(v, p). length p)")
  fix v and p :: bytes and x y a b
  assume h: "x = dropWhile isspace p" "x \<noteq> []" "get_token NOQ [] x = Some y" "(a, b) = y"
  have "length b < length x" using h(2-4) by (cases x) (auto dest!: get_token_shorter simp del: get_token.simps)
  also have "\<dots> \<le> length p" using h(1) length_dropWhile_le by simp
  finally show "((v @ [a], b), v, p) \<in> measure (\<lambda>(v, p). length p)" by simp
qed simp

declare splitargs.simps [simp del]

definition sdssplitargs :: "bytes \<Rightarrow> bytes list option" where
  "sdssplitargs line = splitargs [] (cstr line)"

section \<open>Quoted arguments are read back\<close>

lemma hexdigit_back: "b < 16 \<Longrightarrow> is_hex_digit (hexdigit b) \<and> hex_digit_to_int (hexdigit b) = b"
  by (cases "b < 10") (auto simp: hexdigit_def is_hex_digit_def hex_digit_to_int_def word_less_nat_alt word_le_nat_alt unat_word_ariths)

lemma nibbles: "(b :: u8) div 16 < 16" "(b div 16) * 16 + b mod 16 = b"
proof -
  have "unat b < 256" using unsigned_less [of b] by simp
  then have "unat (b div 16) < 16" by (simp add: unat_div_distrib)
  then show "b div 16 < 16" by (simp add: word_less_nat_alt)
  show "(b div 16) * 16 + b mod 16 = b" by (metis div_mult_mod_eq)
qed

lemma nibble_low: "(b :: u8) mod 16 < 16"
  by (simp add: word_less_nat_alt unat_mod_distrib)

lemma repr_byte_token: "get_token INQ cu (repr_byte b @ r) = get_token INQ (cu @ [b]) r"
proof -
  consider "b = 92 \<or> b = 34" | "b \<in> {10, 13, 9, 7, 8}" | "b \<notin> {92, 34, 10, 13, 9, 7, 8}" "isprint b" | "b \<notin> {92, 34, 10, 13, 9, 7, 8}" "\<not> isprint b"
    by blast
  then show ?thesis
  proof cases
    case 4
    have "is_hex_digit (hexdigit (b div 16))" "is_hex_digit (hexdigit (b mod 16))"
      "hex_digit_to_int (hexdigit (b div 16)) * 16 + hex_digit_to_int (hexdigit (b mod 16)) = b"
      using hexdigit_back [OF nibbles(1), of b] hexdigit_back [OF nibble_low, of b] nibbles(2) [of b] by simp_all
    then show ?thesis using 4 by (simp add: repr_byte_def)
  qed (auto simp: repr_byte_def unescape_def lit_def)
qed

lemma repr_token: "get_token INQ cu (concat (map repr_byte a) @ 34 # r) = (if r \<noteq> [] \<and> \<not> isspace (hd r) then None else Some (cu @ a, r))"
  by (induction a arbitrary: cu) (simp_all add: repr_byte_token)

lemma catrepr_token: "get_token NOQ [] (sdscatrepr [] a @ r) = (if r \<noteq> [] \<and> \<not> isspace (hd r) then None else Some (a, r))"
  using repr_token [of "[]" a r] by (simp add: sdscatrepr_def)

lemma splitargs_token:
  assumes "r = [] \<or> isspace (hd r)"
  shows "splitargs v (sdscatrepr [] a @ r) = splitargs (v @ [a]) r"
proof -
  have "dropWhile isspace (sdscatrepr [] a @ r) = sdscatrepr [] a @ r" by (simp add: sdscatrepr_def isspace_def)
  moreover have "sdscatrepr [] a @ r \<noteq> []" by (simp add: sdscatrepr_def)
  ultimately show ?thesis using assms by (subst splitargs.simps) (auto simp: catrepr_token simp del: append_is_Nil_conv)
qed

lemma splitargs_space: "splitargs v (32 # r) = splitargs v r"
  by (subst (1 2) splitargs.simps) (simp add: isspace_def)

lemma splitargs_reprs: "splitargs v (sep_reprs av) = Some (v @ av)"
proof (induction av arbitrary: v rule: sep_reprs.induct)
  case 1
  show ?case by (simp add: splitargs.simps)
next
  case (2 a)
  show ?case using splitargs_token [of "[]" v a] by (simp add: splitargs.simps)
next
  case (3 a b as)
  have "splitargs v (sep_reprs (a # b # as)) = splitargs (v @ [a]) (32 # sep_reprs (b # as))"
    using splitargs_token [of "32 # sep_reprs (b # as)" v a] by (simp add: isspace_def)
  then show ?case using 3 by (simp add: splitargs_space)
qed

lemma hexdigit_nonzero: "b < 16 \<Longrightarrow> hexdigit b \<noteq> 0"
  using hexdigit_back [of b] by (auto simp: is_hex_digit_def)

lemma repr_byte_nonzero: "0 \<notin> set (repr_byte b)"
  using hexdigit_nonzero [OF nibbles(1), of b] hexdigit_nonzero [OF nibble_low, of b]
  by (auto simp: repr_byte_def lit_def isprint_def)

lemma sep_reprs_nonzero: "0 \<notin> set (sep_reprs av)"
  by (induction av rule: sep_reprs.induct) (auto simp: sdscatrepr_def repr_byte_nonzero)

text \<open>C0: \<open>sdssplitargs\<close> reads back what \<open>sdscatrepr\<close> quotes: from the arguments of any command quoted and separated by blanks, as \<open>MONITOR\<close>
  shows them, it returns exactly these arguments, whatever bytes are in them.\<close>

theorem sdssplitargs_catrepr: "sdssplitargs (sep_reprs av) = Some av"
proof -
  have "cstr (sep_reprs av) = sep_reprs av"
    unfolding cstr_def using sep_reprs_nonzero [of av] by (intro takeWhile_eq_all_conv [THEN iffD2]) metis
  then show ?thesis using splitargs_reprs [of "[]" av] by (simp add: sdssplitargs_def)
qed

end
