(* ===== verification/Spec2Isabelle.thy ===== *)
theory Spec2Isabelle
  imports Limits Sds
begin

text \<open>
  A verification library for the Redis server in \<open>src/src\<close> (a fork of Redis 5.0.6).

  \<^bold>\<open>The program.\<close>  The server is one thread that reads requests of its clients, looks the command up in a
  table (\<open>server.c\<close>), checks whether it may run, and either queues it (\<open>multi.c\<close>) or runs it
  through \<open>call\<close>, which counts the changes, logs slow commands and propagates what was done to the append
  only file (\<open>aof.c\<close>), to the replicas (\<open>replication.c\<close>) and to monitors.  Commands read and write databases
  (\<open>db.c\<close>), which are dictionaries of objects (\<open>object.c\<close>) and of expires, and tell the clients that watch a key
  (\<open>multi.c\<close>) and the subscribers of its events (\<open>notify.c\<close>, \<open>pubsub.c\<close>).  Replies go to output buffers
  (\<open>networking.c\<close>).  Number parsing, formatting and glob matching are in \<open>util.c\<close>; \<open>intset.c\<close> is the packed
  representation of small sets of integers.

  \<^bold>\<open>Conventions.\<close>  A function that can fail an assertion, leave its memory, run out of memory or not return
  has an \<open>option\<close> result, and \<open>None\<close> stands for exactly these ends; error replies are bytes in the output of the
  client.  Loops whose end is not obvious are \<open>partial_function (option)\<close> and are proved to return;
  loops over lists are \<open>foldM\<close>, others are structurally recursive, so no fuel is used anywhere.  Machine
  integers are words (\<open>i64\<close>, \<open>u32\<close>, ...), strings are byte lists, C buffers in \<open>Util\<close>, \<open>Glob\<close> and
  \<open>Intset\<close> keep their length and every access is checked.  The server is the record \<open>redisServer\<close>; pointers to
  clients and databases are numbers, dictionaries are maps, flag words are sets of flags.  What the server
  asks from its environment is a field of the record that the events of \<open>Steps\<close> may set: the clocks, the
  duration of a command, random numbers, allocation sizes, and the iteration order of dictionaries.
  The argument vector is a list and \<open>argv ! i\<close> is only used where the arity check of \<open>processCommand\<close> or a
  test of the command makes the index valid.  Reference counts are left out: objects are values.

  \<^bold>\<open>Theories.\<close>
  \<^item> \<open>Prelude\<close>: words, byte memory, little endian encodings, \<open>foldM\<close>.
  \<^item> \<open>Endianconv\<close> (\<open>endianconv.c\<close>), \<open>SetInterface\<close> (the contract of a set container, a locale), \<open>Intset\<close>
    (\<open>intset.c\<close> on bytes): every operation stays in its memory and refines the operation on mathematical sets;
    the stored bytes do not depend on the host; the limit at which the size computation wraps.
  \<^item> \<open>Util\<close>, \<open>Glob\<close> (\<open>util.c\<close>): \<open>ll2string\<close> and \<open>string2ll\<close> are correct on all 64 bit integers; \<open>stringmatchlen\<close>
    returns, stays in the pattern and decides the glob language.
  \<^item> \<open>State\<close> (\<open>server.h\<close>): the records.  \<open>Networking\<close> (\<open>networking.c\<close>): output buffers, replies append exactly their bytes,
    deferred lengths.  \<open>Pubsub\<close> (\<open>pubsub.c\<close>, \<open>notify.c\<close>).  \<open>Replication\<close> (\<open>replication.c\<close>): the circular backlog holds the
    suffix of the stream, and a replica that resumes is sent exactly what it misses.  \<open>Aof\<close> (\<open>aof.c\<close>).
    \<open>Crc16\<close> (\<open>crc16.c\<close>, \<open>keyHashSlot\<close> of \<open>cluster.c\<close>): the table is the bitwise division, hash tags.
    \<open>Object\<close> (\<open>object.c\<close>, clocks of \<open>evict.c\<close>).
  \<^item> \<open>Frame\<close>: \<open>core\<close> forgets what replies, events and propagation change; the simulation \<open>sim\<close> reduces a command to what it
    does to keys and to the reply it sends.  \<open>Db\<close> (\<open>db.c\<close> and the parts of \<open>lazyfree.c\<close>, \<open>blocked.c\<close>, \<open>expire.c\<close> it uses) with
    abstract operations \<open>put_key\<close>, \<open>del_key\<close>, \<open>set_exp\<close>, ... that the concrete ones refine.  \<open>Safe\<close>: \<open>wp m Q\<close>, total correctness, and
    the frame of every command.
  \<^item> \<open>TString\<close>, \<open>TStringSafe\<close> (\<open>t_string.c\<close>), \<open>Generic\<close>, \<open>GenericSafe\<close> (\<open>db.c\<close>, \<open>expire.c\<close>): the commands, what they reply and store,
    and that they run from every state that satisfies the invariants.
  \<^item> \<open>Call\<close> (\<open>call\<close> of \<open>server.c\<close>, \<open>slowlog.c\<close>, \<open>latency.c\<close>), \<open>Multi\<close> (\<open>multi.c\<close>), \<open>Server\<close> (the command table and \<open>processCommand\<close>).
  \<^item> \<open>Watch\<close>, \<open>Runs\<close>, \<open>Exec\<close>, \<open>Process\<close>: the tables of watched keys stay consistent; every modelled command, transactions and whole
    requests return, keep the invariants and mark the watchers of what they change.  \<open>Table\<close>: the command table is populated
    without a panic.  \<open>Steps\<close>: the server as a state machine over requests and clock ticks, \<open>reachable\<close> states,
    the invariant \<open>good\<close>, absence of crashes and optimistic locking.  \<open>Limits\<close>: where the code fails its intent.

  \<^bold>\<open>Not modelled\<close>, and what the theorems exclude for it.  The server state machine is for a server that is not
  part of a cluster, has no memory limit, runs no Lua script, and for the commands in \<open>supported\<close>; \<open>fine\<close> also
  excludes the two requests that are known to abort it (\<open>sane\<close>; \<open>Limits\<close> and \<open>TString\<close> show that they do).
  Values of the aggregate types are carried opaquely by the keyspace.
\<close>

end
